(* ===== verification/Go_Prelude.thy ===== *)
theory Go_Prelude
  imports Main "HOL-Library.Word"
begin

unbundle bit_operations_syntax

text \<open>
  What the components of copycat share: the parts of the Go language and of its
  standard library that the sources rely on.
  \<^item> outcomes of a Go call (\<open>go\<close>): it returns, it panics, or it blocks for good;
  \<^item> the error values of \<^verbatim>\<open>src/g/errors.go\<close>;
  \<^item> byte strings, little-endian integers, and the conversions between \<open>string\<close> and bytes;
  \<^item> Go slices (\<open>gslice\<close>): the visible elements and the spare part of the backing
    array that re-slicing and \<open>append\<close> can reach;
  \<^item> status words tested bit by bit, as every component of the program keeps one.
  Facts of general use are simp rules or members of the collections \<open>go_simps\<close> (one
  step of a Go program) and \<open>flag_simps\<close> (status words).
\<close>

named_theorems go_simps \<open>unfolding of Go outcomes, slices and indexing\<close>
named_theorems flag_simps \<open>status words\<close>


section \<open>Outcomes of a call\<close>

datatype go_panic =
    IndexOutOfRange
  | SliceOutOfRange
  | NilDereference
  | TypeAssertion
  | SendOnClosedChannel
  | CloseOfClosedChannel
  | ExplicitPanic

text \<open>\<open>Ret\<close>: the call returns; \<open>Panic\<close>: it unwinds with a run-time panic;
  \<open>Block\<close>: it waits for another goroutine (a full or an empty channel).\<close>

datatype 'a go = Ret 'a | Panic go_panic | Block

fun go_bind :: "'a go \<Rightarrow> ('a \<Rightarrow> 'b go) \<Rightarrow> 'b go" where
  "go_bind (Ret x) f = f x"
| "go_bind (Panic p) f = Panic p"
| "go_bind Block f = Block"

text \<open>The error values of \<^verbatim>\<open>src/g/errors.go\<close>; \<open>ErrExternal\<close> stands for an error
  handed out by the operating system or by a library.\<close>

datatype g_error =
    ErrFileNotFound
  | ErrFileParse
  | ErrOutOfRange
  | ErrKvDoesNotExists
  | ErrMembersEmpty
  | ErrLeaderNotFound
  | ErrNotRegister
  | ErrDataLenError
  | ErrNotConnect
  | ErrIsConnected
  | ErrWaitTimeout
  | ErrChanIsClosed
  | ErrUnknownError
  | ErrMaxPackError
  | ErrInvalidPackage
  | ErrNetW
  | ErrExternal string

lemma go_bind_eq_Ret [go_simps]: "go_bind x f = Ret y \<longleftrightarrow> (\<exists>v. x = Ret v \<and> f v = Ret y)"
  by (cases x) auto

lemma go_bind_eq_Panic [go_simps]:
  "go_bind x f = Panic p \<longleftrightarrow> x = Panic p \<or> (\<exists>v. x = Ret v \<and> f v = Panic p)"
  by (cases x) auto

lemma go_bind_cong [fundef_cong]:
  "x = y \<Longrightarrow> (\<And>v. y = Ret v \<Longrightarrow> f v = g v) \<Longrightarrow> go_bind x f = go_bind y g"
  by (cases y) auto

lemma go_bind_RetE:
  "go_bind x f = Ret y \<Longrightarrow> (\<And>v. x = Ret v \<Longrightarrow> f v = Ret y \<Longrightarrow> P) \<Longrightarrow> P"
  by (cases x) auto

lemma go_bind_Ret_right [simp]: "go_bind x Ret = x"
  by (cases x) auto

lemma go_bind_assoc: "go_bind (go_bind x f) g = go_bind x (\<lambda>v. go_bind (f v) g)"
  by (cases x) auto


section \<open>Bytes and little-endian integers\<close>

type_synonym byte = "8 word"
type_synonym bytes = "byte list"
type_synonym int64 = "64 word"

text \<open>\<open>[]byte(s)\<close> and \<open>string(b)\<close>: Go strings are byte strings.\<close>

definition bytes_of :: "string \<Rightarrow> bytes" where
  "bytes_of s = map (\<lambda>c. word_of_nat (of_char c)) s"

definition string_of :: "bytes \<Rightarrow> string" where
  "string_of b = map (\<lambda>w. char_of (unat w)) b"

lemma length_bytes_of [simp]: "length (bytes_of s) = length s"
  by (simp add: bytes_of_def)

lemma char_of_of_char_byte [simp]: "char_of (unat (word_of_nat (of_char c) :: byte)) = c"
  by (simp add: unat_of_nat)

lemma string_of_bytes_of [simp]: "string_of (bytes_of s) = s"
  by (simp add: string_of_def bytes_of_def comp_def)

text \<open>The value of a little-endian byte string, and the \<open>n\<close> low bytes of a number.\<close>

primrec le_nat :: "bytes \<Rightarrow> nat" where
  "le_nat [] = 0"
| "le_nat (b # bs) = unat b + 256 * le_nat bs"

primrec le_bytes :: "nat \<Rightarrow> nat \<Rightarrow> bytes" where
  "le_bytes 0 x = []"
| "le_bytes (Suc n) x = word_of_nat x # le_bytes n (x div 256)"

lemma unat_byte_less [simp]: "unat (b :: byte) < 256"
  using unsigned_less [of b] by simp

lemma length_le_bytes [simp]: "length (le_bytes n x) = n"
  by (induction n arbitrary: x) auto

lemma le_nat_le_bytes [simp]: "le_nat (le_bytes n x) = x mod 256 ^ n"
  by (induction n arbitrary: x) (simp_all add: unat_of_nat mod_mult2_eq)

lemma le_nat_bound: "le_nat bs < 256 ^ length bs"
proof (induction bs)
  case Nil
  then show ?case by simp
next
  case (Cons b bs)
  have "unat b < 256" by simp
  with Cons show ?case by (simp del: unat_byte_less)
qed

lemma le_bytes_le_nat: "length bs = n \<Longrightarrow> le_bytes n (le_nat bs) = bs"
proof (induction bs arbitrary: n)
  case Nil
  then show ?case by simp
next
  case (Cons b bs)
  have "unat b < 256" by simp
  moreover have "word_of_nat (unat b + 256 * le_nat bs) = b"
    by (simp only: word_unat_eq_iff unat_of_nat) simp
  ultimately show ?case using Cons by (auto simp: div_add1_eq)
qed

text \<open>The shifts and truncations \<open>byte(x >> 8 * i)\<close> the sources write out.\<close>

lemma le_bytes_shifts: "le_bytes n x = map (\<lambda>i. word_of_nat (drop_bit (8 * i) x)) [0..<n]"
proof (induction n arbitrary: x)
  case 0
  then show ?case by simp
next
  case (Suc n)
  have "drop_bit (8 * i) (x div 256) = drop_bit (8 * Suc i) x" for i
    by (simp add: drop_bit_eq_div div_mult2_eq [symmetric] power_add)
  then have "le_bytes n (x div 256) = map (\<lambda>i. word_of_nat (drop_bit (8 * Suc i) x)) [0..<n]"
    using Suc [of "x div 256"] by simp
  then show ?case
    by (simp add: map_upt_Suc del: upt_Suc)
qed

lemma le_bytes_2: "le_bytes 2 x = [word_of_nat x, word_of_nat (drop_bit 8 x)]"
  by (simp add: le_bytes_shifts upt_rec)

lemma le_bytes_4:
  "le_bytes 4 x = [word_of_nat x, word_of_nat (drop_bit 8 x), word_of_nat (drop_bit 16 x),
     word_of_nat (drop_bit 24 x)]"
  by (simp add: le_bytes_shifts upt_rec)

text \<open>A sum of disjoint bit ranges is the bitwise or the sources write.\<close>

lemma or_push_bit_eq_add: "a < 2 ^ n \<Longrightarrow> a OR push_bit n b = a + 2 ^ n * b" for a b :: nat
proof -
  assume "a < 2 ^ n"
  then have "a = take_bit n a" by (simp add: take_bit_nat_eq_self)
  then have "a AND push_bit n b = 0"
    by (metis (no_types, lifting) bit_and_iff bit_eqI bit_push_bit_iff bit_take_bit_iff
        bit_0_eq bot_apply bot_bool_def leD)
  then have "a OR push_bit n b = a + push_bit n b"
    by (simp add: disjunctive_add_eq_or)
  then show ?thesis by (simp add: push_bit_eq_mult mult.commute)
qed

text \<open>\<open>int(b[0]) | int(b[1])<<8\<close> and \<open>int(b[0]) | int(b[1])<<8 | int(b[2])<<16 |
  int(b[3])<<24\<close>, as the framing code computes a command and a length.\<close>

definition get16 :: "byte \<Rightarrow> byte \<Rightarrow> nat" where
  "get16 b0 b1 = unat b0 OR push_bit 8 (unat b1)"

definition get32 :: "byte \<Rightarrow> byte \<Rightarrow> byte \<Rightarrow> byte \<Rightarrow> nat" where
  "get32 b0 b1 b2 b3 =
     unat b0 OR push_bit 8 (unat b1) OR push_bit 16 (unat b2) OR push_bit 24 (unat b3)"

lemma get16_le_nat: "get16 b0 b1 = le_nat [b0, b1]"
  using or_push_bit_eq_add [of "unat b0" 8 "unat b1"] by (simp add: get16_def)

lemma get32_le_nat: "get32 b0 b1 b2 b3 = le_nat [b0, b1, b2, b3]"
proof -
  have b: "unat b0 < 256" "unat b1 < 256" "unat b2 < 256" by simp_all
  have 1: "unat b0 OR push_bit 8 (unat b1) = unat b0 + 2 ^ 8 * unat b1"
    by (rule or_push_bit_eq_add) (use b in \<open>simp del: unat_byte_less\<close>)
  have 2: "(unat b0 + 2 ^ 8 * unat b1) OR push_bit 16 (unat b2) =
      unat b0 + 2 ^ 8 * unat b1 + 2 ^ 16 * unat b2"
    by (rule or_push_bit_eq_add) (use b in \<open>simp del: unat_byte_less\<close>)
  have 3: "(unat b0 + 2 ^ 8 * unat b1 + 2 ^ 16 * unat b2) OR push_bit 24 (unat b3) =
      unat b0 + 2 ^ 8 * unat b1 + 2 ^ 16 * unat b2 + 2 ^ 24 * unat b3"
    by (rule or_push_bit_eq_add) (use b in \<open>simp del: unat_byte_less\<close>)
  show ?thesis unfolding get32_def by (simp only: or.assoc [symmetric] 1 2 3) simp
qed

lemma take_4_nth: "4 \<le> length b \<Longrightarrow> take 4 b = [b ! 0, b ! 1, b ! 2, b ! 3]"
  by (rule nth_equalityI) (auto simp: less_Suc_eq numeral_eq_Suc)

lemma take_2_drop_nth: "k + 2 \<le> length b \<Longrightarrow> take 2 (drop k b) = [b ! k, b ! (k + 1)]"
  by (rule nth_equalityI) (auto simp: less_Suc_eq numeral_eq_Suc)

text \<open>The same readings at the front of a byte string.\<close>

lemma get32_take: "4 \<le> length b \<Longrightarrow> get32 (b ! 0) (b ! 1) (b ! 2) (b ! 3) = le_nat (take 4 b)"
  by (simp only: get32_le_nat take_4_nth)

lemma get16_take: "k + 2 \<le> length b \<Longrightarrow> get16 (b ! k) (b ! (k + 1)) = le_nat (take 2 (drop k b))"
  by (simp only: get16_le_nat take_2_drop_nth)

lemma get32_bound: "get32 b0 b1 b2 b3 < 2 ^ 32"
  using le_nat_bound [of "[b0, b1, b2, b3]"] by (simp only: get32_le_nat) simp


section \<open>Slices and channels\<close>

text \<open>
  A Go slice is a window on a backing array. \<open>vis\<close> holds its \<open>len\<close> elements, \<open>spare\<close>
  the elements of the array after them, up to \<open>cap\<close>. Re-slicing is bounded by \<open>cap\<close>,
  not by \<open>len\<close>; \<open>append\<close> writes into the spare part while it is large enough and
  allocates otherwise. How much a fresh array exceeds what is asked for is not fixed by
  the language: \<open>grow\<close> is a parameter (old capacity, elements needed), and no result
  depends on it.
\<close>

record 'a gslice =
  vis :: "'a list"
  spare :: "'a list"

type_synonym growth = "nat \<Rightarrow> nat \<Rightarrow> nat"

definition arr :: "'a gslice \<Rightarrow> 'a list" where
  "arr s = vis s @ spare s"

definition gs_make :: "'a gslice" where
  "gs_make = \<lparr>vis = [], spare = []\<rparr>"

text \<open>\<open>s[lo:hi]\<close>\<close>

definition gs_slice :: "'a gslice \<Rightarrow> nat \<Rightarrow> nat \<Rightarrow> 'a gslice go" where
  "gs_slice s lo hi =
     (if lo \<le> hi \<and> hi \<le> length (arr s)
      then Ret \<lparr>vis = take (hi - lo) (drop lo (arr s)), spare = drop hi (arr s)\<rparr>
      else Panic SliceOutOfRange)"

text \<open>\<open>append(s, xs...)\<close>; \<open>z\<close> is the element type's zero value.\<close>

definition gs_append :: "growth \<Rightarrow> 'a \<Rightarrow> 'a gslice \<Rightarrow> 'a list \<Rightarrow> 'a gslice" where
  "gs_append grow z s xs =
     (if length xs \<le> length (spare s)
      then \<lparr>vis = vis s @ xs, spare = drop (length xs) (spare s)\<rparr>
      else \<lparr>vis = vis s @ xs,
            spare = replicate (grow (length (arr s)) (length (vis s) + length xs)) z\<rparr>)"

text \<open>\<open>b[i]\<close> and \<open>b[lo:hi]\<close> where the source has checked \<open>hi \<le> len(b)\<close>, so that the
  capacity plays no part.\<close>

definition at :: "'a list \<Rightarrow> nat \<Rightarrow> 'a go" where
  "at b i = (if i < length b then Ret (b ! i) else Panic IndexOutOfRange)"

definition sub :: "'a list \<Rightarrow> nat \<Rightarrow> nat \<Rightarrow> 'a list go" where
  "sub b lo hi =
     (if lo \<le> hi \<and> hi \<le> length b then Ret (take (hi - lo) (drop lo b))
      else Panic SliceOutOfRange)"

lemma vis_gs_append [simp]: "vis (gs_append grow z s xs) = vis s @ xs"
  by (simp add: gs_append_def)

lemma at_Ret [simp]: "i < length b \<Longrightarrow> at b i = Ret (b ! i)"
  by (simp add: at_def)

lemma sub_Ret [simp]: "lo \<le> hi \<Longrightarrow> hi \<le> length b \<Longrightarrow> sub b lo hi = Ret (take (hi - lo) (drop lo b))"
  by (simp add: sub_def)

lemma sub_eq_Ret [go_simps]:
  "sub b lo hi = Ret c \<longleftrightarrow> lo \<le> hi \<and> hi \<le> length b \<and> c = take (hi - lo) (drop lo b)"
  by (auto simp: sub_def)

text \<open>A slice that ends inside the visible part does not see the spare part.\<close>

lemma gs_slice_vis [simp]:
  "lo \<le> hi \<Longrightarrow> hi \<le> length (vis s) \<Longrightarrow>
     gs_slice s lo hi = Ret \<lparr>vis = take (hi - lo) (drop lo (vis s)), spare = drop hi (arr s)\<rparr>"
  by (simp add: gs_slice_def arr_def)


text \<open>\<open>append(s[:i], s[i+1:]...)\<close> shifts the tail inside the same backing array: the last
  visible element stays behind it, in the spare part.\<close>

definition gs_delete :: "nat \<Rightarrow> 'a gslice \<Rightarrow> 'a gslice" where
  "gs_delete i s =
     \<lparr>vis = take i (vis s) @ drop (Suc i) (vis s), spare = drop (length (vis s) - 1) (arr s)\<rparr>"

text \<open>The position a search loop \<open>for index, n := range ...\<close> stops at.\<close>

fun index_of :: "'a \<Rightarrow> 'a list \<Rightarrow> nat option" where
  "index_of x [] = None"
| "index_of x (y # ys) = (if y = x then Some 0 else map_option Suc (index_of x ys))"

lemma index_of_None [simp]: "index_of x ys = None \<longleftrightarrow> x \<notin> set ys"
  by (induction ys) auto

lemma index_of_SomeD: "index_of x ys = Some i \<Longrightarrow> i < length ys \<and> ys ! i = x"
  by (induction ys arbitrary: i) (auto split: if_splits)

lemma index_of_remove1: "index_of x ys = Some i \<Longrightarrow> take i ys @ drop (Suc i) ys = remove1 x ys"
  by (induction ys arbitrary: i) (auto split: if_splits)

lemma gs_delete_append:
  "i < length (vis s) \<Longrightarrow>
     gs_delete i s =
     gs_append grow z \<lparr>vis = take i (vis s), spare = drop i (arr s)\<rparr> (drop (Suc i) (vis s))"
  by (auto simp: gs_delete_def gs_append_def arr_def)

lemma length_arr_gs_delete [simp]:
  "i < length (vis s) \<Longrightarrow> length (arr (gs_delete i s)) = length (arr s)"
  by (simp add: gs_delete_def arr_def)

text \<open>A search for \<open>x\<close> followed by its deletion.\<close>

definition gs_remove :: "'a \<Rightarrow> 'a gslice \<Rightarrow> 'a gslice" where
  "gs_remove x s = (case index_of x (vis s) of Some i \<Rightarrow> gs_delete i s | None \<Rightarrow> s)"

lemma vis_gs_remove [simp]: "vis (gs_remove x s) = remove1 x (vis s)"
  by (auto simp: gs_remove_def gs_delete_def index_of_remove1 remove1_idem split: option.splits)

lemma length_arr_gs_remove [simp]: "length (arr (gs_remove x s)) = length (arr s)"
  by (auto simp: gs_remove_def dest: index_of_SomeD split: option.splits)

text \<open>The first element stays where it is when another one is removed, and the places behind
  it, up to any bound past the visible part, get no new elements.\<close>

lemma set_window_gs_remove:
  assumes "vis s = y # ys" and "x \<noteq> y" and "length (vis s) \<le> m"
  shows "set (drop 1 (take m (arr (gs_remove x s)))) \<subseteq> set (drop 1 (take m (arr s)))"
proof (cases "index_of x (vis s)")
  case None
  then have "gs_remove x s = s" by (simp only: gs_remove_def option.case)
  then show ?thesis by simp
next
  case (Some i)
  with assms obtain j where i: "i = Suc j" and j: "j < length ys"
    using index_of_SomeD [OF Some] by (cases i) auto
  obtain m' where m: "m = Suc m'" and m': "length ys \<le> m'" using assms(1,3) by (cases m) auto
  have old: "drop 1 (take m (arr s)) = ys @ take (m' - length ys) (spare s)"
    using assms(1) m m' by (simp add: arr_def)
  have "drop 1 (take m (arr (gs_remove x s))) =
      take j ys @ drop (Suc j) ys @ take (Suc m' - length ys) (drop (length ys) (y # ys @ spare s))"
    using assms Some i j m m' by (simp add: gs_remove_def gs_delete_def arr_def min_def Suc_diff_le)
  moreover have "drop (length ys) (y # ys @ spare s) = last ys # spare s"
    using j by (cases ys rule: rev_cases) simp_all
  ultimately have "drop 1 (take m (arr (gs_remove x s))) =
      take j ys @ drop (Suc j) ys @ last ys # take (m' - length ys) (spare s)"
    using m' by (simp add: Suc_diff_le)
  moreover have "last ys \<in> set ys" using j by (cases ys) auto
  ultimately show ?thesis unfolding old by (auto dest: in_set_takeD in_set_dropD)
qed

text \<open>Reading through a pointer that may be nil.\<close>

fun deref :: "'a option \<Rightarrow> 'a go" where
  "deref None = Panic NilDereference"
| "deref (Some x) = Ret x"

lemma deref_Ret [simp]: "deref p = Ret x \<longleftrightarrow> p = Some x"
  by (cases p) simp_all

text \<open>\<open>for _, x := range s { f(x) }\<close>, where \<open>s\<close> is a part of the state: the header of the
  slice is read once, the elements one by one from the backing array as the iteration reaches
  them. \<open>each\<close> is the same loop over elements that are known beforehand.\<close>

fun each :: "('x \<Rightarrow> 'w \<Rightarrow> 'w go) \<Rightarrow> 'x list \<Rightarrow> 'w \<Rightarrow> 'w go" where
  "each f [] w = Ret w"
| "each f (x # xs) w = go_bind (f x w) (each f xs)"

fun range_from :: "('w \<Rightarrow> 'x gslice) \<Rightarrow> ('x \<Rightarrow> 'w \<Rightarrow> 'w go) \<Rightarrow> nat \<Rightarrow> nat \<Rightarrow> 'w \<Rightarrow> 'w go" where
  "range_from sl f i 0 w = Ret w"
| "range_from sl f i (Suc k) w =
     go_bind (f (arr (sl w) ! i) w) (range_from sl f (Suc i) k)"

definition range_do :: "('w \<Rightarrow> 'x gslice) \<Rightarrow> ('x \<Rightarrow> 'w \<Rightarrow> 'w go) \<Rightarrow> 'w \<Rightarrow> 'w go" where
  "range_do sl f w = range_from sl f 0 (length (vis (sl w))) w"

text \<open>What every call of the loop's body keeps, the loop keeps.\<close>

lemma range_from_keeps:
  assumes "\<And>x w w'. P w \<Longrightarrow> f x w = Ret w' \<Longrightarrow> P w'" and "P w" and "range_from sl f i k w = Ret w'"
  shows "P w'"
  using assms(2,3)
proof (induction k arbitrary: i w)
  case 0
  then show ?case by simp
next
  case (Suc k)
  then obtain v where "f (arr (sl w) ! i) w = Ret v" "range_from sl f (Suc i) k v = Ret w'"
    by (cases "f (arr (sl w) ! i) w") auto
  with Suc.IH assms(1) Suc.prems(1) show ?case by blast
qed

lemma range_do_keeps:
  assumes "\<And>x w w'. P w \<Longrightarrow> f x w = Ret w' \<Longrightarrow> P w'" and "P w" and "range_do sl f w = Ret w'"
  shows "P w'"
  using assms(3) unfolding range_do_def by (rule range_from_keeps [where P = P and f = f, rotated 2]) (fact assms)+

lemma range_from_each:
  assumes "\<And>x w w'. f x w = Ret w' \<Longrightarrow> sl w' = sl w" and "i + k \<le> length (arr (sl w))"
  shows "range_from sl f i k w = each f (take k (drop i (arr (sl w)))) w"
  using assms(2)
proof (induction k arbitrary: i w)
  case 0
  then show ?case by simp
next
  case (Suc k)
  then have "drop i (arr (sl w)) = arr (sl w) ! i # drop (Suc i) (arr (sl w))"
    by (simp add: Cons_nth_drop_Suc)
  then show ?case
    using Suc assms(1) by (cases "f (arr (sl w) ! i) w") auto
qed

text \<open>A body that leaves the slice alone.\<close>

lemma range_do_each:
  assumes "\<And>x w w'. f x w = Ret w' \<Longrightarrow> sl w' = sl w"
  shows "range_do sl f w = each f (vis (sl w)) w"
  unfolding range_do_def using assms
  by (subst range_from_each) (auto simp: arr_def)

lemma each_append: "each f (xs @ ys) w = go_bind (each f xs w) (each f ys)"
proof (induction xs arbitrary: w)
  case Nil
  then show ?case by simp
next
  case (Cons x xs)
  then show ?case by (cases "f x w") simp_all
qed

lemma each_invariant:
  assumes "\<And>x w w'. x \<in> set xs \<Longrightarrow> f x w = Ret w' \<Longrightarrow> P w \<Longrightarrow> P w'" and "each f xs w = Ret w'" and "P w"
  shows "P w'"
  using assms
proof (induction xs arbitrary: w)
  case Nil
  then show ?case by simp
next
  case (Cons x xs)
  from Cons.prems(2) obtain v where v: "f x w = Ret v" "each f xs v = Ret w'"
    by (auto elim: go_bind_RetE)
  have "P v" using Cons.prems(1,3) v(1) by auto
  show ?case
    by (rule Cons.IH [OF _ v(2) \<open>P v\<close>]) (use Cons.prems(1) in auto)
qed


section \<open>Strings\<close>

text \<open>\<open>%d\<close> of a natural number.\<close>

fun dec :: "nat \<Rightarrow> string" where
  "dec n = (if n < 10 then [char_of (48 + n)] else dec (n div 10) @ [char_of (48 + n mod 10)])"

declare dec.simps [simp del]

text \<open>\<open>strings.Trim(s, " ")\<close>\<close>

definition TrimSpaces :: "string \<Rightarrow> string" where
  "TrimSpaces s = rev (dropWhile (\<lambda>c. c = CHR '' '') (rev (dropWhile (\<lambda>c. c = CHR '' '') s)))"

text \<open>\<open>strings.ToLower\<close>: on ASCII strings letter by letter; on other strings it maps runes
  by the Unicode tables, which are the parameter \<open>uni\<close>.\<close>

definition ascii_lower :: "char \<Rightarrow> char" where
  "ascii_lower c =
     (let n = of_char c :: nat in if 65 \<le> n \<and> n \<le> 90 then char_of (n + 32) else c)"

definition ToLower :: "(string \<Rightarrow> string) \<Rightarrow> string \<Rightarrow> string" where
  "ToLower uni s = (if \<forall>c \<in> set s. of_char c < (128 :: nat) then map ascii_lower s else uni s)"


section \<open>Status words\<close>

text \<open>\<open>status & flag > 0\<close>; the flags are powers of two (\<open>1 << iota\<close>).\<close>

definition has_flag :: "nat \<Rightarrow> nat \<Rightarrow> bool" where
  "has_flag status flag \<longleftrightarrow> status AND flag > 0"

lemma has_flag_pow: "has_flag s (2 ^ k) \<longleftrightarrow> bit s k"
  by (simp add: has_flag_def and_exp_eq_0_iff_not_bit flip: neq0_conv)

lemma has_flag_numerals [flag_simps]:
  "has_flag s 1 \<longleftrightarrow> bit s 0"
  "has_flag s (Suc 0) \<longleftrightarrow> bit s 0"
  "has_flag s 2 \<longleftrightarrow> bit s (Suc 0)"
  "has_flag s 4 \<longleftrightarrow> bit s 2"
  using has_flag_pow [of s 0] has_flag_pow [of s 1] has_flag_pow [of s 2] by simp_all

lemma bit_flag_numerals [flag_simps]:
  "bit (1 :: nat) n \<longleftrightarrow> n = 0"
  "bit (Suc 0) n \<longleftrightarrow> n = 0"
  "bit (2 :: nat) n \<longleftrightarrow> n = Suc 0"
  "bit (4 :: nat) n \<longleftrightarrow> n = 2"
proof -
  show "bit (1 :: nat) n \<longleftrightarrow> n = 0" by (rule bit_1_iff)
  then show "bit (Suc 0) n \<longleftrightarrow> n = 0" by simp
  show "bit (2 :: nat) n \<longleftrightarrow> n = Suc 0" by (simp add: bit_2_iff)
  show "bit (4 :: nat) n \<longleftrightarrow> n = 2"
    using bit_exp_iff [of 2 n, where 'a = nat] by simp
qed

lemmas flag_ops [flag_simps] = bit_or_iff bit_xor_iff

end
