(* ===== verification/Go_Text.thy ===== *)
theory Go_Text
  imports Go_Prelude
begin

text \<open>
  The text functions of Go's standard library that the sources use on addresses, keys and
  settings: \<open>strings.Split\<close> at one separator character, \<open>strconv.ParseInt\<close> in base ten,
  the \<open>%d\<close> and \<open>%v\<close> verbs for integers and booleans, and \<open>strings.TrimSpace\<close> for
  ASCII. The laws: printing and splitting an address \<open>host:port\<close> gives host and port back,
  and \<open>ParseInt\<close> reads what \<open>%d\<close> prints.
\<close>

section \<open>Splitting\<close>

text \<open>\<open>strings.Split(s, sep)\<close> for a separator of one byte: never empty.\<close>

fun split_at :: "char \<Rightarrow> string \<Rightarrow> string list" where
  "split_at sep [] = [[]]"
| "split_at sep (c # s) =
     (if c = sep then [] # split_at sep s
      else case split_at sep s of [] \<Rightarrow> [[c]] | w # ws \<Rightarrow> (c # w) # ws)"

lemma split_at_nonempty [simp]: "split_at sep s \<noteq> []"
  by (induction s) (auto split: list.splits)

lemma split_at_none [simp]: "sep \<notin> set s \<Longrightarrow> split_at sep s = [s]"
  by (induction s) auto

lemma split_at_append: "sep \<notin> set s \<Longrightarrow> split_at sep (s @ sep # t) = s # split_at sep t"
  by (induction s) auto

lemma split_at_address: "sep \<notin> set h \<Longrightarrow> sep \<notin> set p \<Longrightarrow> split_at sep (h @ sep # p) = [h, p]"
  by (simp add: split_at_append)


section \<open>Numbers\<close>

text \<open>\<open>%d\<close> of an integer and \<open>%v\<close> of a boolean.\<close>

definition dec_int :: "int \<Rightarrow> string" where
  "dec_int i = (if i < 0 then CHR ''-'' # dec (nat (- i)) else dec (nat i))"

definition show_bool :: "bool \<Rightarrow> string" where
  "show_bool b = (if b then ''true'' else ''false'')"

text \<open>\<open>strconv.ParseUint\<close> and \<open>strconv.ParseInt\<close> in base ten: the value and the error. A
  syntax error gives 0, a number out of range the nearest value.\<close>

datatype num_error = ErrSyntax | ErrRange

fun uint_digits :: "nat \<Rightarrow> nat \<Rightarrow> string \<Rightarrow> nat \<times> num_error option" where
  "uint_digits hi n [] = (n, None)"
| "uint_digits hi n (c # s) =
     (let d = of_char c :: nat
      in if d < 48 \<or> 57 < d then (0, Some ErrSyntax)
         else if hi < n * 10 + (d - 48) then (hi, Some ErrRange)
         else uint_digits hi (n * 10 + (d - 48)) s)"

definition ParseUint :: "nat \<Rightarrow> string \<Rightarrow> nat \<times> num_error option" where
  "ParseUint bits s = (if s = [] then (0, Some ErrSyntax) else uint_digits (2 ^ bits - 1) 0 s)"

definition ParseInt :: "nat \<Rightarrow> string \<Rightarrow> int \<times> num_error option" where
  "ParseInt bits s =
     (if s = [] then (0, Some ErrSyntax)
      else let neg = (hd s = CHR ''-'');
               body = (if hd s = CHR ''-'' \<or> hd s = CHR ''+'' then tl s else s);
               (un, err) = ParseUint bits body;
               cutoff = 2 ^ (bits - 1) :: nat
      in if err = Some ErrSyntax then (0, Some ErrSyntax)
         else if \<not> neg \<and> cutoff \<le> un then (int (cutoff - 1), Some ErrRange)
         else if neg \<and> cutoff < un then (- int cutoff, Some ErrRange)
         else (if neg then - int un else int un, None))"

lemma of_char_digit [simp]: "d < 10 \<Longrightarrow> of_char (char_of (48 + d) :: char) = 48 + d" for d :: nat
  by simp

lemma set_dec: "c \<in> set (dec n) \<Longrightarrow> (48 :: nat) \<le> of_char c \<and> of_char c \<le> (57 :: nat)"
proof (induction n rule: dec.induct)
  case (1 n)
  have m: "n mod 10 < 10" by simp
  show ?case
  proof (cases "n < 10")
    case True
    with 1(2) show ?thesis by (auto simp: dec.simps [of n])
  next
    case False
    with 1(2) have "c \<in> set (dec (n div 10)) \<or> c = char_of (48 + n mod 10)"
      by (auto simp: dec.simps [of n])
    with 1(1) [OF False] m show ?thesis by auto
  qed
qed

lemma dec_nonempty [simp]: "dec n \<noteq> []"
  by (subst dec.simps) simp

lemma not_in_dec [simp]: "CHR '':'' \<notin> set (dec n)" "CHR ''-'' \<notin> set (dec n)"
  "CHR ''+'' \<notin> set (dec n)" "CHR ''/'' \<notin> set (dec n)"
  using set_dec [of "CHR '':''" n] set_dec [of "CHR ''-''" n] set_dec [of "CHR ''+''" n]
    set_dec [of "CHR ''/''" n] by auto

text \<open>Reading a printed number, from any prefix read before.\<close>

lemma uint_digits_append:
  "uint_digits hi n s = (m, None) \<Longrightarrow> uint_digits hi n (s @ t) = uint_digits hi m t"
  by (induction hi n s rule: uint_digits.induct) (auto simp: Let_def split: if_splits)

lemma uint_digits_dec: "n \<le> hi \<Longrightarrow> uint_digits hi 0 (dec n) = (n, None)"
proof (induction n rule: dec.induct)
  case (1 n)
  show ?case
  proof (cases "n < 10")
    case True
    with 1(2) show ?thesis by (simp add: dec.simps [of n] Let_def)
  next
    case False
    have m: "n mod 10 < 10" by simp
    from 1(1) [OF False] 1(2) have "uint_digits hi 0 (dec (n div 10)) = (n div 10, None)" by simp
    from uint_digits_append [OF this, of "[char_of (48 + n mod 10)]"] False 1(2) m
    show ?thesis by (simp add: dec.simps [of n] Let_def del: mod_less_divisor)
  qed
qed

lemma ParseInt_dec:
  assumes "n < 2 ^ (bits - 1)"
  shows "ParseInt bits (dec n) = (int n, None)"
proof -
  have "(2::nat) ^ (bits - 1) \<le> 2 ^ bits" by simp
  with assms have le: "n \<le> 2 ^ bits - 1" by linarith
  have "hd (dec n) \<in> set (dec n)" by simp
  then have "hd (dec n) \<noteq> CHR ''-''" "hd (dec n) \<noteq> CHR ''+''"
    using not_in_dec [of n] by metis+
  with le assms show ?thesis
    by (simp add: ParseInt_def ParseUint_def uint_digits_dec Let_def)
qed

lemma dec_inj: "dec m = dec n \<Longrightarrow> m = n"
proof -
  assume "dec m = dec n"
  then have "uint_digits (max m n) 0 (dec m) = uint_digits (max m n) 0 (dec n)" by (rule arg_cong)
  then show "m = n" by (simp add: uint_digits_dec)
qed

lemma minus_dec_neq [simp]: "CHR ''-'' # s \<noteq> dec n" "dec n \<noteq> CHR ''-'' # s"
proof -
  show "CHR ''-'' # s \<noteq> dec n"
  proof
    assume "CHR ''-'' # s = dec n"
    then have "CHR ''-'' \<in> set (dec n)" by (rule subst) (rule list.set_intros(1))
    with not_in_dec(2) show False by (rule notE)
  qed
  then show "dec n \<noteq> CHR ''-'' # s" by (rule not_sym)
qed

lemma dec_int_inj: "dec_int i = dec_int j \<Longrightarrow> i = j"
  by (auto simp: dec_int_def split: if_splits dest!: dec_inj)


section \<open>White space\<close>

text \<open>\<open>strings.TrimSpace\<close> on ASCII text.\<close>

definition is_space :: "char \<Rightarrow> bool" where
  "is_space c \<longleftrightarrow> (let n = of_char c :: nat in n = 32 \<or> 9 \<le> n \<and> n \<le> 13)"

definition TrimSpace :: "string \<Rightarrow> string" where
  "TrimSpace s = rev (dropWhile is_space (rev (dropWhile is_space s)))"

end
