(* ===== verification/Consul_Api.thy ===== *)
theory Consul_Api
  imports Go_Text
begin

text \<open>
  The calls of the Consul client library that the program makes, as the record \<open>api\<close> of
  functions over an abstract state of the Consul cluster, and the thin wrappers of
  \<^verbatim>\<open>src/consul\<close>: \<^verbatim>\<open>kv.go\<close> and \<^verbatim>\<open>kv_entity.go\<close> (keys and values),
  \<^verbatim>\<open>session.go\<close> and \<^verbatim>\<open>session_entity.go\<close> (sessions), \<^verbatim>\<open>lock.go\<close> and
  \<^verbatim>\<open>lock_entity.go\<close> (locks). The library is a parameter of every definition. What Consul
  documents about sessions and locks is the locale \<open>consul_lock\<close>; \<open>consul_api\<close> is a
  concrete cluster that satisfies it.
\<close>

section \<open>The library's calls\<close>

record registration =
  reg_ID :: string
  reg_Name :: string
  reg_Address :: string
  reg_Port :: int
  reg_Tags :: "string list"

record check_registration =
  chk_ID :: string
  chk_Name :: string
  chk_ServiceID :: string
  chk_TTL :: string
  chk_Status :: string

text \<open>A service entry of a health query; \<open>AggregatedStatus\<close> is what that method of its
  checks returns.\<close>

record service_entry =
  ent_ID :: string
  ent_Address :: string
  ent_Port :: int
  ent_Tags :: "string list"
  AggregatedStatus :: string

record kv_pair =
  Key :: string
  Value :: bytes
  Session :: string

record session_entry =
  Behavior :: string
  se_TTL :: string

type_synonym err = "g_error option"

record 'c api =
  ServiceRegister :: "registration \<Rightarrow> 'c \<Rightarrow> err \<times> 'c"
  CheckRegister :: "check_registration \<Rightarrow> 'c \<Rightarrow> err \<times> 'c"
  ServiceDeregister :: "string \<Rightarrow> 'c \<Rightarrow> err \<times> 'c"
  CheckDeregister :: "string \<Rightarrow> 'c \<Rightarrow> err \<times> 'c"
  UpdateTTL :: "string \<Rightarrow> string \<Rightarrow> string \<Rightarrow> 'c \<Rightarrow> err \<times> 'c"
  SessionCreate :: "session_entry \<Rightarrow> 'c \<Rightarrow> (string \<times> err) \<times> 'c"
  SessionRenew :: "string \<Rightarrow> 'c \<Rightarrow> err \<times> 'c"
  SessionDestroy :: "string \<Rightarrow> 'c \<Rightarrow> err \<times> 'c"
  KvPut :: "kv_pair \<Rightarrow> 'c \<Rightarrow> err \<times> 'c"
  KvGet :: "string \<Rightarrow> 'c \<Rightarrow> (kv_pair option \<times> err) \<times> 'c"
  KvDelete :: "string \<Rightarrow> 'c \<Rightarrow> err \<times> 'c"
  KvAcquire :: "kv_pair \<Rightarrow> 'c \<Rightarrow> (bool \<times> err) \<times> 'c"
  KvRelease :: "kv_pair \<Rightarrow> 'c \<Rightarrow> (bool \<times> err) \<times> 'c"
  HealthService :: "string \<Rightarrow> bool \<Rightarrow> 'c \<Rightarrow> (service_entry list \<times> err) \<times> 'c"

definition SessionBehaviorDelete :: string where "SessionBehaviorDelete = ''delete''"


section \<open>Keys and values\<close>

definition Kv_Set :: "'c api \<Rightarrow> string \<Rightarrow> bytes \<Rightarrow> 'c \<Rightarrow> err \<times> 'c" where
  "Kv_Set api key value c = KvPut api \<lparr>Key = key, Value = value, Session = []\<rparr> c"

definition Kv_Get :: "'c api \<Rightarrow> string \<Rightarrow> 'c \<Rightarrow> (bytes \<times> err) \<times> 'c" where
  "Kv_Get api key c =
     (let ((kv, err), c') = KvGet api key c
      in case err of
           Some e \<Rightarrow> (([], Some e), c')
         | None \<Rightarrow> (case kv of
             None \<Rightarrow> (([], Some ErrKvDoesNotExists), c')
           | Some p \<Rightarrow> ((Value p, None), c')))"

definition Kv_Delete :: "'c api \<Rightarrow> string \<Rightarrow> 'c \<Rightarrow> err \<times> 'c" where
  "Kv_Delete api key c = KvDelete api key c"

record KvEntity =
  ke_Key :: string
  ke_Value :: bytes

definition NewKvEntity :: "string \<Rightarrow> bytes \<Rightarrow> KvEntity" where
  "NewKvEntity key value = \<lparr>ke_Key = key, ke_Value = value\<rparr>"

definition KvEntity_Set :: "'c api \<Rightarrow> KvEntity \<Rightarrow> 'c \<Rightarrow> (KvEntity \<times> err) \<times> 'c" where
  "KvEntity_Set api kv c = (let (err, c') = Kv_Set api (ke_Key kv) (ke_Value kv) c in ((kv, err), c'))"

definition KvEntity_Get :: "'c api \<Rightarrow> KvEntity \<Rightarrow> 'c \<Rightarrow> (KvEntity \<times> err) \<times> 'c" where
  "KvEntity_Get api kv c =
     (let ((v, err), c') = Kv_Get api (ke_Key kv) c in ((kv\<lparr>ke_Value := v\<rparr>, err), c'))"

definition KvEntity_Delete :: "'c api \<Rightarrow> KvEntity \<Rightarrow> 'c \<Rightarrow> (KvEntity \<times> err) \<times> 'c" where
  "KvEntity_Delete api kv c = (let (err, c') = Kv_Delete api (ke_Key kv) c in ((kv, err), c'))"


section \<open>Sessions\<close>

definition Session_Create :: "'c api \<Rightarrow> int \<Rightarrow> 'c \<Rightarrow> (string \<times> err) \<times> 'c" where
  "Session_Create api timeout c =
     (let timeout = (if timeout > 0 \<and> timeout < 10 then 10 else timeout);
          ttl = (if timeout > 0 then dec_int timeout @ ''s'' else [])
      in SessionCreate api \<lparr>Behavior = SessionBehaviorDelete, se_TTL = ttl\<rparr> c)"

definition Session_Destroy :: "'c api \<Rightarrow> string \<Rightarrow> 'c \<Rightarrow> err \<times> 'c" where
  "Session_Destroy api sessionID c = SessionDestroy api sessionID c"

definition Session_Renew :: "'c api \<Rightarrow> string \<Rightarrow> 'c \<Rightarrow> err \<times> 'c" where
  "Session_Renew api sessionID c = SessionRenew api sessionID c"

record SessionEntity =
  se_timeout :: int
  se_ID :: string

definition NewSessionEntity :: "int \<Rightarrow> SessionEntity" where
  "NewSessionEntity timeout =
     \<lparr>se_timeout = (if timeout > 0 \<and> timeout < 10 then 10 else timeout), se_ID = []\<rparr>"

definition SessionEntity_Create :: "'c api \<Rightarrow> SessionEntity \<Rightarrow> 'c \<Rightarrow> (string \<times> err) \<times> SessionEntity \<times> 'c" where
  "SessionEntity_Create api s c =
     (let ((i, err), c') = Session_Create api (se_timeout s) c in ((i, err), s\<lparr>se_ID := i\<rparr>, c'))"

definition SessionEntity_Destroy :: "'c api \<Rightarrow> SessionEntity \<Rightarrow> 'c \<Rightarrow> err \<times> 'c" where
  "SessionEntity_Destroy api s c = Session_Destroy api (se_ID s) c"

definition SessionEntity_Renew :: "'c api \<Rightarrow> SessionEntity \<Rightarrow> 'c \<Rightarrow> err \<times> 'c" where
  "SessionEntity_Renew api s c = Session_Renew api (se_ID s) c"


section \<open>Locks\<close>

record Lock =
  lock_sessionID :: string

definition NewLock :: "string \<Rightarrow> Lock" where
  "NewLock sessionID = \<lparr>lock_sessionID = sessionID\<rparr>"

definition Lock_Lock :: "'c api \<Rightarrow> Lock \<Rightarrow> string \<Rightarrow> int \<Rightarrow> 'c \<Rightarrow> (bool \<times> err) \<times> 'c" where
  "Lock_Lock api con key timeout c =
     KvAcquire api \<lparr>Key = key, Value = [], Session = lock_sessionID con\<rparr> c"

definition Lock_Unlock :: "'c api \<Rightarrow> Lock \<Rightarrow> string \<Rightarrow> 'c \<Rightarrow> (bool \<times> err) \<times> 'c" where
  "Lock_Unlock api con key c =
     KvRelease api \<lparr>Key = key, Value = [], Session = lock_sessionID con\<rparr> c"

definition Lock_Delete :: "'c api \<Rightarrow> Lock \<Rightarrow> string \<Rightarrow> 'c \<Rightarrow> err \<times> 'c" where
  "Lock_Delete api con key c = KvDelete api key c"

record LockEntity =
  le_sessionID :: string
  le_key :: string
  le_timeout :: int
  le_lock :: Lock

definition NewLockEntity :: "string \<Rightarrow> string \<Rightarrow> int \<Rightarrow> LockEntity" where
  "NewLockEntity sessionID key timeout =
     \<lparr>le_sessionID = sessionID, le_key = key, le_timeout = timeout, le_lock = NewLock sessionID\<rparr>"

definition LockEntity_Lock :: "'c api \<Rightarrow> LockEntity \<Rightarrow> 'c \<Rightarrow> (bool \<times> err) \<times> 'c" where
  "LockEntity_Lock api con c = Lock_Lock api (le_lock con) (le_key con) (le_timeout con) c"

definition LockEntity_Unlock :: "'c api \<Rightarrow> LockEntity \<Rightarrow> 'c \<Rightarrow> (bool \<times> err) \<times> 'c" where
  "LockEntity_Unlock api con c = Lock_Unlock api (le_lock con) (le_key con) c"

definition LockEntity_Delete :: "'c api \<Rightarrow> LockEntity \<Rightarrow> 'c \<Rightarrow> err \<times> 'c" where
  "LockEntity_Delete api con c = Lock_Delete api (le_lock con) (le_key con) c"

section \<open>What Consul promises about locks\<close>

text \<open>
  \<open>valid c s\<close>: session \<open>s\<close> exists; \<open>holder c k\<close>: the session that holds the lock on
  key \<open>k\<close>. An acquisition that reports success has given the lock to the session, and any
  acquisition only ever takes a free lock; acquiring with a session that does not exist is an
  error; deleting a key removes its lock at most; renewing a session and the calls of the
  agent and health endpoints touch neither sessions nor locks.
\<close>

definition keeps_locks :: "('c \<Rightarrow> string \<Rightarrow> bool) \<Rightarrow> ('c \<Rightarrow> string \<Rightarrow> string option) \<Rightarrow> 'c \<Rightarrow> 'c \<Rightarrow> bool" where
  "keeps_locks valid holder c c' \<longleftrightarrow> valid c' = valid c \<and> holder c' = holder c"

definition acquire_law :: "'c api \<Rightarrow> ('c \<Rightarrow> string \<Rightarrow> bool) \<Rightarrow> ('c \<Rightarrow> string \<Rightarrow> string option) \<Rightarrow> bool" where
  "acquire_law api valid holder \<longleftrightarrow>
     (\<forall>p c success err c'. KvAcquire api p c = ((success, err), c') \<longrightarrow>
        valid c' = valid c \<and>
        (holder c' = holder c \<or>
         holder c (Key p) = None \<and> holder c' = (holder c)(Key p \<mapsto> Session p)) \<and>
        (success \<and> err = None \<longrightarrow> holder c' (Key p) = Some (Session p)) \<and>
        (\<not> valid c (Session p) \<longrightarrow> err \<noteq> None))"

definition delete_law :: "'c api \<Rightarrow> ('c \<Rightarrow> string \<Rightarrow> bool) \<Rightarrow> ('c \<Rightarrow> string \<Rightarrow> string option) \<Rightarrow> bool" where
  "delete_law api valid holder \<longleftrightarrow>
     (\<forall>k c err c'. KvDelete api k c = (err, c') \<longrightarrow>
        valid c' = valid c \<and> (holder c' = holder c \<or> holder c' = (holder c)(k := None)))"

definition other_laws :: "'c api \<Rightarrow> ('c \<Rightarrow> string \<Rightarrow> bool) \<Rightarrow> ('c \<Rightarrow> string \<Rightarrow> string option) \<Rightarrow> bool" where
  "other_laws api valid holder \<longleftrightarrow>
     (\<forall>c. (\<forall>r. keeps_locks valid holder c (snd (ServiceRegister api r c))) \<and>
          (\<forall>k. keeps_locks valid holder c (snd (CheckRegister api k c))) \<and>
          (\<forall>i. keeps_locks valid holder c (snd (ServiceDeregister api i c))) \<and>
          (\<forall>i. keeps_locks valid holder c (snd (CheckDeregister api i c))) \<and>
          (\<forall>i n s. keeps_locks valid holder c (snd (UpdateTTL api i n s c))) \<and>
          (\<forall>i. keeps_locks valid holder c (snd (SessionRenew api i c))))"

text \<open>What Consul documents of a free lock: a session that exists gets it.\<close>

definition acquire_answers :: "'c api \<Rightarrow> ('c \<Rightarrow> string \<Rightarrow> bool) \<Rightarrow> ('c \<Rightarrow> string \<Rightarrow> string option) \<Rightarrow> bool" where
  "acquire_answers api valid holder \<longleftrightarrow>
     (\<forall>p c. valid c (Session p) \<and> holder c (Key p) = None \<longrightarrow> (\<exists>c'. KvAcquire api p c = ((True, None), c')))"

text \<open>A key that is deleted is free; a session that has been created exists and has changed no
  lock.\<close>

definition delete_answers :: "'c api \<Rightarrow> ('c \<Rightarrow> string \<Rightarrow> string option) \<Rightarrow> bool" where
  "delete_answers api holder \<longleftrightarrow> (\<forall>k c. holder (snd (KvDelete api k c)) k = None)"

definition create_answers :: "'c api \<Rightarrow> ('c \<Rightarrow> string \<Rightarrow> bool) \<Rightarrow> ('c \<Rightarrow> string \<Rightarrow> string option) \<Rightarrow> bool" where
  "create_answers api valid holder \<longleftrightarrow>
     (\<forall>e c. \<exists>s c'. SessionCreate api e c = ((s, None), c') \<and> valid c' s \<and> holder c' = holder c)"

text \<open>The interface the election relies on; the second locale adds that Consul answers.\<close>

locale consul_lock =
  fixes api :: "'c api"
    and valid :: "'c \<Rightarrow> string \<Rightarrow> bool"
    and holder :: "'c \<Rightarrow> string \<Rightarrow> string option"
  assumes acquire: "acquire_law api valid holder"
    and delete: "delete_law api valid holder"
    and others: "other_laws api valid holder"

locale consul_lock_live = consul_lock +
  assumes answers: "acquire_answers api valid holder"
    and deletes: "delete_answers api holder"
    and creates: "create_answers api valid holder"

text \<open>The interface discovery relies on: a registration shows up under its own name only, and a
  check belongs to a registered service.\<close>

definition finds_nothing :: "'c api \<Rightarrow> string \<Rightarrow> bool \<Rightarrow> 'c \<Rightarrow> bool" where
  "finds_nothing api name passing c \<longleftrightarrow> fst (HealthService api name passing c) = ([], None)"

locale consul_registry =
  fixes api :: "'c api"
  assumes service: "reg_Name r \<noteq> name \<Longrightarrow> finds_nothing api name passing c \<Longrightarrow>
      finds_nothing api name passing (snd (ServiceRegister api r c))"
    and check: "finds_nothing api name passing c \<Longrightarrow> finds_nothing api name passing (snd (CheckRegister api k c))"


section \<open>A concrete cluster\<close>

text \<open>A cluster that always answers: sessions are numbered, a lock belongs to the first valid
  session that asks for it.\<close>

record consul =
  sessions :: "string list"
  store :: "(string \<times> kv_pair) list"
  locks :: "string \<Rightarrow> string option"
  entries :: "(string \<times> service_entry) list"

definition consul_valid :: "consul \<Rightarrow> string \<Rightarrow> bool" where
  "consul_valid c s \<longleftrightarrow> s \<in> set (sessions c)"

definition no_consul :: consul where
  "no_consul = \<lparr>sessions = [], store = [], locks = (\<lambda>_. None), entries = []\<rparr>"

definition consul_acquire :: "kv_pair \<Rightarrow> consul \<Rightarrow> (bool \<times> err) \<times> consul" where
  "consul_acquire p c =
     (if \<not> consul_valid c (Session p) then ((False, Some (ErrExternal ''invalid session'')), c)
      else if locks c (Key p) = None \<or> locks c (Key p) = Some (Session p)
        then ((True, None), c\<lparr>locks := (locks c)(Key p \<mapsto> Session p)\<rparr>)
      else ((False, None), c))"

definition consul_register :: "registration \<Rightarrow> consul \<Rightarrow> err \<times> consul" where
  "consul_register r c =
     (None, c\<lparr>entries := (reg_Name r, \<lparr>ent_ID = reg_ID r, ent_Address = reg_Address r,
        ent_Port = reg_Port r, ent_Tags = reg_Tags r, AggregatedStatus = ''passing''\<rparr>) #
        filter (\<lambda>(n, e). ent_ID e \<noteq> reg_ID r) (entries c)\<rparr>)"

definition consul_api :: "consul api" where
  "consul_api = \<lparr>
     ServiceRegister = consul_register,
     CheckRegister = (\<lambda>k c. (None, c)),
     ServiceDeregister = (\<lambda>i c. (None, c\<lparr>entries := filter (\<lambda>(n, e). ent_ID e \<noteq> i) (entries c)\<rparr>)),
     CheckDeregister = (\<lambda>i c. (None, c)),
     UpdateTTL = (\<lambda>i n s c. (None, c)),
     SessionCreate = (\<lambda>e c. let i = dec (length (sessions c)) in ((i, None), c\<lparr>sessions := i # sessions c\<rparr>)),
     SessionRenew = (\<lambda>i c. (if consul_valid c i then None else Some (ErrExternal ''not found''), c)),
     SessionDestroy = (\<lambda>i c. (None, c\<lparr>sessions := filter (\<lambda>s. s \<noteq> i) (sessions c)\<rparr>)),
     KvPut = (\<lambda>p c. (None, c\<lparr>store := (Key p, p) # store c\<rparr>)),
     KvGet = (\<lambda>k c. ((map_of (store c) k, None), c)),
     KvDelete = (\<lambda>k c. (None, c\<lparr>store := filter (\<lambda>(k', v). k' \<noteq> k) (store c), locks := (locks c)(k := None)\<rparr>)),
     KvAcquire = consul_acquire,
     KvRelease = (\<lambda>p c. if locks c (Key p) = Some (Session p)
        then ((True, None), c\<lparr>locks := (locks c)(Key p := None)\<rparr>) else ((False, None), c)),
     HealthService = (\<lambda>n passing c.
        ((map snd (filter (\<lambda>(m, e). m = n \<and> (passing \<longrightarrow> AggregatedStatus e = ''passing'')) (entries c)), None), c))\<rparr>"

interpretation consul: consul_lock_live consul_api consul_valid locks
  by unfold_locales
    (auto simp: acquire_law_def delete_law_def other_laws_def acquire_answers_def keeps_locks_def
      delete_answers_def create_answers_def Let_def consul_api_def consul_acquire_def consul_register_def consul_valid_def fun_upd_idem
      split: if_splits)

interpretation registry: consul_registry consul_api
  by unfold_locales (auto simp: finds_nothing_def consul_api_def consul_register_def filter_empty_conv)

text \<open>What a key-value entity stores it reads back.\<close>

lemma KvEntity_roundtrip:
  assumes "\<And>p c err c'. KvPut api p c = (err, c') \<Longrightarrow> err = None \<and> KvGet api (Key p) c' = ((Some p, None), c')"
  shows "\<exists>c'. KvEntity_Set api kv c = ((kv, None), c') \<and>
    KvEntity_Get api (NewKvEntity (ke_Key kv) v) c' = ((kv, None), c')"
proof -
  obtain err c' where put: "KvPut api \<lparr>Key = ke_Key kv, Value = ke_Value kv, Session = []\<rparr> c = (err, c')"
    by (cases "KvPut api \<lparr>Key = ke_Key kv, Value = ke_Value kv, Session = []\<rparr> c") auto
  from assms [OF put] put show ?thesis
    by (auto simp: KvEntity_Set_def Kv_Set_def KvEntity_Get_def Kv_Get_def NewKvEntity_def)
qed

text \<open>The time to live a session is created with: the clamp of \<open>NewSessionEntity\<close> and that of
  \<open>Create\<close> agree.\<close>

lemma SessionEntity_Create_eq:
  assumes "timeout > 0"
  shows "SessionEntity_Create api (NewSessionEntity timeout) c =
    (let ((i, err), c') = SessionCreate api
       \<lparr>Behavior = SessionBehaviorDelete, se_TTL = dec_int (max 10 timeout) @ ''s''\<rparr> c
     in ((i, err), (NewSessionEntity timeout)\<lparr>se_ID := i\<rparr>, c'))"
  using assms by (auto simp: SessionEntity_Create_def NewSessionEntity_def Session_Create_def max_def)

end
