(* ===== verification/Consul_Leader.thy ===== *)
theory Consul_Leader
  imports Consul_Api
begin

text \<open>
  Service registration and leader election: \<^verbatim>\<open>src/consul/service.go\<close> and
  \<^verbatim>\<open>src/consul/leader.go\<close>. A node campaigns by acquiring the cluster's lock; the
  loop of \<open>Select\<close> is one function per turn. The cluster of nodes is a step relation over
  the nodes and the shared Consul state. Results: at most one node considers itself leader as
  long as no session expires; a leader whose session has expired never steps down; a node
  whose first attempt fails and who then loses never registers.
\<close>

section \<open>Registered services\<close>

definition Registered :: nat where "Registered = 1"
definition statusOnline :: string where "statusOnline = ''online''"
definition statusOffline :: string where "statusOffline = ''offline''"

record ServiceMember =
  IsLeader :: bool
  mem_ServiceID :: string
  mem_Status :: string
  mem_ServiceIP :: string
  mem_Port :: int

record Service =
  sv_ServiceName :: string
  sv_ServiceIP :: string
  sv_ServicePort :: int
  sv_ServiceID :: string
  sv_status :: nat
  sv_leader :: bool
  sv_TTL :: int

definition NewService :: "string \<Rightarrow> string \<Rightarrow> int \<Rightarrow> Service" where
  "NewService name host port =
     \<lparr>sv_ServiceName = name, sv_ServiceIP = host, sv_ServicePort = port,
      sv_ServiceID = name @ ''-'' @ host @ ''-'' @ dec_int port,
      sv_status = 0, sv_leader = False, sv_TTL = 15\<rparr>"

definition Service_SetLeader :: "bool \<Rightarrow> Service \<Rightarrow> Service" where
  "Service_SetLeader leader sev = sev\<lparr>sv_leader := leader\<rparr>"

definition Service_Deregister :: "'c api \<Rightarrow> Service \<Rightarrow> 'c \<Rightarrow> err \<times> 'c" where
  "Service_Deregister api sev c =
     (let (err, c1) = ServiceDeregister api (sv_ServiceID sev) c
      in case err of
           Some e \<Rightarrow> (Some e, c1)
         | None \<Rightarrow> CheckDeregister api (sv_ServiceID sev) c1)"

definition leader_tag :: "bool \<Rightarrow> string" where
  "leader_tag b = ''isleader:'' @ show_bool b"

definition Service_Register :: "'c api \<Rightarrow> Service \<Rightarrow> 'c \<Rightarrow> err \<times> Service \<times> 'c" where
  "Service_Register api sev c =
     (let sev = (if has_flag (sv_status sev) Registered then sev
                 else sev\<lparr>sv_status := sv_status sev OR Registered\<rparr>);
          (err, c1) = ServiceRegister api
            \<lparr>reg_ID = sv_ServiceID sev, reg_Name = sv_ServiceName sev, reg_Address = sv_ServiceIP sev,
             reg_Port = sv_ServicePort sev, reg_Tags = [leader_tag (sv_leader sev)]\<rparr> c
      in case err of
           Some e \<Rightarrow> (Some e, sev, c1)
         | None \<Rightarrow>
             let (err, c2) = CheckRegister api
               \<lparr>chk_ID = sv_ServiceID sev, chk_Name = sv_ServiceName sev, chk_ServiceID = sv_ServiceID sev,
                chk_TTL = dec_int (sv_TTL sev) @ ''s'', chk_Status = ''passing''\<rparr> c1
             in (err, sev, c2))"

definition Service_UpdateTTL :: "'c api \<Rightarrow> Service \<Rightarrow> 'c \<Rightarrow> err \<times> 'c" where
  "Service_UpdateTTL api sev c =
     (if \<not> has_flag (sv_status sev) Registered then (Some ErrNotRegister, c)
      else UpdateTTL api (sv_ServiceID sev) (leader_tag (sv_leader sev)) ''passing'' c)"


section \<open>Leader election\<close>

record Leader =
  service :: Service
  lock :: LockEntity
  leader :: bool
  session :: SessionEntity
  ServiceName :: string
  ServiceID :: string
  ServiceHost :: string
  ServicePort :: int

text \<open>\<open>NewLeader\<close>; the error of creating the session is not looked at. Its goroutine calls
  \<open>UpdateTTL\<close> once, before anything is registered.\<close>

definition NewLeader :: "'c api \<Rightarrow> string \<Rightarrow> string \<Rightarrow> string \<Rightarrow> int \<Rightarrow> 'c \<Rightarrow> Leader \<times> 'c" where
  "NewLeader api lockKey name host port c =
     (let mySession = NewSessionEntity 10;
          ((sessionID, err), mySession, c1) = SessionEntity_Create api mySession c
      in (\<lparr>service = NewService name host port, lock = NewLockEntity sessionID lockKey 10,
           leader = False, session = mySession, ServiceName = name,
           ServiceID = name @ ''-'' @ host @ ''-'' @ dec_int port,
           ServiceHost = host, ServicePort = port\<rparr>, c1))"

definition Leader_Deregister :: "'c api \<Rightarrow> Leader \<Rightarrow> 'c \<Rightarrow> err \<times> 'c" where
  "Leader_Deregister api sev c = Service_Deregister api (service sev) c"

definition member_of :: "Leader \<Rightarrow> bool \<Rightarrow> ServiceMember" where
  "member_of sev b =
     \<lparr>IsLeader = b, mem_ServiceID = ServiceID sev, mem_Status = statusOnline,
      mem_ServiceIP = ServiceHost sev, mem_Port = ServicePort sev\<rparr>"

definition Leader_Register :: "'c api \<Rightarrow> Leader \<Rightarrow> 'c \<Rightarrow> (ServiceMember \<times> err) \<times> Leader \<times> 'c" where
  "Leader_Register api sev c =
     (let (err, s, c1) = Service_Register api (service sev) c
      in ((member_of sev (leader sev), err), sev\<lparr>service := s\<rparr>, c1))"

definition Leader_UpdateTTL :: "'c api \<Rightarrow> Leader \<Rightarrow> 'c \<Rightarrow> err \<times> 'c" where
  "Leader_UpdateTTL api sev c = Service_UpdateTTL api (service sev) c"

text \<open>One member of the answer to a health query; \<open>Tags[0]\<close> is read unchecked.\<close>

definition entry_member :: "service_entry \<Rightarrow> ServiceMember go" where
  "entry_member v =
     (if AggregatedStatus v = ''passing''
      then go_bind (at (ent_Tags v) 0) (\<lambda>tag.
        Ret \<lparr>IsLeader = (tag = ''isleader:true''), mem_ServiceID = ent_ID v, mem_Status = statusOnline,
             mem_ServiceIP = ent_Address v, mem_Port = ent_Port v\<rparr>)
      else Ret \<lparr>IsLeader = False, mem_ServiceID = ent_ID v, mem_Status = statusOffline,
                mem_ServiceIP = ent_Address v, mem_Port = ent_Port v\<rparr>)"

fun entry_members :: "service_entry list \<Rightarrow> ServiceMember list go" where
  "entry_members [] = Ret []"
| "entry_members (v # vs) =
     go_bind (entry_member v) (\<lambda>m. go_bind (entry_members vs) (\<lambda>ms. Ret (m # ms)))"

text \<open>The result is \<open>None\<close> for a nil slice, which comes with an error.\<close>

definition Leader_GetServices ::
  "'c api \<Rightarrow> Leader \<Rightarrow> bool \<Rightarrow> 'c \<Rightarrow> (ServiceMember list option \<times> err) go \<times> 'c" where
  "Leader_GetServices api sev passingOnly c =
     (let ((members, err), c1) = HealthService api (ServiceName sev) passingOnly c
      in case err of
           Some e \<Rightarrow> (Ret (None, Some e), c1)
         | None \<Rightarrow> (go_bind (entry_members members) (\<lambda>ms. Ret (Some ms, None)), c1))"

definition Leader_Get :: "'c api \<Rightarrow> Leader \<Rightarrow> 'c \<Rightarrow> (ServiceMember option \<times> err) go \<times> 'c" where
  "Leader_Get api sev c =
     (let (r, c1) = Leader_GetServices api sev True c
      in (go_bind r (\<lambda>(members, _).
            case members of
              None \<Rightarrow> Ret (None, Some ErrMembersEmpty)
            | Some ms \<Rightarrow>
                (case find IsLeader ms of
                   Some v \<Rightarrow> Ret (Some v, None)
                 | None \<Rightarrow> Ret (None, Some ErrLeaderNotFound))), c1))"

text \<open>What \<open>Select\<close> does once a lock attempt has been answered without an error: record the
  answer, start the callback with it, register.\<close>

definition become :: "'c api \<Rightarrow> bool \<Rightarrow> Leader \<Rightarrow> 'c \<Rightarrow> ServiceMember list \<times> Leader \<times> 'c" where
  "become api success sev c =
     (let sev1 = sev\<lparr>leader := success, service := Service_SetLeader success (service sev)\<rparr>;
          (_, sev2, c1) = Leader_Register api sev1 c
      in ([member_of sev success], sev2, c1))"

text \<open>The attempt before the loop, and a turn of the loop. The result begins with the
  members handed to \<open>onLeader\<close>.\<close>

definition select_first :: "'c api \<Rightarrow> Leader \<Rightarrow> 'c \<Rightarrow> ServiceMember list \<times> Leader \<times> 'c" where
  "select_first api sev c =
     (let ((success, err), c1) = LockEntity_Lock api (lock sev) c
      in if err = None then become api success sev c1 else ([], sev, c1))"

definition select_turn :: "'c api \<Rightarrow> Leader \<Rightarrow> 'c \<Rightarrow> ServiceMember list \<times> Leader \<times> 'c" where
  "select_turn api sev c =
     (let ((success, err), c1) = LockEntity_Lock api (lock sev) c;
          (ms, sev1, c2) = (if err = None \<and> success \<noteq> leader sev
                            then become api success sev c1 else ([], sev, c1));
          (_, c3) = SessionEntity_Renew api (session sev1) c2;
          (_, c4) = Leader_UpdateTTL api sev1 c3
      in (ms, sev1, c4))"

definition Leader_Free :: "'c api \<Rightarrow> Leader \<Rightarrow> 'c \<Rightarrow> Leader \<times> 'c" where
  "Leader_Free api sev c =
     (let (_, c1) = Leader_Deregister api sev c
      in if leader sev
         then let (_, c2) = LockEntity_Delete api (lock sev) c1 in (sev\<lparr>leader := False\<rparr>, c2)
         else (sev, c1))"

section \<open>The cluster\<close>

text \<open>Nodes that campaign for one lock: what a node does is an action, and a list of actions
  is an interleaving of what the nodes do.\<close>

datatype action = First nat | Turn nat | Free nat

fun act :: "'c api \<Rightarrow> action \<Rightarrow> (nat \<Rightarrow> Leader) \<times> 'c \<Rightarrow> (nat \<Rightarrow> Leader) \<times> 'c" where
  "act api (First i) (ns, c) = (let (_, l, c') = select_first api (ns i) c in (ns(i := l), c'))"
| "act api (Turn i) (ns, c) = (let (_, l, c') = select_turn api (ns i) c in (ns(i := l), c'))"
| "act api (Free i) (ns, c) = (let (l, c') = Leader_Free api (ns i) c in (ns(i := l), c'))"

definition cluster_run :: "'c api \<Rightarrow> action list \<Rightarrow> (nat \<Rightarrow> Leader) \<times> 'c \<Rightarrow> (nat \<Rightarrow> Leader) \<times> 'c" where
  "cluster_run api acts s = fold (act api) acts s"

text \<open>The session a node locks with, and the key.\<close>

abbreviation sid :: "Leader \<Rightarrow> string" where
  "sid l \<equiv> lock_sessionID (le_lock (lock l))"

abbreviation lock_key :: "Leader \<Rightarrow> string" where
  "lock_key l \<equiv> le_key (lock l)"

text \<open>The effect of registering and of the other calls of a turn, which leave the locks alone.\<close>

lemma keeps_locks_refl [simp]: "keeps_locks valid holder c c"
  by (simp add: keeps_locks_def)

lemma keeps_locks_trans:
  "keeps_locks valid holder a b \<Longrightarrow> keeps_locks valid holder b c \<Longrightarrow> keeps_locks valid holder a c"
  by (simp add: keeps_locks_def)

text \<open>An attempt of \<open>l\<close> to lock, seen through the laws: \<open>attempt\<close> relates the state before
  and after.\<close>

definition attempt :: "('c \<Rightarrow> string \<Rightarrow> bool) \<Rightarrow> ('c \<Rightarrow> string \<Rightarrow> string option) \<Rightarrow> Leader \<Rightarrow> 'c \<Rightarrow> 'c \<Rightarrow> bool" where
  "attempt valid holder l c c' \<longleftrightarrow>
     valid c' = valid c \<and>
     (holder c' = holder c \<or>
      holder c (lock_key l) = None \<and> holder c' = (holder c)(lock_key l \<mapsto> sid l))"

lemma attempt_keeps: "attempt valid holder l c c1 \<Longrightarrow> keeps_locks valid holder c1 c2 \<Longrightarrow> attempt valid holder l c c2"
  by (simp add: attempt_def keeps_locks_def)

text \<open>What a campaign leaves of a node and of the locks. A node is leader afterwards only
  with the lock in its hand, or because it was leader before.\<close>

definition campaigned ::
  "('c \<Rightarrow> string \<Rightarrow> bool) \<Rightarrow> ('c \<Rightarrow> string \<Rightarrow> string option) \<Rightarrow> Leader \<Rightarrow> 'c \<Rightarrow> Leader \<Rightarrow> 'c \<Rightarrow> bool" where
  "campaigned valid holder l c l' c' \<longleftrightarrow>
     lock l' = lock l \<and> session l' = session l \<and> attempt valid holder l c c' \<and>
     (leader l' \<longrightarrow> leader l \<or> holder c' (lock_key l) = Some (sid l)) \<and>
     (\<not> valid c (sid l) \<longrightarrow> leader l' = leader l)"

lemma select_turn_eq:
  assumes "LockEntity_Lock api (lock l) c = ((success, err), c1)"
    and "(if err = None \<and> success \<noteq> leader l then become api success l c1 else ([], l, c1)) = (ms, l', c2)"
    and "SessionEntity_Renew api (session l') c2 = (e3, c3)" and "Leader_UpdateTTL api l' c3 = (e4, c4)"
  shows "select_turn api l c = (ms, l', c4)"
  by (simp only: select_turn_def Let_def assms prod.case)

text \<open>Every node that considers itself leader holds the lock.\<close>

definition elected :: "('c \<Rightarrow> string \<Rightarrow> string option) \<Rightarrow> string \<Rightarrow> (nat \<Rightarrow> Leader) \<Rightarrow> 'c \<Rightarrow> bool" where
  "elected holder key ns c \<longleftrightarrow>
     (\<forall>i. lock_key (ns i) = key) \<and> inj (\<lambda>i. sid (ns i)) \<and>
     (\<forall>i. leader (ns i) \<longrightarrow> holder c key = Some (sid (ns i)))"

lemma elected_campaigned:
  assumes "elected holder key ns c" and "campaigned valid holder (ns i) c l' c'"
  shows "elected holder key (ns(i := l')) c'"
proof -
  have l: "lock l' = lock (ns i)" using assms(2) by (simp add: campaigned_def)
  then have "(\<lambda>j. sid ((ns(i := l')) j)) = (\<lambda>j. sid (ns j))" by auto
  moreover have "holder c key = Some s \<Longrightarrow> holder c' key = Some s" for s
    using assms by (auto simp: campaigned_def attempt_def elected_def)
  ultimately show ?thesis
    using assms l unfolding elected_def campaigned_def by (simp add: fun_upd_def) blast
qed

lemma campaignedD:
  assumes "campaigned valid holder l c l' c'"
  shows "lock l' = lock l" and "valid c' = valid c" and "\<not> valid c (sid l) \<Longrightarrow> leader l' = leader l"
  using assms by (auto simp: campaigned_def attempt_def)

text \<open>The abstract election: nobody leads, or one node does; a leader has to resign before
  another one wins.\<close>

definition leaders :: "(nat \<Rightarrow> Leader) \<Rightarrow> nat set" where
  "leaders ns = {i. leader (ns i)}"

inductive election :: "nat set \<Rightarrow> nat set \<Rightarrow> bool" where
  stay: "election L L"
| win: "election {} {i}"
| resign: "election {i} {}"

text \<open>What the calls of a node do to sessions and locks, and what follows for the cluster, from
  the laws of the interface alone.\<close>

context consul_lock
begin

lemma Service_Register_locks:
  assumes "Service_Register api s c = (e, s', c')"
  shows "keeps_locks valid holder c c'"
proof -
  have 1: "ServiceRegister api r c = (e, d) \<Longrightarrow> keeps_locks valid holder c d" for r e c d
    using others unfolding other_laws_def by (metis snd_conv)
  have 2: "CheckRegister api r c = (e, d) \<Longrightarrow> keeps_locks valid holder c d" for r e c d
    using others unfolding other_laws_def by (metis snd_conv)
  show ?thesis
    using assms
    by (auto simp: Service_Register_def Let_def dest!: 1 2 intro: keeps_locks_trans
        split: prod.splits option.splits if_splits)
qed

lemma become_effect:
  assumes "become api b l c = (ms, l', c')"
  shows "keeps_locks valid holder c c'" and "leader l' = b" and "lock l' = lock l"
    and "session l' = session l"
  using assms
  by (auto simp: become_def Leader_Register_def Let_def dest: Service_Register_locks
      split: prod.splits)

lemma Deregister_locks:
  assumes "Leader_Deregister api l c = (e, c')"
  shows "keeps_locks valid holder c c'"
proof -
  have 1: "ServiceDeregister api r c = (e, d) \<Longrightarrow> keeps_locks valid holder c d" for r e c d
    using others unfolding other_laws_def by (metis snd_conv)
  have 2: "CheckDeregister api r c = (e, d) \<Longrightarrow> keeps_locks valid holder c d" for r e c d
    using others unfolding other_laws_def by (metis snd_conv)
  show ?thesis
    using assms
    by (auto simp: Leader_Deregister_def Service_Deregister_def dest!: 1 2 intro: keeps_locks_trans
        split: prod.splits option.splits)
qed

lemma Renew_locks:
  "SessionEntity_Renew api s c = (e, c') \<Longrightarrow> keeps_locks valid holder c c'"
  using others unfolding other_laws_def SessionEntity_Renew_def Session_Renew_def by (metis snd_conv)

lemma UpdateTTL_locks:
  "Leader_UpdateTTL api l c = (e, c') \<Longrightarrow> keeps_locks valid holder c c'"
  using others unfolding other_laws_def Leader_UpdateTTL_def Service_UpdateTTL_def
  by (metis keeps_locks_refl prod.inject snd_conv)

lemma LockEntity_Lock_effect:
  assumes "LockEntity_Lock api (lock l) c = ((success, err), c')"
  shows "attempt valid holder l c c'"
    and "success \<Longrightarrow> err = None \<Longrightarrow> holder c' (lock_key l) = Some (sid l)"
    and "\<not> valid c (sid l) \<Longrightarrow> err \<noteq> None"
  using acquire [unfolded acquire_law_def, rule_format,
      OF assms [unfolded LockEntity_Lock_def Lock_Lock_def]]
  by (auto simp: attempt_def)

lemma select_first_campaigned:
  assumes "select_first api l c = (ms, l', c')"
  shows "campaigned valid holder l c l' c'"
proof -
  obtain success err c1 where lk: "LockEntity_Lock api (lock l) c = ((success, err), c1)"
    by (metis prod.exhaust)
  note eff = LockEntity_Lock_effect [OF lk]
  show ?thesis
  proof (cases "err = None")
    case True
    with assms lk have "become api success l c1 = (ms, l', c')" by (simp add: select_first_def)
    from become_effect [OF this] eff True show ?thesis
      by (auto simp: campaigned_def intro: attempt_keeps) (simp add: keeps_locks_def)
  next
    case False
    with assms lk eff show ?thesis by (auto simp: select_first_def campaigned_def)
  qed
qed

lemma select_turn_campaigned:
  assumes "select_turn api l c = (ms, l', c')"
  shows "campaigned valid holder l c l' c'"
proof -
  obtain success err c1 where lk: "LockEntity_Lock api (lock l) c = ((success, err), c1)"
    by (metis prod.exhaust)
  note eff = LockEntity_Lock_effect [OF lk]
  define r where "r = (if err = None \<and> success \<noteq> leader l then become api success l c1 else ([], l, c1))"
  obtain ms' sev1 c2 where r: "r = (ms', sev1, c2)" by (metis prod.exhaust)
  obtain e3 c3 where rn: "SessionEntity_Renew api (session sev1) c2 = (e3, c3)" by (metis prod.exhaust)
  obtain e4 c4 where up: "Leader_UpdateTTL api sev1 c3 = (e4, c4)" by (metis prod.exhaust)
  have res: "l' = sev1" "c' = c4"
    using trans [OF sym [OF assms] select_turn_eq [OF lk r [unfolded r_def] rn up]]
    by (simp_all only: prod.inject)
  have quiet: "keeps_locks valid holder c2 c'"
    unfolding res by (rule keeps_locks_trans [OF Renew_locks [OF rn] UpdateTTL_locks [OF up]])
  show ?thesis
  proof (cases "err = None \<and> success \<noteq> leader l")
    case True
    with r have "become api success l c1 = (ms', l', c2)" by (simp add: r_def res)
    note b = become_effect [OF this]
    have q: "keeps_locks valid holder c1 c'" using b(1) quiet by (rule keeps_locks_trans)
    note a = attempt_keeps [OF eff(1) q]
    from q have "holder c' = holder c1" by (simp add: keeps_locks_def)
    with b a eff(2,3) True show ?thesis by (auto simp: campaigned_def)
  next
    case False
    then have "l' = l" "c2 = c1" using r by (auto simp: r_def res split: if_splits)
    with attempt_keeps [OF eff(1)] quiet show ?thesis by (simp add: campaigned_def)
  qed
qed

lemma Leader_Free_effect:
  assumes "Leader_Free api l c = (l', c')"
  shows "lock l' = lock l" and "\<not> leader l'" and "valid c' = valid c"
    and "holder c' = holder c \<or> leader l \<and> holder c' = (holder c)(lock_key l := None)"
proof -
  have del: "LockEntity_Delete api (lock l) c1 = (e, c2) \<Longrightarrow> valid c2 = valid c1 \<and>
      (holder c2 = holder c1 \<or> holder c2 = (holder c1)(lock_key l := None))" for c1 e c2
    using delete by (simp add: delete_law_def LockEntity_Delete_def Lock_Delete_def)
  show "lock l' = lock l" "\<not> leader l'" "valid c' = valid c"
    "holder c' = holder c \<or> leader l \<and> holder c' = (holder c)(lock_key l := None)"
    using assms
    by (auto simp: Leader_Free_def keeps_locks_def dest!: Deregister_locks del
        split: prod.splits if_splits)
qed

lemma elected_free:
  assumes "elected holder key ns c" and "Leader_Free api (ns i) c = (l', c')"
  shows "elected holder key (ns(i := l')) c'"
proof -
  note eff = Leader_Free_effect [OF assms(2)]
  have ids: "(\<lambda>j. sid ((ns(i := l')) j)) = (\<lambda>j. sid (ns j))" using eff(1) by auto
  have "holder c' key = Some (sid (ns j))" if "j \<noteq> i" "leader (ns j)" for j
  proof -
    have h: "holder c key = Some (sid (ns j))" using assms(1) that(2) by (simp add: elected_def)
    have "\<not> leader (ns i)"
      using assms(1) that(1) h unfolding elected_def by (metis injD option.inject)
    with eff(4) h show ?thesis by simp
  qed
  with assms(1) eff(1,2) ids show ?thesis unfolding elected_def by (simp add: fun_upd_def)
qed

lemma elected_act:
  assumes "elected holder key ns c" and "act api a (ns, c) = (ns', c')"
  shows "elected holder key ns' c'"
  using assms
  by (cases a) (auto split: prod.splits intro: elected_campaigned elected_free
      dest: select_first_campaigned select_turn_campaigned)

lemma elected_run:
  assumes "elected holder key ns c" and "cluster_run api acts (ns, c) = (ns', c')"
  shows "elected holder key ns' c'"
  using assms
proof (induction acts arbitrary: ns c)
  case Nil
  then show ?case by (simp add: cluster_run_def)
next
  case (Cons a acts)
  obtain ns1 c1 where "act api a (ns, c) = (ns1, c1)" by (metis prod.exhaust)
  with Cons.IH [OF elected_act [OF Cons.prems(1)]] Cons.prems(2) show ?case
    by (simp add: cluster_run_def)
qed

text \<open>The nodes that consider themselves leader, action by action.\<close>

lemma elected_unique: "elected holder key ns c \<Longrightarrow> leader (ns i) \<Longrightarrow> leader (ns j) \<Longrightarrow> i = j"
  unfolding elected_def by (metis injD option.inject)

lemma leaders_campaigned:
  assumes "elected holder key ns c" and "campaigned valid holder (ns i) c l' c'"
  shows "election (leaders ns) (leaders (ns(i := l')))"
proof (cases "leader l' = leader (ns i)")
  case True
  then have "leaders (ns(i := l')) = leaders ns" by (auto simp: leaders_def)
  then show ?thesis by (simp add: election.stay)
next
  case False
  show ?thesis
  proof (cases "leader l'")
    case True
    then have h: "holder c' key = Some (sid (ns i))" using False assms by (simp add: campaigned_def elected_def)
    have "leaders ns = {}"
    proof (rule ccontr)
      assume "leaders ns \<noteq> {}"
      then obtain j where j: "leader (ns j)" by (auto simp: leaders_def)
      then have "holder c key = Some (sid (ns j))" using assms(1) by (simp add: elected_def)
      then have "holder c' key = Some (sid (ns j))" using assms by (auto simp: campaigned_def attempt_def elected_def)
      with h have "sid (ns j) = sid (ns i)" by simp
      then have "j = i" using assms(1) unfolding elected_def by (blast dest: injD)
      with j True False show False by simp
    qed
    moreover from this True have "leaders (ns(i := l')) = {i}" by (auto simp: leaders_def)
    ultimately show ?thesis by (simp add: election.win)
  next
    case no: False
    then have "leaders ns = {i}" using False elected_unique [OF assms(1)] by (auto simp: leaders_def)
    moreover from this no have "leaders (ns(i := l')) = {}" by (auto simp: leaders_def split: if_splits)
    ultimately show ?thesis by (simp add: election.resign)
  qed
qed

lemma leaders_act:
  assumes "elected holder key ns c" and "act api a (ns, c) = (ns', c')"
  shows "election (leaders ns) (leaders ns')"
proof (cases "\<exists>i. a = Free i")
  case True
  then obtain i l' where i: "Leader_Free api (ns i) c = (l', c')" "ns' = ns(i := l')"
    using assms(2) by (auto split: prod.splits)
  have no: "\<not> leader l'" by (rule Leader_Free_effect(2) [OF i(1)])
  show ?thesis
  proof (cases "leader (ns i)")
    case True
    then have "leaders ns = {i}" using elected_unique [OF assms(1)] by (auto simp: leaders_def)
    moreover from this no i(2) have "leaders ns' = {}" by (auto simp: leaders_def split: if_splits)
    ultimately show ?thesis by (simp add: election.resign)
  next
    case False
    then have "leaders ns' = leaders ns" using no i(2) by (auto simp: leaders_def)
    then show ?thesis by (simp add: election.stay)
  qed
next
  case False
  with assms(2) obtain i l' where "campaigned valid holder (ns i) c l' c'" "ns' = ns(i := l')"
    by (cases a) (auto split: prod.splits dest: select_first_campaigned select_turn_campaigned)
  with leaders_campaigned [OF assms(1)] show ?thesis by simp
qed

text \<open>A session that is gone stays gone, and its node keeps its role, whatever anyone does.\<close>

lemma act_one:
  assumes "act api a (ns, c) = (ns', c')"
  shows "\<exists>k l'. ns' = ns(k := l') \<and> lock l' = lock (ns k) \<and> valid c' = valid c \<and>
    (\<not> valid c (sid (ns k)) \<and> a \<noteq> Free k \<longrightarrow> leader l' = leader (ns k))"
proof (cases a)
  case (First k)
  then obtain ms l' where "select_first api (ns k) c = (ms, l', c')" "ns' = ns(k := l')"
    using assms by (auto split: prod.splits)
  with campaignedD [OF select_first_campaigned] show ?thesis by blast
next
  case (Turn k)
  then obtain ms l' where "select_turn api (ns k) c = (ms, l', c')" "ns' = ns(k := l')"
    using assms by (auto split: prod.splits)
  with campaignedD [OF select_turn_campaigned] show ?thesis by blast
next
  case (Free k)
  then obtain l' where "Leader_Free api (ns k) c = (l', c')" "ns' = ns(k := l')"
    using assms by (auto split: prod.splits)
  with Leader_Free_effect(1,3) Free show ?thesis by blast
qed

lemma act_invalid:
  assumes "act api a (ns, c) = (ns', c')" and "\<not> valid c (sid (ns i))"
    and "a \<noteq> Free i"
  shows "\<not> valid c' (sid (ns' i)) \<and> leader (ns' i) = leader (ns i)"
  using act_one [OF assms(1)] assms(2,3) by (auto split: if_splits)

lemma run_invalid:
  assumes "cluster_run api acts (ns, c) = (ns', c')"
    and "\<not> valid c (sid (ns i))" and "Free i \<notin> set acts"
  shows "leader (ns' i) = leader (ns i)"
  using assms
proof (induction acts arbitrary: ns c)
  case Nil
  then show ?case by (simp add: cluster_run_def)
next
  case (Cons a acts)
  obtain ns1 c1 where a: "act api a (ns, c) = (ns1, c1)" by (metis prod.exhaust)
  have "a \<noteq> Free i" using Cons.prems(3) by auto
  from act_invalid [OF a Cons.prems(2) this] Cons.IH [of ns1 c1] Cons.prems a
  show ?case by (simp add: cluster_run_def)
qed

text \<open>A turn of a node that is no leader while another session holds the lock.\<close>

lemma follower_turn_quiet:
  assumes "\<not> leader l"
    and "holder c (lock_key l) = Some s" and "s \<noteq> sid l"
  shows "\<exists>c'. select_turn api l c = ([], l, c') \<and> holder c' (lock_key l) = Some s"
proof -
  obtain success err c1 where lk: "LockEntity_Lock api (lock l) c = ((success, err), c1)"
    by (metis prod.exhaust)
  note eff = LockEntity_Lock_effect [OF lk]
  have no: "\<not> (err = None \<and> success \<noteq> leader l)"
    using eff(1,2) assms(1-3) by (auto simp: attempt_def)
  obtain e3 c3 where rn: "SessionEntity_Renew api (session l) c1 = (e3, c3)" by (metis prod.exhaust)
  obtain e4 c4 where up: "Leader_UpdateTTL api l c3 = (e4, c4)" by (metis prod.exhaust)
  have "select_turn api l c = ([], l, c4)"
    by (rule select_turn_eq [OF lk _ rn up]) (simp only: no if_False)
  moreover have "keeps_locks valid holder c1 c4"
    by (rule keeps_locks_trans [OF Renew_locks [OF rn] UpdateTTL_locks [OF up]])
  ultimately show ?thesis
    using eff(1) assms(2) by (auto simp: attempt_def keeps_locks_def)
qed

end

context consul_lock_live
begin

lemma free_turn_wins:
  assumes "valid c (sid l)" and "holder c (lock_key l) = None" and "\<not> leader l"
  shows "\<exists>l' c'. select_turn api l c = ([member_of l True], l', c') \<and> leader l' \<and>
    holder c' (lock_key l) = Some (sid l)"
proof -
  obtain c1 where lk: "LockEntity_Lock api (lock l) c = ((True, None), c1)"
    using answers [unfolded acquire_answers_def, rule_format,
        of c "\<lparr>Key = lock_key l, Value = [], Session = sid l\<rparr>"] assms(1,2)
    by (auto simp: LockEntity_Lock_def Lock_Lock_def)
  note eff = LockEntity_Lock_effect [OF lk]
  obtain ms l' c2 where b: "become api True l c1 = (ms, l', c2)" by (metis prod.exhaust)
  then have l': "ms = [member_of l True]" "leader l'"
    by (auto simp: become_def Leader_Register_def Let_def case_prod_beta)
  obtain e3 c3 where rn: "SessionEntity_Renew api (session l') c2 = (e3, c3)" by (metis prod.exhaust)
  obtain e4 c4 where up: "Leader_UpdateTTL api l' c3 = (e4, c4)" by (metis prod.exhaust)
  have "select_turn api l c = (ms, l', c4)"
    by (rule select_turn_eq [OF lk _ rn up]) (simp add: assms(3) b)
  moreover have "keeps_locks valid holder c1 c4"
    by (rule keeps_locks_trans [OF become_effect(1) [OF b]
          keeps_locks_trans [OF Renew_locks [OF rn] UpdateTTL_locks [OF up]]])
  ultimately show ?thesis using eff(2) l' by (simp add: keeps_locks_def)
qed

end

text \<open>A leader that resigns leaves a free lock, which another node's next turn takes.\<close>

context consul_lock_live
begin

lemma Leader_Free_frees:
  assumes "Leader_Free api l c = (l', c')" and "leader l"
  shows "holder c' (lock_key l) = None \<and> valid c' = valid c"
proof -
  obtain e c1 where c1: "Leader_Deregister api l c = (e, c1)" by (metis prod.exhaust)
  then have "c' = snd (KvDelete api (lock_key l) c1)"
    using assms by (simp add: Leader_Free_def LockEntity_Delete_def Lock_Delete_def case_prod_beta prod_eq_iff)
  then have "holder c' (lock_key l) = None" using deletes by (simp add: delete_answers_def)
  with Leader_Free_effect(3) [OF assms(1)] show ?thesis by simp
qed

lemma resigned_turn_wins:
  assumes "Leader_Free api l c = (l', c1)" and "leader l"
    and "lock_key k = lock_key l" and "valid c (sid k)" and "\<not> leader k"
  shows "\<not> leader l' \<and>
    (\<exists>k' c2. select_turn api k c1 = ([member_of k True], k', c2) \<and> leader k' \<and> holder c2 (lock_key l) = Some (sid k))"
  using free_turn_wins [of c1 k] Leader_Free_frees [OF assms(1,2)] Leader_Free_effect(2) [OF assms(1)] assms(3-5) by simp

lemma NewLeader_session:
  assumes "NewLeader api key name host port c = (l, c')"
  shows "valid c' (sid l) \<and> holder c' = holder c \<and> lock_key l = key \<and> \<not> leader l"
proof -
  obtain s c1 where "SessionCreate api \<lparr>Behavior = SessionBehaviorDelete, se_TTL = dec_int 10 @ ''s''\<rparr> c = ((s, None), c1)"
    "valid c1 s" "holder c1 = holder c"
    using creates unfolding create_answers_def by blast
  with assms show ?thesis
    by (auto simp: NewLeader_def SessionEntity_Create_def Session_Create_def NewSessionEntity_def NewLockEntity_def
        NewLock_def Let_def)
qed

lemma first_campaign_wins:
  assumes "valid c (sid l)" and "holder c (lock_key l) = None"
  shows "\<exists>l' c'. select_first api l c = ([member_of l True], l', c') \<and> leader l' \<and> holder c' (lock_key l) = Some (sid l) \<and>
    lock l' = lock l"
proof -
  obtain c1 where lk: "LockEntity_Lock api (lock l) c = ((True, None), c1)"
    using answers [unfolded acquire_answers_def, rule_format,
        of c "\<lparr>Key = lock_key l, Value = [], Session = sid l\<rparr>"] assms(1,2)
    by (auto simp: LockEntity_Lock_def Lock_Lock_def)
  obtain ms l' c2 where b: "become api True l c1 = (ms, l', c2)" by (metis prod.exhaust)
  then have "ms = [member_of l True]" "leader l'" "lock l' = lock l"
    by (auto simp: become_def Leader_Register_def Let_def case_prod_beta)
  moreover have "holder c2 (lock_key l) = Some (sid l)"
    using LockEntity_Lock_effect(2) [OF lk] become_effect(1) [OF b] by (simp add: keeps_locks_def)
  ultimately show ?thesis using lk b by (simp add: select_first_def)
qed

end

definition demo_leader :: "nat \<Rightarrow> Leader" where
  "demo_leader i = (fst (NewLeader consul_api ''agent_lock'' ''binlog-go-agent'' ''10.0.0.1'' (9000 + int i)
     (no_consul\<lparr>sessions := replicate i []\<rparr>)))"

definition demo_consul :: consul where
  "demo_consul = no_consul\<lparr>sessions := [dec 1, dec 0]\<rparr>"

lemma demo_leader_simps [simp]:
  "\<not> leader (demo_leader i)" "lock_key (demo_leader i) = ''agent_lock''" "sid (demo_leader i) = dec i"
  by (simp_all add: demo_leader_def NewLeader_def SessionEntity_Create_def Session_Create_def
      NewSessionEntity_def NewLockEntity_def NewLock_def consul_api_def Let_def)

lemma inj_demo: "inj (\<lambda>i. sid (demo_leader i))"
  by (rule injI) (simp add: dec_inj)

lemma become_leader [simp]: "leader (fst (snd (become api b l c))) = b"
  by (simp add: become_def Leader_Register_def Let_def case_prod_beta)

lemma first_wins: "leader (fst (snd (select_first consul_api (demo_leader 0) demo_consul)))"
proof -
  have "LockEntity_Lock consul_api (lock (demo_leader 0)) demo_consul =
      ((True, None), demo_consul\<lparr>locks := (locks demo_consul)(''agent_lock'' \<mapsto> dec 0)\<rparr>)"
    by (simp add: LockEntity_Lock_def Lock_Lock_def consul_api_def consul_acquire_def consul_valid_def
        demo_consul_def no_consul_def)
  then show ?thesis by (simp add: select_first_def)
qed

text \<open>
  C6. Leader election is exclusive: nodes that campaign for one key with sessions of their own,
  in any interleaving of first attempts, turns of the election loop and resignations, are never
  leader two at a time, while the sessions live.
\<close>

theorem at_most_one_leader:
  assumes "consul_lock api valid holder"
    and "\<forall>i. \<not> leader (ns i)" and "\<forall>i. lock_key (ns i) = key" and "inj (\<lambda>i. sid (ns i))"
    and "cluster_run api acts (ns, c) = (ns', c')" and "leader (ns' i)" and "leader (ns' j)"
  shows "i = j"
proof -
  have "elected holder key ns c" using assms(2-4) by (simp add: elected_def)
  from consul_lock.elected_run [OF assms(1) this assms(5)] have "elected holder key ns' c'" .
  with assms(6,7) show ?thesis unfolding elected_def by (metis injD option.inject)
qed

theorem at_most_one_leader_witness:
  "\<exists>ns c. cluster_run consul_api [First 0, First 1, Turn 1] (demo_leader, demo_consul) = (ns, c) \<and>
     leader (ns 0) \<and> \<not> leader (ns 1)"
proof -
  obtain ns c where run:
    "cluster_run consul_api [First 0, First 1, Turn 1] (demo_leader, demo_consul) = (ns, c)"
    by (metis prod.exhaust)
  have "leader (ns 0)"
    using run first_wins by (auto simp: cluster_run_def Let_def split: prod.splits)
  then have "\<not> leader (ns 1)"
    using at_most_one_leader [OF consul.consul_lock_axioms _ _ inj_demo run, where i = 0 and j = 1] by auto
  with run \<open>leader (ns 0)\<close> show ?thesis by blast
qed



text \<open>
  C34. A leader that has lost its session does not step down: once Consul has dropped the
  session (a pause longer than its time to live), every lock attempt of the node is an error,
  the election loop ignores errors and nothing creates a new session. However many turns the
  nodes take, the node goes on as leader, also while another node takes the lock over.
\<close>

theorem expired_leader_stays:
  assumes "consul_lock api valid holder" and "cluster_run api acts (ns, c) = (ns', c')"
    and "leader (ns i)" and "\<not> valid c (sid (ns i))" and "Free i \<notin> set acts"
  shows "leader (ns' i)"
  using consul_lock.run_invalid [OF assms(1,2,4,5)] assms(3) by simp

theorem expired_leader_stays_witness:
  "\<exists>ns c. cluster_run consul_api [First 0, Turn 1]
      (demo_leader(1 := (demo_leader 1)\<lparr>leader := True\<rparr>), demo_consul\<lparr>sessions := [dec 0]\<rparr>) = (ns, c) \<and>
     leader (ns 0) \<and> leader (ns 1)"
proof -
  let ?ns = "demo_leader(1 := (demo_leader 1)\<lparr>leader := True\<rparr>)"
  let ?c = "demo_consul\<lparr>sessions := [dec 0]\<rparr>"
  obtain ns c where run: "cluster_run consul_api [First 0, Turn 1] (?ns, ?c) = (ns, c)"
    by (metis prod.exhaust)
  have "LockEntity_Lock consul_api (lock (demo_leader 0)) ?c =
      ((True, None), ?c\<lparr>locks := (locks ?c)(''agent_lock'' \<mapsto> dec 0)\<rparr>)"
    by (simp add: LockEntity_Lock_def Lock_Lock_def consul_api_def consul_acquire_def consul_valid_def
        demo_consul_def no_consul_def)
  then have "leader (fst (snd (select_first consul_api (demo_leader 0) ?c)))"
    by (simp add: select_first_def)
  with run have "leader (ns 0)" by (auto simp: cluster_run_def Let_def split: prod.splits)
  moreover have "\<not> consul_valid ?c (sid (?ns 1))" using dec_inj [of 1 0] by (auto simp: consul_valid_def)
  then have "leader (ns 1)" by (intro expired_leader_stays [OF consul.consul_lock_axioms run]) auto
  ultimately show ?thesis using run by blast
qed

text \<open>
  A node whose very first lock attempt is an error and who then finds the lock taken never
  registers and never calls back: the loop acts on a change of its own flag only, and that
  flag already says it is no leader. It joins the cluster neither as leader nor as follower.
\<close>

theorem late_follower_never_joins:
  assumes "consul_lock api valid holder" and "\<not> leader l"
    and "holder c (lock_key l) = Some s" and "s \<noteq> sid l"
  shows "\<exists>c'. select_turn api l c = ([], l, c') \<and> holder c' (lock_key l) = Some s"
  using assms by (rule consul_lock.follower_turn_quiet)

theorem late_follower_never_joins_witness:
  "\<exists>c'. select_turn consul_api (demo_leader 1)
      (demo_consul\<lparr>locks := (\<lambda>_. Some (dec 0))\<rparr>) = ([], demo_leader 1, c') \<and>
    locks c' (lock_key (demo_leader 1)) = Some (dec 0)"
  by (rule late_follower_never_joins [OF consul.consul_lock_axioms]) (auto dest: dec_inj)

text \<open>
  A free lock is taken at the next turn: when the lock has been released, the first node
  without the lead whose session lives becomes leader in one turn of its loop, holds the lock,
  and its callback is started with the news.
\<close>

theorem free_lock_is_taken:
  assumes "consul_lock_live api valid holder"
    and "valid c (sid l)" and "holder c (lock_key l) = None" and "\<not> leader l"
  shows "\<exists>l' c'. select_turn api l c = ([member_of l True], l', c') \<and> leader l' \<and>
    holder c' (lock_key l) = Some (sid l)"
  using assms by (rule consul_lock_live.free_turn_wins)

theorem free_lock_is_taken_witness:
  "\<exists>l' c'. select_turn consul_api (demo_leader 1) (demo_consul\<lparr>sessions := [dec 1], locks := (\<lambda>_. None)\<rparr>) =
      ([member_of (demo_leader 1) True], l', c') \<and> leader l' \<and> locks c' (lock_key (demo_leader 1)) = Some (sid (demo_leader 1))"
  by (rule free_lock_is_taken [OF consul.consul_lock_live_axioms]) (simp_all add: consul_valid_def)

text \<open>
  The orderly handover: when the leader of a cluster resigns, the lock is free, and the
  first other node whose session lives takes its next turn as the new leader, holds the lock
  and is told so, while the old one is leader no more.
\<close>

theorem orderly_handover:
  assumes "consul_lock_live api valid holder" and "leader (ns i)" and "j \<noteq> i" and "\<not> leader (ns j)"
    and "lock_key (ns j) = lock_key (ns i)" and "valid c (sid (ns j))"
  shows "\<exists>ns' c1 c'. act api (Free i) (ns, c) = (ns', c1) \<and> \<not> leader (ns' i) \<and>
    (\<exists>ns''. act api (Turn j) (ns', c1) = (ns'', c') \<and> leader (ns'' j) \<and> \<not> leader (ns'' i)) \<and>
    fst (select_turn api (ns' j) c1) = [member_of (ns j) True] \<and> holder c' (lock_key (ns i)) = Some (sid (ns j))"
proof -
  obtain l' c1 where fr: "Leader_Free api (ns i) c = (l', c1)" by (metis prod.exhaust)
  from consul_lock_live.resigned_turn_wins [OF assms(1) fr assms(2,5,6,4)] obtain k' c2 where
    k: "\<not> leader l'" "select_turn api (ns j) c1 = ([member_of (ns j) True], k', c2)" "leader k'"
      "holder c2 (lock_key (ns i)) = Some (sid (ns j))"
    by blast
  let ?ns = "ns(i := l')"
  have "act api (Free i) (ns, c) = (?ns, c1)" "act api (Turn j) (?ns, c1) = (?ns(j := k'), c2)"
    using fr k(2) assms(3) by simp_all
  moreover have "leader ((?ns(j := k')) j)" "\<not> leader ((?ns(j := k')) i)" "\<not> leader (?ns i)"
    using k(1,3) assms(3) by simp_all
  ultimately show ?thesis using k(2,4) assms(3) by (intro exI [of _ ?ns] exI [of _ c1] exI [of _ c2]) auto
qed

theorem orderly_handover_witness:
  "\<exists>ns c1 ns' c'. act consul_api (Free 0) (demo_leader(0 := (demo_leader 0)\<lparr>leader := True\<rparr>), demo_consul) = (ns, c1) \<and>
     act consul_api (Turn 1) (ns, c1) = (ns', c') \<and> leader (ns' 1) \<and> \<not> leader (ns' 0) \<and> locks c' ''agent_lock'' = Some (dec 1)"
proof -
  define ns where "ns = demo_leader(0 := (demo_leader 0)\<lparr>leader := True\<rparr>)"
  have pre: "leader (ns 0)" "(1::nat) \<noteq> 0" "\<not> leader (ns 1)" "lock_key (ns 1) = lock_key (ns 0)"
    "consul_valid demo_consul (sid (ns 1))"
    by (simp_all add: ns_def consul_valid_def demo_consul_def)
  have "sid (ns 1) = dec 1" "lock_key (ns 0) = ''agent_lock''" by (simp_all add: ns_def)
  with orderly_handover [OF consul.consul_lock_live_axioms pre] show ?thesis
    unfolding ns_def [symmetric] by (auto simp del: act.simps One_nat_def)
qed

end
