(* ===== verification/Sub_Service.thy ===== *)
theory Sub_Service
  imports Consul_Leader
begin

text \<open>
  The subscription server's registration in Consul, \<^verbatim>\<open>src/services/service.go\<close>:
  \<open>NewService\<close>, \<open>Register\<close>, \<open>Deregister\<close>, \<open>Close\<close> and the loop of \<open>updateTTL\<close>,
  which publishes the number of connected clients. The counter itself (\<open>newConnect\<close>,
  \<open>disconnect\<close>) is part of the state of the clients (\<open>Tcp_Groups\<close>) and an argument here;
  the reader of the published number is in \<open>Consul_Watch\<close>. Durations are whole seconds,
  as the program sets them.
\<close>

definition SubServiceName :: string where "SubServiceName = ''binlog-go-subscribe''"

record SubService =
  ss_ServiceName :: string
  ss_ServiceHost :: string
  ss_ServiceIP :: string
  ss_ServicePort :: int
  ss_Interval :: int
  ss_TTL :: int
  ss_ServiceID :: string
  ss_status :: nat

type_synonym SubServiceOption = "SubService \<Rightarrow> SubService"

definition opt_TTL :: "int \<Rightarrow> SubServiceOption" where
  "opt_TTL ttl s = s\<lparr>ss_TTL := ttl\<rparr>"

definition opt_Interval :: "int \<Rightarrow> SubServiceOption" where
  "opt_Interval interval s = s\<lparr>ss_Interval := interval\<rparr>"

definition opt_ServiceIp :: "string \<Rightarrow> SubServiceOption" where
  "opt_ServiceIp serviceIP s = s\<lparr>ss_ServiceIP := serviceIP\<rparr>"

definition NewSubService :: "string \<Rightarrow> int \<Rightarrow> SubServiceOption list \<Rightarrow> SubService go" where
  "NewSubService host port opts =
     (let s = \<lparr>ss_ServiceName = SubServiceName, ss_ServiceHost = host, ss_ServiceIP = [], ss_ServicePort = port,
               ss_Interval = 10, ss_TTL = 15, ss_ServiceID = [], ss_status = 0\<rparr>;
          s = fold (\<lambda>opt s. opt s) opts s
      in if host = ''0.0.0.0'' \<and> ss_ServiceIP s = [] then Panic ExplicitPanic
         else let ip = (if host = ''0.0.0.0'' then ss_ServiceIP s else host)
              in Ret (s\<lparr>ss_ServiceID := SubServiceName @ ''-'' @ ip @ ''-'' @ dec_int port\<rparr>))"

definition ss_ip :: "SubService \<Rightarrow> string" where
  "ss_ip s =
     (if ss_ServiceHost s = ''0.0.0.0'' \<and> ss_ServiceIP s \<noteq> [] then ss_ServiceIP s else ss_ServiceHost s)"

definition SubService_Deregister :: "'c api \<Rightarrow> SubService \<Rightarrow> 'c \<Rightarrow> err \<times> 'c" where
  "SubService_Deregister api s c =
     (let (err, c1) = ServiceDeregister api (ss_ServiceID s) c
      in case err of
           Some e \<Rightarrow> (Some e, c1)
         | None \<Rightarrow> CheckDeregister api (ss_ServiceID s) c1)"

definition SubService_Close :: "'c api \<Rightarrow> SubService \<Rightarrow> 'c \<Rightarrow> 'c" where
  "SubService_Close api s c = snd (SubService_Deregister api s c)"

text \<open>The key and the value \<open>updateTTL\<close> publishes, the session it opens, and a pass of its
  loop; \<open>binary.LittleEndian.PutUint64\<close> writes eight bytes.\<close>

definition connects_key :: "string \<Rightarrow> int \<Rightarrow> string" where
  "connects_key ip port = ''connects/'' @ ip @ ''/'' @ dec_int port"

definition PutUint64 :: "64 word \<Rightarrow> bytes" where
  "PutUint64 v = le_bytes 8 (unat v)"

definition updateTTL_session :: "'c api \<Rightarrow> SubService \<Rightarrow> 'c \<Rightarrow> string go \<times> 'c" where
  "updateTTL_session api s c =
     (let ((sess, err), c1) = SessionCreate api
        \<lparr>Behavior = SessionBehaviorDelete, se_TTL = dec_int (ss_Interval s * 3) @ ''s''\<rparr> c
      in (if err = None then Ret sess else Panic ExplicitPanic, c1))"

definition updateTTL_turn :: "'c api \<Rightarrow> string \<Rightarrow> SubService \<Rightarrow> int64 \<Rightarrow> 'c \<Rightarrow> 'c" where
  "updateTTL_turn api sess s count c =
     (let (_, c1) = SessionRenew api sess c;
          (_, c2) = KvPut api \<lparr>Key = connects_key (ss_ip s) (ss_ServicePort s), Value = PutUint64 count,
                               Session = sess\<rparr> c1
      in if \<not> has_flag (ss_status s) Registered then c2
         else snd (UpdateTTL api (ss_ServiceID s) [] ''passing'' c2))"

definition SubService_Register :: "'c api \<Rightarrow> string \<Rightarrow> SubService \<Rightarrow> 'c \<Rightarrow> err \<times> SubService \<times> 'c" where
  "SubService_Register api hostname s c =
     (let s = (if has_flag (ss_status s) Registered then s else s\<lparr>ss_status := ss_status s OR Registered\<rparr>);
          (err, c1) = ServiceRegister api
            \<lparr>reg_ID = ss_ServiceID s, reg_Name = ss_ServiceName s, reg_Address = ss_ip s,
             reg_Port = ss_ServicePort s, reg_Tags = [hostname]\<rparr> c
      in case err of
           Some e \<Rightarrow> (Some (ErrExternal ''initial register service error''), s, c1)
         | None \<Rightarrow>
             let (err, c2) = CheckRegister api
               \<lparr>chk_ID = ss_ServiceID s, chk_Name = ss_ServiceName s, chk_ServiceID = ss_ServiceID s,
                chk_TTL = dec_int (ss_TTL s) @ ''s'', chk_Status = ''passing''\<rparr> c1
             in (case err of
                   Some e \<Rightarrow> (Some (ErrExternal ''initial register service check error''), s, c2)
                 | None \<Rightarrow> (None, s, c2)))"

text \<open>The address a service registers is the one its counter is published under, and the one
  its id is made of.\<close>

lemma NewSubService_ip:
  "NewSubService host port opts = Ret s \<Longrightarrow> (\<forall>opt \<in> set opts. \<forall>s. ss_ServiceHost (opt s) = ss_ServiceHost s) \<Longrightarrow>
     ss_ServiceID s = SubServiceName @ ''-'' @ ss_ip s @ ''-'' @ dec_int port"
proof -
  assume new: "NewSubService host port opts = Ret s"
    and hosts: "\<forall>opt \<in> set opts. \<forall>s. ss_ServiceHost (opt s) = ss_ServiceHost s"
  have keep: "ss_ServiceHost (fold (\<lambda>opt s. opt s) opts s0) = ss_ServiceHost s0" for s0
    using hosts by (induction opts arbitrary: s0) simp_all
  show ?thesis using new keep
    by (auto simp: NewSubService_def ss_ip_def Let_def split: if_splits)
qed

end
