(* ===== verification/Framing.thy ===== *)
theory Framing
  imports Go_Prelude
begin

text \<open>
  The contract of a stream reader. Three places of the program cut a TCP byte stream into
  frames: \<^verbatim>\<open>tcpClientNode.onMessage\<close> (\<^verbatim>\<open>src/services\<close>), \<^verbatim>\<open>Client.onMessage\<close>
  (\<^verbatim>\<open>src/client\<close>) and the two \<^verbatim>\<open>onMessage\<close> loops over \<^verbatim>\<open>Codec.Decode\<close>
  (\<^verbatim>\<open>src/agent\<close>). Each appends what was read to a buffer and takes frames off its
  front. \<open>drain\<close> is the specification of one such loop and \<open>feed\<close> of a sequence of reads;
  the locale \<open>frame_reader\<close> states what the function that finds the first frame must
  promise for the result not to depend on how the stream was cut into reads, and
  \<open>frame_codec\<close> adds the encoder.
\<close>

section \<open>Taking frames off a buffer\<close>

text \<open>\<open>nxt b\<close> is the first frame of \<open>b\<close> and the number of bytes it takes, \<open>None\<close> when
  the frame is not complete yet.\<close>

function drain :: "('a list \<Rightarrow> ('f \<times> nat) option) \<Rightarrow> 'a list \<Rightarrow> 'f list \<times> 'a list" where
  "drain nxt b =
     (case nxt b of
        None \<Rightarrow> ([], b)
      | Some (f, n) \<Rightarrow>
          if 0 < n \<and> n \<le> length b
          then (let (fs, r) = drain nxt (drop n b) in (f # fs, r))
          else ([], b))"
  by pat_completeness auto
termination
  by (relation "measure (\<lambda>(nxt, b). length b)") auto

declare drain.simps [simp del]

fun feed :: "('a list \<Rightarrow> ('f \<times> nat) option) \<Rightarrow> 'a list \<Rightarrow> 'a list list \<Rightarrow> 'f list \<times> 'a list" where
  "feed nxt buf [] = ([], buf)"
| "feed nxt buf (c # cs) =
     (let (fs, r) = drain nxt (buf @ c); (gs, r') = feed nxt r cs in (fs @ gs, r'))"

lemma drain_None [simp]: "nxt b = None \<Longrightarrow> drain nxt b = ([], b)"
  by (subst drain.simps) simp

lemma drain_Some:
  "nxt b = Some (f, n) \<Longrightarrow> 0 < n \<Longrightarrow> n \<le> length b \<Longrightarrow>
     drain nxt b = (f # fst (drain nxt (drop n b)), snd (drain nxt (drop n b)))"
  by (subst drain.simps) (simp add: case_prod_beta Let_def)

lemma drain_length: "length (snd (drain nxt b)) \<le> length b"
proof (induction nxt b rule: drain.induct)
  case (1 nxt b)
  then show ?case
    by (subst drain.simps) (fastforce split: option.splits prod.splits)
qed


section \<open>The contract\<close>

locale frame_reader =
  fixes nxt :: "'a list \<Rightarrow> ('f \<times> nat) option"
  assumes nxt_bounds: "nxt b = Some (f, n) \<Longrightarrow> 0 < n \<and> n \<le> length b"
    and nxt_stable: "nxt b = Some (f, n) \<Longrightarrow> nxt (b @ c) = Some (f, n)"
begin

lemma drain_unfold:
  "nxt b = Some (f, n) \<Longrightarrow>
     drain nxt b = (f # fst (drain nxt (drop n b)), snd (drain nxt (drop n b)))"
  by (frule nxt_bounds) (simp add: drain_Some)

lemma drain_residue: "nxt (snd (drain nxt b)) = None"
proof (induction "length b" arbitrary: b rule: less_induct)
  case less
  show ?case
  proof (cases "nxt b")
    case None
    then show ?thesis by simp
  next
    case (Some fn)
    then obtain f n where fn: "nxt b = Some (f, n)" by (cases fn) auto
    with nxt_bounds have "length (drop n b) < length b" by fastforce
    from less [OF this] fn show ?thesis by (simp add: drain_unfold)
  qed
qed

lemma drain_append:
  "drain nxt (a @ b) =
     (fst (drain nxt a) @ fst (drain nxt (snd (drain nxt a) @ b)),
      snd (drain nxt (snd (drain nxt a) @ b)))"
proof (induction "length a" arbitrary: a rule: less_induct)
  case less
  show ?case
  proof (cases "nxt a")
    case None
    then show ?thesis by simp
  next
    case (Some fn)
    then obtain f n where fn: "nxt a = Some (f, n)" by (cases fn) auto
    then have bnd: "0 < n" "n \<le> length a" and st: "nxt (a @ b) = Some (f, n)"
      using nxt_bounds nxt_stable by blast+
    then have "length (drop n a) < length a" by simp
    from less [OF this] fn st bnd show ?thesis by (simp add: drain_unfold)
  qed
qed

text \<open>However the stream is cut into reads, the frames and the residue are those of the
  whole stream.\<close>

lemma feed_eq_drain: "nxt buf = None \<Longrightarrow> feed nxt buf cs = drain nxt (buf @ concat cs)"
proof (induction cs arbitrary: buf)
  case Nil
  then show ?case by simp
next
  case (Cons c cs)
  have "feed nxt (snd (drain nxt (buf @ c))) cs =
      drain nxt (snd (drain nxt (buf @ c)) @ concat cs)"
    by (rule Cons.IH) (rule drain_residue)
  then show ?case
    using drain_append [of "buf @ c" "concat cs"] by (simp add: case_prod_beta Let_def)
qed

lemma feed_chunks_irrelevant:
  "nxt buf = None \<Longrightarrow> concat cs = concat ds \<Longrightarrow> feed nxt buf cs = feed nxt buf ds"
  by (simp add: feed_eq_drain)

end

locale frame_codec = frame_reader nxt
  for nxt :: "'a list \<Rightarrow> ('f \<times> nat) option" +
  fixes enc :: "'f \<Rightarrow> 'a list" and ok :: "'f \<Rightarrow> bool"
  assumes nxt_enc: "ok f \<Longrightarrow> nxt (enc f @ rest) = Some (f, length (enc f))"
begin

lemma drain_encoded:
  "(\<forall>f \<in> set fs. ok f) \<Longrightarrow> nxt rest = None \<Longrightarrow>
     drain nxt (concat (map enc fs) @ rest) = (fs, rest)"
proof (induction fs)
  case Nil
  then show ?case by simp
next
  case (Cons f fs)
  then have "nxt (enc f @ concat (map enc fs) @ rest) = Some (f, length (enc f))"
    by (simp add: nxt_enc)
  with Cons show ?case by (simp add: drain_unfold)
qed

text \<open>What a loop has taken off and what it has kept, when it has seen a part of a stream of
  encoded frames.\<close>

lemma drain_prefix:
  assumes "\<forall>f \<in> set fs. ok f" and "a @ b = concat (map enc fs)"
  obtains fs1 fs2 where "fs = fs1 @ fs2" and "fst (drain nxt a) = fs1"
    and "snd (drain nxt a) @ b = concat (map enc fs2)"
proof -
  have "\<exists>fs1 fs2. fs = fs1 @ fs2 \<and> fst (drain nxt a) = fs1 \<and>
      snd (drain nxt a) @ b = concat (map enc fs2)"
    using assms
  proof (induction fs arbitrary: a)
    case Nil
    then have "a = []" by simp
    moreover have "nxt [] = None"
      using nxt_bounds [of "[]"] by (cases "nxt []") auto
    ultimately show ?case using Nil by simp
  next
    case (Cons f fs)
    then have whole: "nxt (a @ b) = Some (f, length (enc f))"
      using nxt_enc [of f "concat (map enc fs)"] by simp
    show ?case
    proof (cases "length (enc f) \<le> length a")
      case True
      define a' where "a' = drop (length (enc f)) a"
      have "take (length (enc f)) (a @ b) = enc f"
        and "drop (length (enc f)) (a @ b) = concat (map enc fs)"
        unfolding Cons.prems(2) by simp_all
      then have t: "take (length (enc f)) a = enc f" and rest: "a' @ b = concat (map enc fs)"
        using True by (simp_all add: a'_def)
      from t have a: "a = enc f @ a'" by (metis a'_def append_take_drop_id)
      have "nxt a = Some (f, length (enc f))"
        unfolding a using Cons.prems(1) by (intro nxt_enc) simp
      then have d: "drain nxt a = (f # fst (drain nxt a'), snd (drain nxt a'))"
        by (simp add: drain_unfold a'_def)
      from Cons.IH [OF _ rest] Cons.prems(1) obtain fs1 fs2 where
        "fs = fs1 @ fs2" "fst (drain nxt a') = fs1"
        "snd (drain nxt a') @ b = concat (map enc fs2)"
        by auto
      with d show ?thesis by (intro exI [of _ "f # fs1"] exI [of _ fs2]) simp
    next
      case False
      have "nxt a = None"
      proof (rule ccontr)
        assume "nxt a \<noteq> None"
        then obtain g n where g: "nxt a = Some (g, n)" by auto
        then have "n \<le> length a" and "nxt (a @ b) = Some (g, n)"
          using nxt_bounds nxt_stable by blast+
        with whole False show False by simp
      qed
      with Cons.prems(2) show ?thesis by (intro exI [of _ "[]"] exI [of _ "f # fs"]) simp
    qed
  qed
  with that show ?thesis by blast
qed

lemma feed_encoded:
  "(\<forall>f \<in> set fs. ok f) \<Longrightarrow> nxt [] = None \<Longrightarrow> nxt rest = None \<Longrightarrow>
     concat cs = concat (map enc fs) @ rest \<Longrightarrow> feed nxt [] cs = (fs, rest)"
  by (simp add: feed_eq_drain drain_encoded)

end

end
