(* ===== verification/Wire_Pack.thy ===== *)
theory Wire_Pack
  imports Framing
begin

text \<open>
  The subscription protocol's frames: \<^verbatim>\<open>src/services/service_util.go\<close> (\<open>Pack\<close>, \<open>Unpack\<close>,
  \<open>PackPro\<close>, \<open>hasCmd\<close>, \<open>MatchFilters\<close>), the command constants of
  \<^verbatim>\<open>src/services/service_config.go\<close>, and the client's own packers
  (\<open>pack\<close> and \<open>setPro\<close> of \<^verbatim>\<open>src/client/tcp.go\<close>). A frame is a 4-byte little-endian
  length (of what follows it), a 2-byte command and the content. \<open>wire_next\<close> is the
  specification of a reader of such frames; it is shown to meet the contract
  \<open>frame_codec\<close> with \<open>Pack\<close> as the encoder, and \<open>Unpack\<close> to implement it.
\<close>

section \<open>Commands\<close>

definition CMD_SET_PRO :: nat where "CMD_SET_PRO = 0"
definition CMD_AUTH :: nat where "CMD_AUTH = 1"
definition CMD_ERROR :: nat where "CMD_ERROR = 2"
definition CMD_TICK :: nat where "CMD_TICK = 3"
definition CMD_EVENT :: nat where "CMD_EVENT = 4"
definition CMD_AGENT :: nat where "CMD_AGENT = 5"
definition CMD_STOP :: nat where "CMD_STOP = 6"
definition CMD_RELOAD :: nat where "CMD_RELOAD = 7"
definition CMD_SHOW_MEMBERS :: nat where "CMD_SHOW_MEMBERS = 8"
definition CMD_POS :: nat where "CMD_POS = 9"

lemmas cmd_defs = CMD_SET_PRO_def CMD_AUTH_def CMD_ERROR_def CMD_TICK_def CMD_EVENT_def
  CMD_AGENT_def CMD_STOP_def CMD_RELOAD_def CMD_SHOW_MEMBERS_def CMD_POS_def

definition hasCmd :: "nat \<Rightarrow> bool" where
  "hasCmd cmd \<longleftrightarrow>
     cmd = CMD_SET_PRO \<or> cmd = CMD_AUTH \<or> cmd = CMD_ERROR \<or> cmd = CMD_TICK \<or>
     cmd = CMD_EVENT \<or> cmd = CMD_AGENT \<or> cmd = CMD_STOP \<or> cmd = CMD_RELOAD \<or>
     cmd = CMD_SHOW_MEMBERS \<or> cmd = CMD_POS"

lemma hasCmd_iff: "hasCmd cmd \<longleftrightarrow> cmd \<le> 9"
  by (auto simp: hasCmd_def cmd_defs)

text \<open>The client library has the same commands and the same test, of its own.\<close>

definition client_CMD_SET_PRO :: nat where "client_CMD_SET_PRO = 0"
definition client_CMD_AUTH :: nat where "client_CMD_AUTH = 1"
definition client_CMD_ERROR :: nat where "client_CMD_ERROR = 2"
definition client_CMD_TICK :: nat where "client_CMD_TICK = 3"
definition client_CMD_EVENT :: nat where "client_CMD_EVENT = 4"
definition client_CMD_AGENT :: nat where "client_CMD_AGENT = 5"
definition client_CMD_STOP :: nat where "client_CMD_STOP = 6"
definition client_CMD_RELOAD :: nat where "client_CMD_RELOAD = 7"
definition client_CMD_SHOW_MEMBERS :: nat where "client_CMD_SHOW_MEMBERS = 8"
definition client_CMD_POS :: nat where "client_CMD_POS = 9"

lemma client_cmds [simp]:
  "client_CMD_SET_PRO = CMD_SET_PRO" "client_CMD_AUTH = CMD_AUTH" "client_CMD_ERROR = CMD_ERROR"
  "client_CMD_TICK = CMD_TICK" "client_CMD_EVENT = CMD_EVENT" "client_CMD_AGENT = CMD_AGENT"
  "client_CMD_STOP = CMD_STOP" "client_CMD_RELOAD = CMD_RELOAD" "client_CMD_SHOW_MEMBERS = CMD_SHOW_MEMBERS"
  "client_CMD_POS = CMD_POS"
  by (simp_all add: cmd_defs client_CMD_SET_PRO_def client_CMD_AUTH_def client_CMD_ERROR_def client_CMD_TICK_def client_CMD_EVENT_def 
    client_CMD_AGENT_def client_CMD_STOP_def client_CMD_RELOAD_def client_CMD_SHOW_MEMBERS_def client_CMD_POS_def)

definition client_hasCmd :: "nat \<Rightarrow> bool" where
  "client_hasCmd cmd \<longleftrightarrow>
     cmd = client_CMD_SET_PRO \<or> cmd = client_CMD_AUTH \<or> cmd = client_CMD_ERROR \<or> cmd = client_CMD_TICK \<or>
     cmd = client_CMD_EVENT \<or> cmd = client_CMD_AGENT \<or> cmd = client_CMD_STOP \<or> cmd = client_CMD_RELOAD \<or>
     cmd = client_CMD_SHOW_MEMBERS \<or> cmd = client_CMD_POS"

lemma client_hasCmd_eq [simp]: "client_hasCmd cmd = hasCmd cmd"
  by (simp add: client_hasCmd_def hasCmd_def)


section \<open>Packing and unpacking\<close>

definition Pack :: "nat \<Rightarrow> bytes \<Rightarrow> bytes" where
  "Pack cmd msg =
     (let l = length msg; cl = l + 2
      in [word_of_nat cl, word_of_nat (drop_bit 8 cl),
          word_of_nat (drop_bit 16 cl), word_of_nat (drop_bit 24 cl),
          word_of_nat cmd, word_of_nat (drop_bit 8 cmd)] @ msg)"

definition Unpack :: "bytes \<Rightarrow> (nat \<times> bytes \<times> g_error option) go" where
  "Unpack data =
     go_bind (at data 0) (\<lambda>b0. go_bind (at data 1) (\<lambda>b1.
     go_bind (at data 2) (\<lambda>b2. go_bind (at data 3) (\<lambda>b3.
       let clen = get32 b0 b1 b2 b3
       in if length data < clen + 4 then Ret (0, [], Some ErrDataLenError)
          else go_bind (at data 4) (\<lambda>b4. go_bind (at data 5) (\<lambda>b5.
                 let cmd = get16 b4 b5
                 in go_bind (sub data 6 (clen + 4)) (\<lambda>content.
                      Ret (cmd, content, None))))))))"

definition PackPro :: "nat \<Rightarrow> bytes \<Rightarrow> bytes" where
  "PackPro flag content =
     (let l = length content + 3
      in [word_of_nat l, word_of_nat (drop_bit 8 l),
          word_of_nat (drop_bit 16 l), word_of_nat (drop_bit 24 l),
          word_of_nat CMD_SET_PRO, word_of_nat (drop_bit 8 CMD_SET_PRO),
          word_of_nat flag] @ content)"

text \<open>The client's packers; the fourth length byte is \<open>byte(l >> 32)\<close>.\<close>

definition client_pack :: "nat \<Rightarrow> string \<Rightarrow> bytes" where
  "client_pack cmd content =
     (let c = bytes_of content; l = length c + 2
      in [word_of_nat l, word_of_nat (drop_bit 8 l),
          word_of_nat (drop_bit 16 l), word_of_nat (drop_bit 32 l),
          word_of_nat cmd, word_of_nat (drop_bit 8 cmd)] @ c)"

definition client_setPro :: "string \<Rightarrow> bytes" where
  "client_setPro content =
     (let c = bytes_of content; l = length c + 3
      in [word_of_nat l, word_of_nat (drop_bit 8 l),
          word_of_nat (drop_bit 16 l), word_of_nat (drop_bit 32 l),
          word_of_nat client_CMD_SET_PRO, word_of_nat (drop_bit 8 client_CMD_SET_PRO),
          word_of_nat 0] @ c)"

lemma Pack_eq: "Pack cmd msg = le_bytes 4 (length msg + 2) @ le_bytes 2 cmd @ msg"
  by (simp only: Pack_def Let_def le_bytes_2 le_bytes_4) simp

lemma length_Pack [simp]: "length (Pack cmd msg) = length msg + 6"
  by (simp add: Pack_eq)

lemma PackPro_Pack: "PackPro flag content = Pack CMD_SET_PRO (word_of_nat flag # content)"
proof -
  have "length (word_of_nat flag # content) + 2 = length content + 3" by simp
  then show ?thesis by (simp only: PackPro_def Pack_def Let_def) simp
qed


section \<open>The reader the frames are meant for\<close>

definition wire_next :: "bytes \<Rightarrow> ((nat \<times> bytes) \<times> nat) option" where
  "wire_next b =
     (if length b < 6 then None
      else let clen = le_nat (take 4 b)
           in if length b < clen + 4 \<or> clen < 2 then None
              else Some ((le_nat (take 2 (drop 4 b)), take (clen - 2) (drop 6 b)), clen + 4))"

definition wire_ok :: "nat \<times> bytes \<Rightarrow> bool" where
  "wire_ok f \<longleftrightarrow> fst f < 2 ^ 16 \<and> length (snd f) + 2 < 2 ^ 32"

definition wire_enc :: "nat \<times> bytes \<Rightarrow> bytes" where
  "wire_enc f = Pack (fst f) (snd f)"

lemma wire_next_short [simp]: "length b < 6 \<Longrightarrow> wire_next b = None"
  by (simp add: wire_next_def)

lemma wire_next_SomeD:
  "wire_next b = Some (f, n) \<Longrightarrow>
     6 \<le> n \<and> n \<le> length b \<and> n = le_nat (take 4 b) + 4 \<and>
     f = (le_nat (take 2 (drop 4 b)), take (n - 6) (drop 6 b))"
  by (auto simp: wire_next_def Let_def split: if_splits)

lemma take_drop_append:
  "k + n \<le> length b \<Longrightarrow> take n (drop k (b @ c)) = take n (drop k b)"
  by simp

lemma wire_next_append: "wire_next b = Some (f, n) \<Longrightarrow> wire_next (b @ c) = Some (f, n)"
  by (auto simp: wire_next_def Let_def split: if_splits)

lemma wire_next_Pack:
  assumes "cmd < 2 ^ 16" and "length msg + 2 < 2 ^ 32"
  shows "wire_next (Pack cmd msg @ rest) = Some ((cmd, msg), length msg + 6)"
proof -
  have "le_nat (take 4 (Pack cmd msg @ rest)) = length msg + 2"
    using assms by (simp add: Pack_eq)
  moreover have "le_nat (take 2 (drop 4 (Pack cmd msg @ rest))) = cmd"
    using assms by (simp add: Pack_eq)
  moreover have "take (length msg) (drop 6 (Pack cmd msg @ rest)) = msg"
    by (simp add: Pack_eq)
  ultimately show ?thesis by (simp add: wire_next_def)
qed

interpretation wire: frame_codec wire_next wire_enc wire_ok
proof
  show "0 < n \<and> n \<le> length b" if "wire_next b = Some (f, n)" for b f n
    using wire_next_SomeD [OF that] by simp
  show "wire_next (b @ c) = Some (f, n)" if "wire_next b = Some (f, n)" for b c f n
    using that by (rule wire_next_append)
  show "wire_next (wire_enc f @ rest) = Some (f, length (wire_enc f))" if "wire_ok f" for f rest
    using that by (cases f) (simp add: wire_enc_def wire_ok_def wire_next_Pack)
qed

text \<open>What is left of a stream of frames after the complete ones have been taken off: the
  front of a frame. When it shows a command, it is the command of that frame.\<close>

definition incomplete :: "bytes \<Rightarrow> bool" where
  "incomplete r \<longleftrightarrow> length r < 6 \<or> length r < le_nat (take 4 r) + 4"

lemma wire_residue_incomplete:
  assumes "\<forall>f \<in> set fs. wire_ok f" and "r @ b = concat (map wire_enc fs)" and "wire_next r = None"
  shows "incomplete r"
proof (cases "length r < 6")
  case True
  then show ?thesis by (simp add: incomplete_def)
next
  case False
  with assms(2) obtain cmd msg fs' where fs: "fs = (cmd, msg) # fs'" by (cases fs) auto
  have small: "length msg + 2 < 2 ^ 32" using assms(1) fs by (simp add: wire_ok_def)
  have "take 4 r = take 4 (r @ b)" using False by simp
  also have "\<dots> = le_bytes 4 (length msg + 2)"
    unfolding assms(2) by (simp add: fs wire_enc_def Pack_eq)
  finally have "le_nat (take 4 r) = length msg + 2" using small by simp
  with assms(3) False show ?thesis
    by (auto simp: incomplete_def wire_next_def Let_def split: if_splits)
qed

lemma wire_residue_cmd:
  assumes "\<forall>f \<in> set fs. wire_ok f" and "r @ b = concat (map wire_enc fs)" and "6 \<le> length r"
  shows "le_nat (take 2 (drop 4 r)) \<in> fst ` set fs"
proof -
  from assms(2,3) obtain cmd msg fs' where fs: "fs = (cmd, msg) # fs'" by (cases fs) auto
  have small: "cmd < 2 ^ 16" using assms(1) fs by (simp add: wire_ok_def)
  have "take 2 (drop 4 r) = take 2 (drop 4 (r @ b))" using assms(3) by simp
  also have "\<dots> = le_bytes 2 cmd"
    unfolding assms(2) by (simp add: fs wire_enc_def Pack_eq)
  finally have "le_nat (take 2 (drop 4 r)) = cmd" using small by simp
  with fs show ?thesis by force
qed

lemma Unpack_cases:
  "Unpack data =
     (if length data < 4 then Panic IndexOutOfRange
      else if length data < le_nat (take 4 data) + 4 then Ret (0, [], Some ErrDataLenError)
      else if length data < 6 then Panic IndexOutOfRange
      else case wire_next data of
             None \<Rightarrow> Panic SliceOutOfRange
           | Some ((cmd, content), n) \<Rightarrow> Ret (cmd, content, None))"
proof (cases "length data < 4")
  case True
  then show ?thesis by (simp add: Unpack_def at_def)
next
  case False
  then have clen: "get32 (data ! 0) (data ! 1) (data ! 2) (data ! 3) = le_nat (take 4 data)"
    by (intro get32_take) simp
  show ?thesis
  proof (cases "length data < 6")
    case True
    with False clen show ?thesis by (auto simp: Unpack_def at_def Let_def)
  next
    case long: False
    then have "get16 (data ! 4) (data ! 5) = le_nat (take 2 (drop 4 data))"
      using get16_take [of 4 data] by simp
    moreover have "data \<noteq> []" using long by auto
    ultimately show ?thesis using long clen
      by (auto simp: Unpack_def wire_next_def Let_def sub_def)
  qed
qed

lemma Unpack_packed:
  assumes "cmd < 2 ^ 16" and "length msg + 2 < 2 ^ 32"
  shows "Unpack (Pack cmd msg @ rest) = Ret (cmd, msg, None)"
  using assms by (simp add: Unpack_cases wire_next_Pack) (simp add: Pack_eq)

text \<open>
  C18. Round trip of the subscription protocol: \<open>Unpack\<close> gives back the command and the
  content of every frame \<open>Pack\<close> makes, whatever bytes follow it, for every 16-bit command
  and every content whose length the 4-byte length field can carry.
\<close>

theorem Unpack_Pack:
  assumes "cmd < 2 ^ 16" and "length msg + 2 < 2 ^ 32"
  shows "Unpack (Pack cmd msg @ rest) = Ret (cmd, msg, None)"
  using assms by (rule Unpack_packed)

theorem Unpack_Pack_witness: "Unpack (Pack CMD_EVENT [123, 125] @ [7]) = Ret (CMD_EVENT, [123, 125], None)"
  by (rule Unpack_Pack) (simp_all add: CMD_EVENT_def)


section \<open>What the client sends\<close>

lemma length_client_pack [simp]: "length (client_pack cmd s) = length s + 6"
  by (simp add: client_pack_def Let_def)

lemma length_client_setPro [simp]: "length (client_setPro s) = length s + 7"
  by (simp add: client_setPro_def Let_def)

text \<open>Below \<open>2 ^ 24\<close> both shifts of the length give 0, and the client's packers agree with
  the server's.\<close>

lemma drop_bit_24_32: "l < 2 ^ 24 \<Longrightarrow> drop_bit 32 l = drop_bit 24 (l :: nat)"
  by (simp add: drop_bit_eq_div)

lemma client_pack_Pack: "length s + 2 < 2 ^ 24 \<Longrightarrow> client_pack cmd s = Pack cmd (bytes_of s)"
  by (simp only: client_pack_def Pack_def Let_def length_bytes_of drop_bit_24_32)

lemma client_setPro_PackPro:
  "length s + 3 < 2 ^ 24 \<Longrightarrow> client_setPro s = PackPro 0 (bytes_of s)"
  by (simp only: client_setPro_def PackPro_def client_cmds Let_def length_bytes_of drop_bit_24_32)

text \<open>
  A topic the client sends is read by the server as it was meant: the frame
  \<open>setPro\<close> makes is one \<open>CMD_SET_PRO\<close> frame whose content is the flag 0 and the topic,
  for every topic shorter than \<open>2 ^ 24 - 3\<close> bytes.
\<close>

theorem client_setPro_read_by_server:
  assumes "length s + 3 < 2 ^ 24"
  shows "wire_next (client_setPro s @ rest) =
      Some ((CMD_SET_PRO, 0 # bytes_of s), length (client_setPro s))"
proof -
  have "wire_next (Pack CMD_SET_PRO (0 # bytes_of s) @ rest) =
      Some ((CMD_SET_PRO, 0 # bytes_of s), length (0 # bytes_of s) + 6)"
    using assms by (intro wire_next_Pack) (simp_all add: CMD_SET_PRO_def)
  then show ?thesis
    using assms by (simp add: client_setPro_PackPro PackPro_Pack)
qed

theorem client_setPro_read_by_server_witness:
  "wire_next (client_setPro ''test.*'' @ []) =
     Some ((CMD_SET_PRO, 0 # bytes_of ''test.*''), length (client_setPro ''test.*''))"
  by (rule client_setPro_read_by_server) simp

text \<open>
  The length field the client writes is the length modulo \<open>2 ^ 24\<close>, with the byte
  that should carry bits 24 to 31 taken from bits 32 to 39 (\<open>byte(l >> 32)\<close> instead of
  \<open>byte(l >> 24)\<close>): from 16 MiB on, a frame of the client announces a length it does not
  have.
\<close>

theorem client_pack_length_field:
  "le_nat (take 4 (client_pack cmd s)) =
     (length s + 2) mod 2 ^ 24 + 2 ^ 24 * ((length s + 2) div 2 ^ 32 mod 2 ^ 8)"
proof -
  define l where "l = length s + 2"
  have *: "le_nat [word_of_nat l, word_of_nat (drop_bit 8 l), word_of_nat (drop_bit 16 l),
      word_of_nat (drop_bit 32 l)] =
    le_nat (le_bytes 3 l) + 2 ^ 24 * (l div 2 ^ 32 mod 2 ^ 8)"
    by (simp add: le_bytes_shifts upt_rec unat_of_nat drop_bit_eq_div)
  show ?thesis
    using * by (simp add: client_pack_def Let_def l_def)
qed


section \<open>Topic filters\<close>

text \<open>\<open>regexp.MatchString\<close> is a parameter: whether the pattern matches, and the error of a
  pattern that does not compile.\<close>

type_synonym matcher = "string \<Rightarrow> string \<Rightarrow> bool \<times> g_error option"

fun match_loop :: "matcher \<Rightarrow> string list \<Rightarrow> string \<Rightarrow> bool" where
  "match_loop MatchString [] table = False"
| "match_loop MatchString (f # fs) table =
     (let (match, err) = MatchString f table
      in if match \<and> err = None then True else match_loop MatchString fs table)"

definition MatchFilters :: "matcher \<Rightarrow> string list \<Rightarrow> string \<Rightarrow> bool" where
  "MatchFilters MatchString filters table =
     (if length filters = 0 then True else match_loop MatchString filters table)"

lemma match_loop_iff: "match_loop m fs t \<longleftrightarrow> (\<exists>f \<in> set fs. m f t = (True, None))"
  by (induction fs) (auto split: prod.splits)

text \<open>A client without topics hears every table; otherwise it hears the tables one of its
  topics matches.\<close>

lemma MatchFilters_iff:
  "MatchFilters m fs t \<longleftrightarrow> fs = [] \<or> (\<exists>f \<in> set fs. m f t = (True, None))"
  by (auto simp: MatchFilters_def match_loop_iff)

end
