(* ===== verification/Sub_Client.thy ===== *)
theory Sub_Client
  imports Wire_Pack Go_Text "HOL-Library.AList"
begin

text \<open>
  The subscription client library, \<^verbatim>\<open>src/client/tcp.go\<close>: options, \<open>Subscribe\<close>,
  \<open>connect\<close>, \<open>disconnect\<close>, \<open>Close\<close>, the heartbeat, the choice of a server
  (\<open>getServer\<close>), the reading loop (\<open>onMessage\<close>) and the goroutine \<open>start\<close>, as a
  machine with one step per pass. Server nodes are shared by reference between the map
  \<open>Services\<close> and \<open>start\<close>, so they live in a heap. What the network answers, the order in
  which Go iterates over a map, \<open>getConnects\<close> and \<open>json.Unmarshal\<close> are parameters. The
  \<open>onevent\<close> callbacks are numbers, their calls are recorded in \<open>c_events\<close>.
\<close>

section \<open>State\<close>

definition clientOffline :: nat where "clientOffline = 1"
definition clientOnline :: nat where "clientOnline = 2"
definition nodeOffline :: nat where "nodeOffline = 1"
definition nodeOnline :: nat where "nodeOnline = 2"

lemmas client_flags = clientOffline_def clientOnline_def nodeOffline_def nodeOnline_def

record serverNode =
  sn_offline :: bool
  sn_host :: string
  sn_port :: int
  sn_connects :: "64 word"

record tcpConn =
  tc_open :: bool
  tc_writes :: "bytes list"

record Node =
  n_conn :: "tcpConn option"
  n_status :: nat

record 'j Client =
  c_node :: "Node option"
  c_buffer :: bytes
  c_heap :: "nat \<Rightarrow> serverNode"
  c_fresh :: nat
  c_Services :: "(string \<times> nat) list"
  c_times :: int64
  c_status :: nat
  c_onevent :: "nat list"
  c_topics :: "string list"
  c_consulAddress :: string
  c_events :: "(nat \<times> 'j) list" \<comment> \<open>the calls made: callback and argument\<close>
  c_wi_closed :: bool \<comment> \<open>\<open>wait.closed\<close>: whether \<open>NewClient\<close> may return\<close>

definition newClient :: "'j Client" where
  "newClient =
     \<lparr>c_node = None, c_buffer = [],
      c_heap = (\<lambda>_. \<lparr>sn_offline = False, sn_host = [], sn_port = 0, sn_connects = 0\<rparr>), c_fresh = 0,
      c_Services = [], c_times = 0, c_status = clientOffline, c_onevent = [], c_topics = [],
      c_consulAddress = [], c_events = [], c_wi_closed = False\<rparr>"

definition new_server :: "string \<Rightarrow> string \<Rightarrow> int \<Rightarrow> 'j Client \<Rightarrow> 'j Client" where
  "new_server key host port c =
     c\<lparr>c_heap := (c_heap c)(c_fresh c := \<lparr>sn_offline = False, sn_host = host, sn_port = port, sn_connects = 0\<rparr>),
       c_fresh := c_fresh c + 1, c_Services := AList.update key (c_fresh c) (c_Services c)\<rparr>"

definition set_services_one :: "string \<Rightarrow> 'j Client \<Rightarrow> 'j Client go" where
  "set_services_one s c =
     (let temp = split_at (CHR '':'') s
      in go_bind (at temp 0) (\<lambda>host. go_bind (at temp 1) (\<lambda>p.
           Ret (new_server s host (fst (ParseInt 64 p)) c))))"

definition SetServices :: "string list \<Rightarrow> 'j Client \<Rightarrow> 'j Client go" where
  "SetServices ss c = each set_services_one ss c"

definition OnEventOption :: "nat \<Rightarrow> 'j Client \<Rightarrow> 'j Client go" where
  "OnEventOption f c = Ret (c\<lparr>c_onevent := c_onevent c @ [f]\<rparr>)"

definition SetConsulAddress :: "string \<Rightarrow> 'j Client \<Rightarrow> 'j Client go" where
  "SetConsulAddress a c = Ret (c\<lparr>c_consulAddress := a\<rparr>)"


section \<open>Operations\<close>

text \<open>\<open>client.node.conn.Write(data)\<close>\<close>

definition node_write :: "bytes \<Rightarrow> 'j Client \<Rightarrow> 'j Client go" where
  "node_write data c =
     (case c_node c of
        None \<Rightarrow> Panic NilDereference
      | Some n \<Rightarrow> (case n_conn n of
          None \<Rightarrow> Panic NilDereference
        | Some k \<Rightarrow> Ret (c\<lparr>c_node := Some (n\<lparr>n_conn := Some (k\<lparr>tc_writes := tc_writes k @ [data]\<rparr>)\<rparr>)\<rparr>)))"

definition subscribe_one :: "string \<Rightarrow> 'j Client \<Rightarrow> 'j Client go" where
  "subscribe_one t c =
     (if t \<in> set (c_topics c) then Ret c
      else node_write (client_setPro t) (c\<lparr>c_topics := c_topics c @ [t]\<rparr>))"

definition Subscribe :: "string list \<Rightarrow> 'j Client \<Rightarrow> 'j Client go" where
  "Subscribe topics c = (if c_node c = None then Ret c else each subscribe_one topics c)"

definition disconnect :: "'j Client \<Rightarrow> 'j Client go" where
  "disconnect c =
     (case c_node c of
        None \<Rightarrow> Ret c
      | Some n \<Rightarrow>
          if has_flag (n_status n) nodeOffline then Ret c
          else (case n_conn n of
                  None \<Rightarrow> Panic NilDereference
                | Some k \<Rightarrow>
                    let n' = n\<lparr>n_conn := Some (k\<lparr>tc_open := False\<rparr>)\<rparr>
                    in Ret (c\<lparr>c_node := Some
                         (if has_flag (n_status n') nodeOnline
                          then n'\<lparr>n_status := (n_status n' XOR nodeOnline) OR nodeOffline\<rparr> else n')\<rparr>)))"

definition connect_dial :: "bool \<Rightarrow> bool \<Rightarrow> 'j Client \<Rightarrow> 'j Client go" where
  "connect_dial resolve_ok dial_ok c =
     (if \<not> resolve_ok then Ret c
      else if \<not> dial_ok
        then Ret (c\<lparr>c_node := Some \<lparr>n_conn = None, n_status = (nodeOnline XOR nodeOnline) OR nodeOffline\<rparr>\<rparr>)
      else let c1 = c\<lparr>c_node := Some \<lparr>n_conn = Some \<lparr>tc_open = True, tc_writes = []\<rparr>, n_status = nodeOnline\<rparr>\<rparr>;
               c2 = (if has_flag (c_status c1) clientOffline
                     then c1\<lparr>c_status := (c_status c1 XOR clientOffline) OR clientOnline\<rparr> else c1)
           in each (\<lambda>t. node_write (client_setPro t)) (c_topics c2) c2)"

definition connect :: "bool \<Rightarrow> bool \<Rightarrow> 'j Client \<Rightarrow> 'j Client go" where
  "connect resolve_ok dial_ok c =
     go_bind (case c_node c of
                Some n \<Rightarrow> if has_flag (n_status n) nodeOnline then disconnect c else Ret c
              | None \<Rightarrow> Ret c)
       (connect_dial resolve_ok dial_ok)"

text \<open>A pass of the heartbeat goroutine; \<open>err\<close> is whether the \<open>Write\<close> fails.\<close>

definition client_keepalive :: "bool \<Rightarrow> 'j Client \<Rightarrow> 'j Client go" where
  "client_keepalive err c =
     (case c_node c of
        None \<Rightarrow> Ret c
      | Some n \<Rightarrow>
          if n_conn n \<noteq> None \<and> has_flag (n_status n) nodeOnline
          then go_bind (node_write (client_pack client_CMD_TICK []) c) (\<lambda>c'. if err then disconnect c' else Ret c')
          else Ret c)"

definition client_Close :: "'j Client \<Rightarrow> 'j Client go" where
  "client_Close c =
     (if has_flag (c_status c) clientOffline then Ret c
      else go_bind (disconnect c) (\<lambda>c'.
        Ret (if has_flag (c_status c') clientOnline
             then c'\<lparr>c_status := (c_status c' XOR clientOnline) OR clientOffline\<rparr> else c')))"

text \<open>The callback of the Consul watcher; \<open>EV_ADD\<close> is 1 and \<open>EV_DELETE\<close> 2.\<close>

definition EV_ADD :: int where "EV_ADD = 1"
definition EV_DELETE :: int where "EV_DELETE = 2"

definition on_change :: "string \<Rightarrow> int \<Rightarrow> int \<Rightarrow> 'j Client \<Rightarrow> 'j Client" where
  "on_change ip port event c =
     (let s = ip @ '':'' @ dec_int port
      in if event = EV_DELETE then c\<lparr>c_Services := AList.delete s (c_Services c)\<rparr>
         else if event = EV_ADD
           then (if map_of (c_Services c) s = None then new_server s ip port c else c)
         else c)"


section \<open>Choosing a server\<close>

type_synonym connects_fn = "string \<Rightarrow> int \<Rightarrow> 64 word"

definition refresh_connects :: "connects_fn \<Rightarrow> nat \<Rightarrow> 'j Client \<Rightarrow> 'j Client" where
  "refresh_connects getConnects a c =
     c\<lparr>c_heap := (c_heap c)(a := (c_heap c a)\<lparr>sn_connects := getConnects (sn_host (c_heap c a)) (sn_port (c_heap c a))\<rparr>)\<rparr>"

text \<open>The two loops over \<open>Services\<close>, given the keys in the order of the iteration.\<close>

fun first_online :: "connects_fn \<Rightarrow> string list \<Rightarrow> 'j Client \<Rightarrow> nat option \<times> 'j Client" where
  "first_online getConnects [] c = (None, c)"
| "first_online getConnects (k # ks) c =
     (case map_of (c_Services c) k of
        None \<Rightarrow> first_online getConnects ks c
      | Some a \<Rightarrow>
          if sn_offline (c_heap c a) then first_online getConnects ks c
          else (Some a, refresh_connects getConnects a c))"

fun least_loaded :: "connects_fn \<Rightarrow> string list \<Rightarrow> nat option \<Rightarrow> 'j Client \<Rightarrow> (nat option \<times> 'j Client) go" where
  "least_loaded getConnects [] cur c = Ret (cur, c)"
| "least_loaded getConnects (k # ks) cur c =
     (case map_of (c_Services c) k of
        None \<Rightarrow> least_loaded getConnects ks cur c
      | Some a \<Rightarrow>
          if sn_offline (c_heap c a) then least_loaded getConnects ks cur c
          else let c' = refresh_connects getConnects a c
               in (case cur of
                     None \<Rightarrow> Panic NilDereference
                   | Some b \<Rightarrow>
                       least_loaded getConnects ks
                         (if sn_connects (c_heap c' a) < sn_connects (c_heap c' b) then Some a else Some b) c'))"

definition getServer :: "connects_fn \<Rightarrow> string list \<Rightarrow> string list \<Rightarrow> 'j Client \<Rightarrow> (nat option \<times> 'j Client) go" where
  "getServer getConnects ks1 ks2 c =
     (if c_Services c = [] then Ret (None, c)
      else let (cur, c1) = first_online getConnects ks1 c in least_loaded getConnects ks2 cur c1)"


section \<open>Reading\<close>

function client_loop :: "(bytes \<Rightarrow> 'j) \<Rightarrow> 'j Client \<Rightarrow> 'j Client go" where
  "client_loop Unmarshal c =
     (let buf = c_buffer c; bufferLen = length buf
      in if bufferLen < 6 then Ret c
         else let contentLen = get32 (buf ! 0) (buf ! 1) (buf ! 2) (buf ! 3);
                  cmd = get16 (buf ! 4) (buf ! 5)
         in if \<not> client_hasCmd cmd then Ret (c\<lparr>c_buffer := []\<rparr>)
         else if bufferLen < 4 + contentLen then Ret c
         else go_bind (sub buf 6 (4 + contentLen)) (\<lambda>dataB.
           let c1 = (if cmd = client_CMD_EVENT
                     then c\<lparr>c_times := c_times c + 1,
                             c_events := c_events c @ map (\<lambda>f. (f, Unmarshal dataB)) (c_onevent c)\<rparr>
                     else c)
           in client_loop Unmarshal (c1\<lparr>c_buffer := drop (contentLen + 4) buf\<rparr>)))"
  by pat_completeness auto
termination
  by (relation "measure (\<lambda>(u, c). length (c_buffer c))") auto

declare client_loop.simps [simp del]

definition client_onMessage :: "(bytes \<Rightarrow> 'j) \<Rightarrow> bytes \<Rightarrow> 'j Client \<Rightarrow> 'j Client go" where
  "client_onMessage Unmarshal msg c = client_loop Unmarshal (c\<lparr>c_buffer := c_buffer c @ msg\<rparr>)"

text \<open>The goroutine \<open>start\<close>: choosing a server and connecting (\<open>Picking\<close>), the test at the
  head of the read loop (\<open>Looping\<close>), the read (\<open>Reading\<close>), and its end. The inputs are
  what the environment answers.\<close>

datatype pc = Picking | Looping nat | Reading nat | Stopped

datatype answer = Pick "string list" "string list" bool bool | Check | Got bytes | ReadFails

definition pick :: "connects_fn \<Rightarrow> string list \<Rightarrow> string list \<Rightarrow> bool \<Rightarrow> bool \<Rightarrow> 'j Client \<Rightarrow> ('j Client \<times> pc) go" where
  "pick getConnects ks1 ks2 resolve_ok dial_ok c =
     go_bind (getServer getConnects ks1 ks2 c) (\<lambda>(server, c1).
       case server of
         None \<Rightarrow> Ret (c1, Picking)
       | Some a \<Rightarrow> go_bind (connect resolve_ok dial_ok c1) (\<lambda>c2.
           case c_node c2 of
             None \<Rightarrow> Ret (c2, Picking)
           | Some n \<Rightarrow>
               if n_conn n = None \<or> has_flag (n_status n) nodeOffline then Ret (c2, Picking)
               else let c3 = c2\<lparr>c_wi_closed := True\<rparr>
                    in if has_flag (c_status c3) clientOffline then Ret (c3, Stopped)
                       else Ret (c3, Looping a)))"

fun start_step :: "connects_fn \<Rightarrow> (bytes \<Rightarrow> 'j) \<Rightarrow> answer \<Rightarrow> 'j Client \<times> pc \<Rightarrow> ('j Client \<times> pc) go" where
  "start_step getConnects Unmarshal (Pick ks1 ks2 resolve_ok dial_ok) (c, Picking) =
     pick getConnects ks1 ks2 resolve_ok dial_ok c"
| "start_step getConnects Unmarshal Check (c, Looping a) =
     Ret (c, if has_flag (c_status c) clientOffline then Stopped else Reading a)"
| "start_step getConnects Unmarshal (Got d) (c, Reading a) =
     go_bind (client_onMessage Unmarshal d c) (\<lambda>c'. Ret (c', Looping a))"
| "start_step getConnects Unmarshal ReadFails (c, Reading a) =
     go_bind (disconnect c) (\<lambda>c'.
       Ret (c'\<lparr>c_heap := (c_heap c')(a := (c_heap c' a)\<lparr>sn_offline := True\<rparr>)\<rparr>, Picking))"
| "start_step getConnects Unmarshal _ s = Ret s"

section \<open>The least loaded server\<close>

text \<open>Whether a server is in use, and the load \<open>getServer\<close> compares.\<close>

definition usable :: "'j Client \<Rightarrow> nat \<Rightarrow> bool" where
  "usable c a \<longleftrightarrow> a \<in> ran (map_of (c_Services c)) \<and> \<not> sn_offline (c_heap c a)"

definition load :: "connects_fn \<Rightarrow> 'j Client \<Rightarrow> nat \<Rightarrow> 64 word" where
  "load getConnects c a = getConnects (sn_host (c_heap c a)) (sn_port (c_heap c a))"

lemma refresh_simps [simp]:
  "c_Services (refresh_connects gc a c) = c_Services c"
  "sn_offline (c_heap (refresh_connects gc a c) b) = sn_offline (c_heap c b)"
  "load gc (refresh_connects gc a c) b = load gc c b"
  "sn_connects (c_heap (refresh_connects gc a c) b) = (if b = a then load gc c a else sn_connects (c_heap c b))"
  "c_node (refresh_connects gc a c) = c_node c" "c_status (refresh_connects gc a c) = c_status c"
  "c_topics (refresh_connects gc a c) = c_topics c"
  by (simp_all add: refresh_connects_def load_def)

lemma least_loaded_spec:
  assumes "sn_connects (c_heap c b) = load gc c b"
  shows "\<exists>m c'. least_loaded gc ks (Some b) c = Ret (Some m, c') \<and>
    (m = b \<or> (\<exists>k \<in> set ks. map_of (c_Services c) k = Some m \<and> \<not> sn_offline (c_heap c m))) \<and>
    load gc c m \<le> load gc c b \<and>
    (\<forall>k \<in> set ks. \<forall>x. map_of (c_Services c) k = Some x \<and> \<not> sn_offline (c_heap c x) \<longrightarrow> load gc c m \<le> load gc c x) \<and>
    c_status c' = c_status c \<and> c_node c' = c_node c \<and> c_topics c' = c_topics c"
  using assms
proof (induction ks arbitrary: b c)
  case Nil
  then show ?case by simp
next
  case (Cons k ks)
  show ?case
  proof (cases "\<exists>a. map_of (c_Services c) k = Some a \<and> \<not> sn_offline (c_heap c a)")
    case False
    then show ?thesis using Cons.IH [OF Cons.prems] by (auto split: option.splits)
  next
    case True
    then obtain a where a: "map_of (c_Services c) k = Some a" "\<not> sn_offline (c_heap c a)" by blast
    define c1 where "c1 = refresh_connects gc a c"
    define b1 where "b1 = (if load gc c a < load gc c b then a else b)"
    have "sn_connects (c_heap c1 b1) = load gc c1 b1"
      using Cons.prems by (simp add: c1_def b1_def)
    from Cons.IH [OF this] obtain m c' where m: "least_loaded gc ks (Some b1) c1 = Ret (Some m, c')"
      "m = b1 \<or> (\<exists>k \<in> set ks. map_of (c_Services c) k = Some m \<and> \<not> sn_offline (c_heap c m))"
      "load gc c m \<le> load gc c b1"
      "\<forall>k \<in> set ks. \<forall>x. map_of (c_Services c) k = Some x \<and> \<not> sn_offline (c_heap c x) \<longrightarrow> load gc c m \<le> load gc c x"
      "c_status c' = c_status c" "c_node c' = c_node c" "c_topics c' = c_topics c"
      by (auto simp: c1_def)
    have "least_loaded gc (k # ks) (Some b) c = least_loaded gc ks (Some b1) c1"
      using a Cons.prems by (auto simp: Let_def b1_def c1_def)
    moreover have "load gc c b1 \<le> load gc c a" "load gc c b1 \<le> load gc c b"
      by (auto simp: b1_def)
    moreover have "m = b \<or> (\<exists>k \<in> set (k # ks). map_of (c_Services c) k = Some m \<and> \<not> sn_offline (c_heap c m))"
      using m(2) a by (auto simp: b1_def split: if_splits)
    ultimately show ?thesis using m a by (auto intro: order_trans)
  qed
qed

lemma first_online_None:
  "first_online gc ks c = (None, c') \<longleftrightarrow>
     c' = c \<and> (\<forall>k \<in> set ks. \<forall>a. map_of (c_Services c) k = Some a \<longrightarrow> sn_offline (c_heap c a))"
  by (induction ks) (auto split: option.splits)

lemma first_online_Some:
  "first_online gc ks c = (Some a, c') \<Longrightarrow>
     c' = refresh_connects gc a c \<and> \<not> sn_offline (c_heap c a) \<and>
     (\<exists>k \<in> set ks. map_of (c_Services c) k = Some a)"
  by (induction ks) (auto split: option.splits if_splits)

lemma least_loaded_None:
  "(\<forall>k \<in> set ks. \<forall>a. map_of (c_Services c) k = Some a \<longrightarrow> sn_offline (c_heap c a)) \<Longrightarrow>
     least_loaded gc ks None c = Ret (None, c)"
  by (induction ks) (auto split: option.splits)

lemma getServer_None:
  assumes "\<forall>a. \<not> usable c a"
  shows "getServer gc ks1 ks2 c = Ret (None, c)"
proof -
  have off: "map_of (c_Services c) k = Some a \<Longrightarrow> sn_offline (c_heap c a)" for k a
    using assms by (auto simp: usable_def ran_def)
  then have "first_online gc ks1 c = (None, c)" by (simp add: first_online_None)
  with off show ?thesis by (simp add: getServer_def least_loaded_None)
qed

lemma usable_key:
  assumes "usable c b" and "set ks = fst ` set (c_Services c)"
  shows "\<exists>k \<in> set ks. map_of (c_Services c) k = Some b \<and> \<not> sn_offline (c_heap c b)"
proof -
  obtain k where k: "map_of (c_Services c) k = Some b" "\<not> sn_offline (c_heap c b)"
    using assms(1) by (auto simp: usable_def ran_def)
  then have "k \<in> set ks" using map_of_SomeD [OF k(1)] assms(2) by force
  with k show ?thesis by blast
qed

lemma usableI: "map_of (c_Services c) k = Some a \<Longrightarrow> \<not> sn_offline (c_heap c a) \<Longrightarrow> usable c a"
  by (auto simp: usable_def ran_def)

lemma getServer_Some:
  assumes "set ks1 = fst ` set (c_Services c)" and "set ks2 = fst ` set (c_Services c)" and "usable c x"
  shows "\<exists>a c'. getServer gc ks1 ks2 c = Ret (Some a, c') \<and> usable c a \<and>
    (\<forall>b. usable c b \<longrightarrow> load gc c a \<le> load gc c b) \<and> c_status c' = c_status c \<and> c_node c' = c_node c \<and>
    c_topics c' = c_topics c"
proof -
  obtain r c1 where fo: "first_online gc ks1 c = (r, c1)" by (cases "first_online gc ks1 c")
  have "r \<noteq> None"
  proof
    assume "r = None"
    with fo have "\<forall>k \<in> set ks1. \<forall>a. map_of (c_Services c) k = Some a \<longrightarrow> sn_offline (c_heap c a)"
      by (simp add: first_online_None)
    with usable_key [OF assms(3,1)] show False by blast
  qed
  then obtain a where f: "first_online gc ks1 c = (Some a, c1)" using fo by auto
  note f' = first_online_Some [OF f]
  then have c1: "c1 = refresh_connects gc a c" by simp
  have "sn_connects (c_heap c1 a) = load gc c1 a" by (simp add: c1)
  note ll = least_loaded_spec [OF this, of ks2, unfolded c1 refresh_simps]
  then obtain m c' where m:
    "least_loaded gc ks2 (Some a) (refresh_connects gc a c) = Ret (Some m, c')"
    "m = a \<or> (\<exists>k \<in> set ks2. map_of (c_Services c) k = Some m \<and> \<not> sn_offline (c_heap c m))"
    "\<forall>k \<in> set ks2. \<forall>x. map_of (c_Services c) k = Some x \<and> \<not> sn_offline (c_heap c x) \<longrightarrow> load gc c m \<le> load gc c x"
    "c_status c' = c_status c" "c_node c' = c_node c" "c_topics c' = c_topics c"
    by blast
  have "c_Services c \<noteq> []" using assms(3) by (auto simp: usable_def)
  with f m(1) have "getServer gc ks1 ks2 c = Ret (Some m, c')" by (simp add: getServer_def c1)
  moreover have "usable c m" using m(2) f' usableI by metis
  moreover have "load gc c m \<le> load gc c b" if "usable c b" for b
    using m(3) usable_key [OF that assms(2)] by blast
  ultimately show ?thesis using m(4-6) by (intro exI [of _ m] exI [of _ c']) simp
qed


definition demo_client :: "bytes Client" where
  "demo_client = new_server ''b:2'' ''b'' 2 (new_server ''a:1'' ''a'' 1 newClient)"



section \<open>Closing and reconnecting\<close>

lemma flags_simp:
  "has_flag (Suc 0) (Suc 0)" "has_flag 2 2" "\<not> has_flag 2 (Suc 0)" "\<not> has_flag (Suc 0) 2"
  by (simp_all add: has_flag_def)

text \<open>What \<open>connect\<close> does when the network answers, from a node that is not online.\<close>

lemma each_node_write:
  assumes "c_node c = Some n" and "n_conn n = Some k"
  shows "\<exists>k'. each (\<lambda>t. node_write (client_setPro t)) ts c =
    Ret (c\<lparr>c_node := Some (n\<lparr>n_conn := Some k'\<rparr>)\<rparr>) \<and> tc_open k' = tc_open k \<and>
    tc_writes k' = tc_writes k @ map client_setPro ts"
  using assms
proof (induction ts arbitrary: c n k)
  case Nil
  then show ?case by (intro exI [of _ k]) simp
next
  case (Cons t ts)
  let ?k = "k\<lparr>tc_writes := tc_writes k @ [client_setPro t]\<rparr>"
  let ?c = "c\<lparr>c_node := Some (n\<lparr>n_conn := Some ?k\<rparr>)\<rparr>"
  have "node_write (client_setPro t) c = Ret ?c" using Cons.prems by (simp add: node_write_def)
  moreover have "c_node ?c = Some (n\<lparr>n_conn := Some ?k\<rparr>)" "n_conn (n\<lparr>n_conn := Some ?k\<rparr>) = Some ?k" by simp_all
  from Cons.IH [OF this] obtain k' where
    "each (\<lambda>t. node_write (client_setPro t)) ts ?c = Ret (?c\<lparr>c_node := Some (n\<lparr>n_conn := Some k'\<rparr>)\<rparr>)"
    "tc_open k' = tc_open k" "tc_writes k' = (tc_writes k @ [client_setPro t]) @ map client_setPro ts"
    by auto
  ultimately show ?case by (intro exI [of _ k']) simp
qed

lemma connect_dial_ok:
  "connect_dial True True c =
     Ret (c\<lparr>c_node := Some \<lparr>n_conn = Some \<lparr>tc_open = True, tc_writes = map client_setPro (c_topics c)\<rparr>, n_status = nodeOnline\<rparr>,
            c_status := (if has_flag (c_status c) clientOffline then (c_status c XOR clientOffline) OR clientOnline else c_status c)\<rparr>)"
proof -
  let ?n = "\<lparr>n_conn = Some \<lparr>tc_open = True, tc_writes = []\<rparr>, n_status = nodeOnline\<rparr>"
  define c2 where "c2 = c\<lparr>c_node := Some ?n,
    c_status := (if has_flag (c_status c) clientOffline then (c_status c XOR clientOffline) OR clientOnline else c_status c)\<rparr>"
  have "connect_dial True True c = each (\<lambda>t. node_write (client_setPro t)) (c_topics c) c2"
    by (simp add: connect_dial_def Let_def c2_def)
  moreover obtain k' where "each (\<lambda>t. node_write (client_setPro t)) (c_topics c) c2 =
      Ret (c2\<lparr>c_node := Some (?n\<lparr>n_conn := Some k'\<rparr>)\<rparr>)"
    "tc_open k'" "tc_writes k' = map client_setPro (c_topics c)"
    using each_node_write [of c2 ?n _ "c_topics c"] by (auto simp: c2_def)
  moreover from this(2,3) have "k' = \<lparr>tc_open = True, tc_writes = map client_setPro (c_topics c)\<rparr>" by simp
  ultimately show ?thesis by (simp add: c2_def)
qed

text \<open>A client that has lost its connection, when a server is left.\<close>

lemma pick_succeeds:
  assumes "set ks1 = fst ` set (c_Services c)" and "set ks2 = fst ` set (c_Services c)" and "usable c x"
    and "c_node c = Some n" and "\<not> has_flag (n_status n) nodeOnline" and "c_status c = clientOffline"
  shows "\<exists>c' a. pick gc ks1 ks2 True True c = Ret (c', Looping a) \<and> usable c a \<and> c_status c' = clientOnline \<and>
    c_node c' = Some \<lparr>n_conn = Some \<lparr>tc_open = True, tc_writes = map client_setPro (c_topics c)\<rparr>, n_status = nodeOnline\<rparr>"
proof -
  obtain a c1 where g: "getServer gc ks1 ks2 c = Ret (Some a, c1)" "usable c a" "c_status c1 = c_status c"
    "c_node c1 = c_node c" "c_topics c1 = c_topics c"
    using getServer_Some [OF assms(1-3), of gc] by blast
  obtain c' where c': "connect_dial True True c1 = Ret c'"
    "c_node c' = Some \<lparr>n_conn = Some \<lparr>tc_open = True, tc_writes = map client_setPro (c_topics c1)\<rparr>, n_status = nodeOnline\<rparr>"
    "c_status c' = (if has_flag (c_status c1) clientOffline then (c_status c1 XOR clientOffline) OR clientOnline else c_status c1)"
    by (simp add: connect_dial_ok)
  have "connect True True c1 = Ret c'"
    using assms(4,5) g(4) c'(1) by (simp add: connect_def)
  moreover have "c_status c' = clientOnline"
    using c'(3) g(3) assms(6) by (simp add: client_flags flags_simp)
  ultimately show ?thesis
    using g c'(2) by (intro exI [of _ "c'\<lparr>c_wi_closed := True\<rparr>"] exI [of _ a]) (simp add: pick_def client_flags flags_simp Let_def)
qed

text \<open>
  \<open>Close\<close> does not stop a client that has a second server: the reading goroutine sees
  its read fail, marks that server offline and goes back to choosing one without looking at
  the client's status, and \<open>connect\<close> turns the status back to online, with every topic
  subscribed anew.
\<close>

theorem closed_client_reconnects:
  assumes "c_node c = Some \<lparr>n_conn = Some k, n_status = nodeOnline\<rparr>" and "c_status c = clientOnline"
    and "usable c x" and "x \<noteq> s"
    and "set ks1 = fst ` set (c_Services c)" and "set ks2 = fst ` set (c_Services c)"
  shows "\<exists>c1 c2 c3 a. client_Close c = Ret c1 \<and> c_status c1 = clientOffline \<and>
    start_step gc U ReadFails (c1, Reading s) = Ret (c2, Picking) \<and>
    start_step gc U (Pick ks1 ks2 True True) (c2, Picking) = Ret (c3, Looping a) \<and>
    c_status c3 = clientOnline \<and>
    c_node c3 = Some \<lparr>n_conn = Some \<lparr>tc_open = True, tc_writes = map client_setPro (c_topics c)\<rparr>, n_status = nodeOnline\<rparr>"
proof -
  define n1 where "n1 = \<lparr>n_conn = Some (k\<lparr>tc_open := False\<rparr>), n_status = nodeOffline\<rparr>"
  define c1 where "c1 = c\<lparr>c_node := Some n1, c_status := clientOffline\<rparr>"
  define c2 where "c2 = c1\<lparr>c_heap := (c_heap c1)(s := (c_heap c1 s)\<lparr>sn_offline := True\<rparr>)\<rparr>"
  have "client_Close c = Ret c1"
    using assms(1,2)
    by (simp add: client_Close_def disconnect_def c1_def n1_def client_flags flags_simp Let_def)
  moreover have "start_step gc U ReadFails (c1, Reading s) = Ret (c2, Picking)"
    by (simp add: disconnect_def c2_def c1_def n1_def client_flags flags_simp)
  moreover have "usable c2 x" using assms(3,4) by (simp add: usable_def c2_def c1_def)
  then have "\<exists>c3 a. pick gc ks1 ks2 True True c2 = Ret (c3, Looping a) \<and> usable c2 a \<and> c_status c3 = clientOnline \<and>
      c_node c3 = Some \<lparr>n_conn = Some \<lparr>tc_open = True, tc_writes = map client_setPro (c_topics c2)\<rparr>, n_status = nodeOnline\<rparr>"
    using assms(5,6)
    by (intro pick_succeeds [where n = n1])
      (simp_all add: c2_def c1_def n1_def client_flags flags_simp)
  ultimately show ?thesis by (auto simp: c2_def c1_def)
qed

definition demo_reading :: "bytes Client" where
  "demo_reading = demo_client\<lparr>c_status := clientOnline, c_topics := [''t''],
     c_node := Some \<lparr>n_conn = Some \<lparr>tc_open = True, tc_writes = []\<rparr>, n_status = nodeOnline\<rparr>\<rparr>"

theorem closed_client_reconnects_witness:
  "\<exists>c1 c2 c3 a. client_Close demo_reading = Ret c1 \<and> c_status c1 = clientOffline \<and>
    start_step (\<lambda>_ _. 0) id ReadFails (c1, Reading 0) = Ret (c2, Picking) \<and>
    start_step (\<lambda>_ _. 0) id (Pick [''a:1'', ''b:2''] [''a:1'', ''b:2''] True True) (c2, Picking) = Ret (c3, Looping a) \<and>
    c_status c3 = clientOnline \<and>
    c_node c3 = Some \<lparr>n_conn = Some \<lparr>tc_open = True, tc_writes = map client_setPro (c_topics demo_reading)\<rparr>, n_status = nodeOnline\<rparr>"
  by (rule closed_client_reconnects [where x = 1])
    (auto simp: demo_reading_def demo_client_def new_server_def newClient_def usable_def)

text \<open>A sequence of answers.\<close>

fun start_run :: "connects_fn \<Rightarrow> (bytes \<Rightarrow> 'j) \<Rightarrow> answer list \<Rightarrow> 'j Client \<times> pc \<Rightarrow> ('j Client \<times> pc) go" where
  "start_run gc U [] s = Ret s"
| "start_run gc U (a # as) s = go_bind (start_step gc U a s) (start_run gc U as)"

lemma pick_nothing_usable: "\<forall>a. \<not> usable c a \<Longrightarrow> start_step gc U an (c, Picking) = Ret (c, Picking)"
  by (cases an) (simp_all add: pick_def getServer_None)

lemma run_nothing_usable: "\<forall>a. \<not> usable c a \<Longrightarrow> start_run gc U as (c, Picking) = Ret (c, Picking)"
  by (induction as) (simp_all add: pick_nothing_usable)

text \<open>
  A server that has failed once is never used again: no statement takes the mark
  \<open>offline\<close> back. A client with a single server stays disconnected for good after one failed
  read, whatever the network does later, and a renewed announcement of the same address by
  Consul changes nothing.
\<close>

theorem single_server_never_reconnects:
  assumes "c_node c = Some \<lparr>n_conn = Some k, n_status = nodeOnline\<rparr>"
    and "c_Services c = [(ip @ '':'' @ dec_int port, s)]"
  shows "\<exists>c'. start_step gc U ReadFails (c, Reading s) = Ret (c', Picking) \<and>
    (\<forall>as. start_run gc U as (c', Picking) = Ret (c', Picking)) \<and> on_change ip port EV_ADD c' = c'"
proof -
  define n1 where "n1 = \<lparr>n_conn = Some (k\<lparr>tc_open := False\<rparr>), n_status = nodeOffline\<rparr>"
  define c' where "c' = c\<lparr>c_node := Some n1, c_heap := (c_heap c)(s := (c_heap c s)\<lparr>sn_offline := True\<rparr>)\<rparr>"
  have "start_step gc U ReadFails (c, Reading s) = Ret (c', Picking)"
    using assms(1) by (simp add: disconnect_def c'_def n1_def client_flags flags_simp Let_def)
  moreover have "\<forall>a. \<not> usable c' a" using assms(2) by (auto simp: usable_def c'_def split: if_splits)
  moreover have "on_change ip port EV_ADD c' = c'"
    using assms(2) by (simp add: on_change_def c'_def EV_ADD_def EV_DELETE_def)
  ultimately show ?thesis using run_nothing_usable by blast
qed

theorem single_server_never_reconnects_witness:
  "\<exists>c'. start_step (\<lambda>_ _. 0) id ReadFails (demo_reading\<lparr>c_Services := [(''a'' @ '':'' @ dec_int 1, 0)]\<rparr>, Reading 0) =
      Ret (c', Picking) \<and>
    (\<forall>as. start_run (\<lambda>_ _. 0) id as (c', Picking) = Ret (c', Picking)) \<and> on_change ''a'' 1 EV_ADD c' = c'"
  by (rule single_server_never_reconnects) (simp_all add: demo_reading_def)

section \<open>The stream of events\<close>

fun client_feed :: "(bytes \<Rightarrow> 'j) \<Rightarrow> bytes list \<Rightarrow> 'j Client \<Rightarrow> 'j Client go" where
  "client_feed U [] c = Ret c"
| "client_feed U (m # ms) c = go_bind (client_onMessage U m c) (client_feed U ms)"

text \<open>What the client is meant to do with a frame.\<close>

definition deliver :: "(bytes \<Rightarrow> 'j) \<Rightarrow> nat \<times> bytes \<Rightarrow> 'j Client \<Rightarrow> 'j Client" where
  "deliver U f c =
     (if fst f = CMD_EVENT
      then c\<lparr>c_times := c_times c + 1, c_events := c_events c @ map (\<lambda>g. (g, U (snd f))) (c_onevent c)\<rparr> else c)"

lemma c_buffer_deliver [simp]:
  "c_buffer (deliver U f c) = c_buffer c"
  "deliver U f (c\<lparr>c_buffer := b\<rparr>) = (deliver U f c)\<lparr>c_buffer := b\<rparr>"
  by (simp_all add: deliver_def)

lemma fold_deliver_buffer [simp]:
  "fold (deliver U) fs (c\<lparr>c_buffer := b\<rparr>) = (fold (deliver U) fs c)\<lparr>c_buffer := b\<rparr>"
  by (induction fs arbitrary: c) simp_all

lemma fold_deliver_keeps [simp]: "c_buffer (fold (deliver U) fs c) = c_buffer c"
  by (induction fs arbitrary: c) simp_all

lemma fold_deliver:
  "fold (deliver U) fs c =
     (let es = filter (\<lambda>f. fst f = CMD_EVENT) fs
      in c\<lparr>c_times := c_times c + of_nat (length es),
           c_events := c_events c @ concat (map (\<lambda>f. map (\<lambda>g. (g, U (snd f))) (c_onevent c)) es)\<rparr>)"
  by (induction fs arbitrary: c) (simp_all add: deliver_def Let_def add.assoc)

lemma client_loop_step:
  assumes "wire_next (c_buffer c) = Some (f, n)" and "hasCmd (fst f)"
  shows "client_loop U c = client_loop U ((deliver U f c)\<lparr>c_buffer := drop n (c_buffer c)\<rparr>)"
proof -
  let ?buf = "c_buffer c"
  from wire_next_SomeD [OF assms(1)]
  have n: "6 \<le> n" "n \<le> length ?buf" "le_nat (take 4 ?buf) = n - 4"
    and f: "f = (le_nat (take 2 (drop 4 ?buf)), take (n - 6) (drop 6 ?buf))"
    by auto
  have len: "6 \<le> length ?buf" using n by linarith
  have clen: "get32 (?buf ! 0) (?buf ! 1) (?buf ! 2) (?buf ! 3) = n - 4"
    using get32_take [of ?buf] len n(3) by simp
  have cmd: "get16 (?buf ! 4) (?buf ! 5) = fst f"
    using get16_take [of 4 ?buf] len f by simp
  have content: "sub ?buf 6 (4 + (n - 4)) = Ret (snd f)" using n f by simp
  show ?thesis
    unfolding client_loop.simps [of U c] Let_def clen cmd content
    using n len assms(2) by (simp add: deliver_def)
qed

lemma client_loop_wait:
  assumes "incomplete (c_buffer c)"
    and "6 \<le> length (c_buffer c) \<Longrightarrow> hasCmd (le_nat (take 2 (drop 4 (c_buffer c))))"
  shows "client_loop U c = Ret c"
  using assms get32_take [of "c_buffer c"] get16_take [of 4 "c_buffer c"]
  by (subst client_loop.simps) (auto simp: Let_def incomplete_def add.commute)

lemma client_loop_drain:
  assumes "\<forall>f \<in> set (fst (drain wire_next (c_buffer c))). hasCmd (fst f)"
    and "incomplete (snd (drain wire_next (c_buffer c)))"
    and "6 \<le> length (snd (drain wire_next (c_buffer c))) \<Longrightarrow>
      hasCmd (le_nat (take 2 (drop 4 (snd (drain wire_next (c_buffer c))))))"
  shows "client_loop U c =
    Ret ((fold (deliver U) (fst (drain wire_next (c_buffer c))) c)\<lparr>c_buffer := snd (drain wire_next (c_buffer c))\<rparr>)"
  using assms
proof (induction "length (c_buffer c)" arbitrary: c rule: less_induct)
  case less
  show ?case
  proof (cases "wire_next (c_buffer c)")
    case None
    then show ?thesis using less.prems by (simp add: client_loop_wait)
  next
    case (Some fn)
    then obtain f n where nx: "wire_next (c_buffer c) = Some (f, n)" by (cases fn) auto
    note d = wire.drain_unfold [OF nx]
    have n: "0 < n" "n \<le> length (c_buffer c)" using wire.nxt_bounds [OF nx] by simp_all
    from less.hyps [of "(deliver U f c)\<lparr>c_buffer := drop n (c_buffer c)\<rparr>"] n less.prems d
    show ?thesis using client_loop_step [OF nx] by simp
  qed
qed

lemma client_feed_stream:
  assumes "\<forall>f \<in> set fs. wire_ok f \<and> hasCmd (fst f)" and "c_buffer c @ concat ms = concat (map wire_enc fs)"
    and "wire_next (c_buffer c) = None"
  shows "client_feed U ms c = Ret ((fold (deliver U) fs c)\<lparr>c_buffer := []\<rparr>)"
  using assms
proof (induction ms arbitrary: c fs)
  case Nil
  have "fs = []"
  proof (cases fs)
    case (Cons f fs')
    have "wire_next (wire_enc f @ concat (map wire_enc fs')) = Some (f, length (wire_enc f))"
      using Nil.prems(1) Cons by (intro wire.nxt_enc) simp
    with Nil.prems(2,3) Cons show ?thesis by simp
  qed
  with Nil.prems(2) show ?case by simp
next
  case (Cons m ms)
  let ?buf = "c_buffer c @ m"
  let ?r = "snd (drain wire_next ?buf)"
  have ok: "\<forall>f \<in> set fs. wire_ok f" using Cons.prems(1) by simp
  have "?buf @ concat ms = concat (map wire_enc fs)" using Cons.prems(2) by simp
  from wire.drain_prefix [OF ok this] obtain fs1 fs2 where fs: "fs = fs1 @ fs2"
    "fst (drain wire_next ?buf) = fs1" "?r @ concat ms = concat (map wire_enc fs2)"
    by blast
  have ok2: "\<forall>f \<in> set fs2. wire_ok f" using ok fs(1) by simp
  have none: "wire_next ?r = None" by (rule wire.drain_residue)
  have inc: "incomplete ?r" by (rule wire_residue_incomplete [OF ok2 fs(3) none])
  have cmd: "hasCmd (le_nat (take 2 (drop 4 ?r)))" if "6 \<le> length ?r"
  proof -
    note in_fs2 = wire_residue_cmd [OF ok2 fs(3) that]
    obtain f where "f \<in> set fs2" "le_nat (take 2 (drop 4 ?r)) = fst f"
      by (rule imageE [OF in_fs2])
    with Cons.prems(1) fs(1) show ?thesis by simp
  qed
  have "client_onMessage U m c = Ret ((fold (deliver U) fs1 c)\<lparr>c_buffer := ?r\<rparr>)"
    unfolding client_onMessage_def
    using client_loop_drain [of "c\<lparr>c_buffer := ?buf\<rparr>" U] inc cmd Cons.prems(1) fs(1,2) by simp
  moreover have "client_feed U ms ((fold (deliver U) fs1 c)\<lparr>c_buffer := ?r\<rparr>) =
      Ret ((fold (deliver U) fs2 (fold (deliver U) fs1 c))\<lparr>c_buffer := []\<rparr>)"
    using Cons.IH [of fs2 "(fold (deliver U) fs1 c)\<lparr>c_buffer := ?r\<rparr>"] Cons.prems(1) fs none by simp
  ultimately show ?case using fs(1) by simp
qed

text \<open>
  C14. The client hands on every event of the stream, once and in order, and nothing else,
  however TCP cuts the stream into reads: for a stream of frames with known commands, each
  callback gets exactly the contents of the \<open>CMD_EVENT\<close> frames, decoded, the callbacks in
  the order of their options, and the buffer is empty afterwards.
\<close>

theorem client_delivers_events:
  assumes "\<forall>f \<in> set fs. wire_ok f \<and> hasCmd (fst f)" and "concat ms = concat (map wire_enc fs)"
    and "c_buffer c = []"
  shows "client_feed U ms c =
    Ret (c\<lparr>c_buffer := [],
          c_times := c_times c + of_nat (length (filter (\<lambda>f. fst f = CMD_EVENT) fs)),
          c_events := c_events c @ concat (map (\<lambda>f. map (\<lambda>cb. (cb, U (snd f))) (c_onevent c))
            (filter (\<lambda>f. fst f = CMD_EVENT) fs))\<rparr>)"
proof -
  have "client_feed U ms c = Ret ((fold (deliver U) fs c)\<lparr>c_buffer := []\<rparr>)"
    by (rule client_feed_stream) (use assms in simp_all)
  then show ?thesis by (simp add: fold_deliver Let_def comp_def)
qed

theorem client_delivers_events_witness:
  "client_feed id [take 9 (Pack CMD_EVENT [1, 2] @ Pack CMD_TICK [9] @ Pack CMD_EVENT [3]),
      drop 9 (Pack CMD_EVENT [1, 2] @ Pack CMD_TICK [9] @ Pack CMD_EVENT [3])] (demo_client\<lparr>c_onevent := [7]\<rparr>) =
    Ret ((demo_client\<lparr>c_onevent := [7]\<rparr>)\<lparr>c_buffer := [], c_times := c_times demo_client + of_nat 2,
          c_events := c_events demo_client @ [(7, [1, 2]), (7, [3])]\<rparr>)"
  using client_delivers_events [of "[(CMD_EVENT, [1, 2]), (CMD_TICK, [9]), (CMD_EVENT, [3])]"
      "[take 9 (Pack CMD_EVENT [1, 2] @ Pack CMD_TICK [9] @ Pack CMD_EVENT [3]),
        drop 9 (Pack CMD_EVENT [1, 2] @ Pack CMD_TICK [9] @ Pack CMD_EVENT [3])]" "demo_client\<lparr>c_onevent := [7]\<rparr>" id]
  by (simp add: wire_ok_def wire_enc_def hasCmd_def cmd_defs demo_client_def new_server_def newClient_def)

end
