(* ===== verification/Consul_Watch.thy ===== *)
theory Consul_Watch
  imports Sub_Service Sub_Client
begin

text \<open>
  Watching the registry: \<^verbatim>\<open>src/consul/watch_service.go\<close> (the agents' view of their
  cluster) and \<^verbatim>\<open>src/client/watcher.go\<close> (the client library's view of the subscription
  servers). A watcher holds the service entries of its last query; a pass compares them with
  the entries of the next answer, which is an argument. Results: the events of a pass are the
  difference of the two answers, the client's table of servers follows the registry, and the
  client reads the number of connections a server publishes.
\<close>

section \<open>Differences of answers\<close>

fun id_found :: "string \<Rightarrow> service_entry list \<Rightarrow> bool" where
  "id_found i [] = False"
| "id_found i (vb # b) = (if i = ent_ID vb then True else id_found i b)"

fun getDelete :: "service_entry list \<Rightarrow> service_entry list \<Rightarrow> service_entry list" where
  "getDelete [] b = []"
| "getDelete (va # a) b = (if id_found (ent_ID va) b then getDelete a b else va # getDelete a b)"

fun changed_in :: "service_entry \<Rightarrow> service_entry list \<Rightarrow> service_entry option" where
  "changed_in va [] = None"
| "changed_in va (vb # b) =
     (if ent_ID va = ent_ID vb \<and> AggregatedStatus va \<noteq> AggregatedStatus vb then Some vb else changed_in va b)"

fun getChange :: "service_entry list \<Rightarrow> service_entry list \<Rightarrow> service_entry list" where
  "getChange [] b = []"
| "getChange (va # a) b =
     (case changed_in va b of None \<Rightarrow> getChange a b | Some vb \<Rightarrow> vb # getChange a b)"

lemma id_found_iff [simp]: "id_found i b \<longleftrightarrow> i \<in> ent_ID ` set b"
  by (induction b) auto

lemma getDelete_filter: "getDelete a b = filter (\<lambda>v. ent_ID v \<notin> ent_ID ` set b) a"
  by (induction a) auto

lemma changed_in_None:
  "changed_in va b = None \<longleftrightarrow> (\<forall>vb \<in> set b. ent_ID vb = ent_ID va \<longrightarrow> AggregatedStatus vb = AggregatedStatus va)"
  by (induction b) auto

lemma changed_in_SomeD:
  "changed_in va b = Some vb \<Longrightarrow> vb \<in> set b \<and> ent_ID vb = ent_ID va \<and> AggregatedStatus vb \<noteq> AggregatedStatus va"
  by (induction b) (auto split: if_splits)

lemma set_getChange: "set (getChange a b) = {vb. \<exists>va \<in> set a. changed_in va b = Some vb}"
  by (induction a) (auto split: option.splits)


section \<open>The agents' watcher\<close>

definition EventStatusChange :: int where "EventStatusChange = 1"
definition EventDelete :: int where "EventDelete = 2"
definition EventAdd :: int where "EventAdd = 3"

definition watch_member :: "service_entry \<Rightarrow> ServiceMember" where
  "watch_member u =
     \<lparr>IsLeader = (length (ent_Tags u) > 0 \<and> hd (ent_Tags u) = ''isleader:true''),
      mem_ServiceID = ent_ID u,
      mem_Status = (if AggregatedStatus u = ''passing'' then statusOnline else statusOffline),
      mem_ServiceIP = ent_Address u, mem_Port = ent_Port u\<rparr>"

record WatchService =
  ws_addrs :: "service_entry list option"
  ws_li :: nat

type_synonym watch_event = "int \<times> ServiceMember"

definition ws_dialChange :: "service_entry list \<Rightarrow> service_entry list \<Rightarrow> watch_event list" where
  "ws_dialChange old addrs = map (\<lambda>u. (EventStatusChange, watch_member u)) (getChange old addrs)"

definition ws_dialAdd :: "service_entry list \<Rightarrow> service_entry list \<Rightarrow> watch_event list" where
  "ws_dialAdd old addrs = map (\<lambda>u. (EventAdd, watch_member u)) (getDelete addrs old)"

definition ws_dialDelete :: "service_entry list \<Rightarrow> service_entry list \<Rightarrow> watch_event list" where
  "ws_dialDelete old addrs = map (\<lambda>u. (EventDelete, watch_member u)) (getDelete old addrs)"

text \<open>An answer to a query: an error, or the entries (\<open>None\<close> is a nil slice) and the index.\<close>

datatype query_answer = QueryErr g_error | QueryOk "service_entry list option" nat

text \<open>A pass of \<open>Watch\<close>: the first answers fill the cache, later ones are compared with it.
  The result begins with the calls of \<open>watch\<close>.\<close>

fun watch_turn :: "query_answer \<Rightarrow> WatchService \<Rightarrow> watch_event list \<times> WatchService" where
  "watch_turn (QueryErr e) cw = ([], cw)"
| "watch_turn (QueryOk addrs li) cw =
     (case ws_addrs cw of
        None \<Rightarrow> ([], cw\<lparr>ws_addrs := addrs, ws_li := li\<rparr>)
      | Some old \<Rightarrow>
          let new = (case addrs of None \<Rightarrow> [] | Some a \<Rightarrow> a)
          in (ws_dialAdd old new @ ws_dialDelete old new @ ws_dialChange old new,
              cw\<lparr>ws_addrs := Some new, ws_li := li\<rparr>))"

text \<open>The ids of the members an event is reported for.\<close>

definition ids_of :: "int \<Rightarrow> watch_event list \<Rightarrow> string set" where
  "ids_of e evs = (\<lambda>(_, m). mem_ServiceID m) ` {ev \<in> set evs. fst ev = e}"

lemma ids_of_append [simp]: "ids_of e (a @ b) = ids_of e a \<union> ids_of e b"
  by (auto simp: ids_of_def)

lemma ids_of_map [simp]:
  "ids_of e (map (\<lambda>u. (e', watch_member u)) us) = (if e = e' then ent_ID ` set us else {})"
  by (force simp: ids_of_def watch_member_def)

text \<open>
  The cluster watcher reports exactly the differences of two successive answers: a member
  is announced as added, deleted or changed if and only if its id is new, gone, or in both
  with another aggregated status; and the cache is the last answer.
\<close>

theorem watch_events_are_the_difference:
  assumes "ws_addrs cw = Some old" and "watch_turn (QueryOk (Some new) li) cw = (evs, cw')"
  shows "ws_addrs cw' = Some new \<and>
    ids_of EventAdd evs = ent_ID ` set new - ent_ID ` set old \<and>
    ids_of EventDelete evs = ent_ID ` set old - ent_ID ` set new \<and>
    ids_of EventStatusChange evs =
      {ent_ID v | v. v \<in> set new \<and> (\<exists>u \<in> set old. ent_ID u = ent_ID v \<and> AggregatedStatus u \<noteq> AggregatedStatus v)}"
proof -
  have evs: "evs = ws_dialAdd old new @ ws_dialDelete old new @ ws_dialChange old new"
    and cw': "ws_addrs cw' = Some new"
    using assms by (auto simp: Let_def)
  note ev_defs = EventAdd_def EventDelete_def EventStatusChange_def ws_dialAdd_def ws_dialDelete_def
    ws_dialChange_def
  have add: "ids_of EventAdd evs = ent_ID ` set new - ent_ID ` set old"
    unfolding evs by (auto simp: ev_defs getDelete_filter)
  have del: "ids_of EventDelete evs = ent_ID ` set old - ent_ID ` set new"
    unfolding evs by (auto simp: ev_defs getDelete_filter)
  have "ids_of EventStatusChange evs = ent_ID ` set (getChange old new)"
    unfolding evs by (auto simp: ev_defs)
  also have "\<dots> = {ent_ID v | v. v \<in> set new \<and> (\<exists>u \<in> set old. ent_ID u = ent_ID v \<and> AggregatedStatus u \<noteq> AggregatedStatus v)}"
  proof (intro equalityI subsetI)
    fix i assume "i \<in> ent_ID ` set (getChange old new)"
    then obtain va vb where "va \<in> set old" "changed_in va new = Some vb" "i = ent_ID vb"
      by (auto simp: set_getChange)
    with changed_in_SomeD [of va new vb] show "i \<in> {ent_ID v | v. v \<in> set new \<and>
        (\<exists>u \<in> set old. ent_ID u = ent_ID v \<and> AggregatedStatus u \<noteq> AggregatedStatus v)}"
      by (auto intro!: exI [of _ vb] bexI [of _ va])
  next
    fix i assume "i \<in> {ent_ID v | v. v \<in> set new \<and>
        (\<exists>u \<in> set old. ent_ID u = ent_ID v \<and> AggregatedStatus u \<noteq> AggregatedStatus v)}"
    then obtain u v where uv: "v \<in> set new" "u \<in> set old" "ent_ID u = ent_ID v"
      "AggregatedStatus u \<noteq> AggregatedStatus v" "i = ent_ID v" by blast
    then have "changed_in u new \<noteq> None" using changed_in_None [of u new] by auto
    then obtain vb where "changed_in u new = Some vb" by blast
    note vb = this changed_in_SomeD [OF this]
    then have "vb \<in> set (getChange old new)" using uv by (auto simp: set_getChange)
    then show "i \<in> ent_ID ` set (getChange old new)"
      using vb uv by (intro image_eqI [of _ _ vb]) simp_all
  qed
  finally show ?thesis using cw' add del by simp
qed

definition demo_entry :: "nat \<Rightarrow> string \<Rightarrow> service_entry" where
  "demo_entry i st = \<lparr>ent_ID = dec i, ent_Address = ''10.0.0.1'', ent_Port = int i, ent_Tags = [''isleader:false''],
     AggregatedStatus = st\<rparr>"

theorem watch_events_are_the_difference_witness:
  "ids_of EventAdd (fst (watch_turn (QueryOk (Some [demo_entry 2 ''passing'', demo_entry 3 ''passing'']) 8)
      \<lparr>ws_addrs = Some [demo_entry 1 ''passing'', demo_entry 2 ''critical''], ws_li = 7\<rparr>)) =
    ent_ID ` set [demo_entry 2 ''passing'', demo_entry 3 ''passing''] -
    ent_ID ` set [demo_entry 1 ''passing'', demo_entry 2 ''critical'']"
proof -
  let ?old = "[demo_entry 1 ''passing'', demo_entry 2 ''critical'']"
  let ?new = "[demo_entry 2 ''passing'', demo_entry 3 ''passing'']"
  have "watch_turn (QueryOk (Some ?new) 8) \<lparr>ws_addrs = Some ?old, ws_li = 7\<rparr> =
      (fst (watch_turn (QueryOk (Some ?new) 8) \<lparr>ws_addrs = Some ?old, ws_li = 7\<rparr>),
       snd (watch_turn (QueryOk (Some ?new) 8) \<lparr>ws_addrs = Some ?old, ws_li = 7\<rparr>))"
    by (rule prod.collapse [symmetric])
  from watch_events_are_the_difference [OF _ this, of ?old] show ?thesis by simp
qed


section \<open>The client's watcher\<close>

record ConsulWatcher =
  cw_li :: nat
  cw_addrs :: "service_entry list"

definition entry_key :: "service_entry \<Rightarrow> string" where
  "entry_key u = ent_Address u @ '':'' @ dec_int (ent_Port u)"

text \<open>\<open>dialDelete\<close> and \<open>dialAdd\<close>, with the one callback the client installs.\<close>

definition cw_dialDelete :: "service_entry list \<Rightarrow> ConsulWatcher \<Rightarrow> 'j Client \<Rightarrow> 'j Client" where
  "cw_dialDelete addrs cw c =
     fold (\<lambda>u. on_change (ent_Address u) (ent_Port u) EV_DELETE) (getDelete (cw_addrs cw) addrs) c"

definition cw_dialAdd :: "service_entry list \<Rightarrow> ConsulWatcher \<Rightarrow> 'j Client \<Rightarrow> 'j Client" where
  "cw_dialAdd addrs cw c =
     fold (\<lambda>u. on_change (ent_Address u) (ent_Port u) EV_ADD) (getDelete addrs (cw_addrs cw)) c"

fun process_turn :: "query_answer \<Rightarrow> ConsulWatcher \<times> 'j Client \<Rightarrow> ConsulWatcher \<times> 'j Client" where
  "process_turn (QueryErr e) (cw, c) = (cw, c)"
| "process_turn (QueryOk addrs li) (cw, c) =
     (let new = (case addrs of None \<Rightarrow> [] | Some a \<Rightarrow> a)
      in (cw\<lparr>cw_addrs := new, cw_li := li\<rparr>, cw_dialAdd new cw (cw_dialDelete new cw c)))"

text \<open>\<open>getMembers\<close> and what \<open>NewClient\<close> does with the members.\<close>

fun getMembers :: "query_answer \<Rightarrow> ConsulWatcher \<Rightarrow> service_entry list \<times> ConsulWatcher" where
  "getMembers (QueryErr e) cw = ([], cw)"
| "getMembers (QueryOk addrs li) cw =
     (let c = (case addrs of None \<Rightarrow> [] | Some a \<Rightarrow> a) in (c, cw\<lparr>cw_addrs := c, cw_li := li\<rparr>))"

definition add_member :: "service_entry \<Rightarrow> 'j Client \<Rightarrow> 'j Client" where
  "add_member m c =
     (let s = entry_key m
      in if map_of (c_Services c) s = None then new_server s (ent_Address m) (ent_Port m) c else c)"

definition NewClient_members :: "query_answer \<Rightarrow> ConsulWatcher \<times> 'j Client \<Rightarrow> ConsulWatcher \<times> 'j Client" where
  "NewClient_members ans s =
     (let (members, cw') = getMembers ans (fst s) in (cw', fold add_member members (snd s)))"

text \<open>
  \<open>queryConsul\<close> with the index of its answer (which only says how long the next query
  waits), a new watcher, and \<open>NewClient\<close>: the options in order, then the dispatch on where
  the servers come from. The result is the client its goroutine \<open>start\<close> begins with, and
  the watcher, if there is one; \<open>NewClient\<close> itself returns once \<open>c_wi_closed\<close> is set.
  The watcher's goroutine runs \<open>process_turn\<close> from then on.
\<close>

definition watched_service :: string where "watched_service = ''wing-binlog-go-subscribe''"

definition cw_queryConsul :: "'c api \<Rightarrow> nat \<Rightarrow> 'c \<Rightarrow> query_answer \<times> 'c" where
  "cw_queryConsul api li c =
     (let ((cs, err), c') = HealthService api watched_service True c
      in (case err of Some e \<Rightarrow> QueryErr e | None \<Rightarrow> QueryOk (Some cs) li, c'))"

definition newWatch :: ConsulWatcher where
  "newWatch = \<lparr>cw_li = 0, cw_addrs = []\<rparr>"

definition NewClient ::
  "'c api \<Rightarrow> nat \<Rightarrow> ('j Client \<Rightarrow> 'j Client go) list \<Rightarrow> 'c \<Rightarrow> (ConsulWatcher option \<times> 'j Client) go \<times> 'c" where
  "NewClient api li opts c =
     (case each (\<lambda>f. f) opts newClient of
        Panic p \<Rightarrow> (Panic p, c)
      | Block \<Rightarrow> (Block, c)
      | Ret client \<Rightarrow>
          if length (c_Services client) > 0 then (Ret (None, client), c)
          else if c_consulAddress client \<noteq> []
          then let (ans, c') = cw_queryConsul api li c;
                   (w, client') = NewClient_members ans (newWatch, client)
               in (Ret (Some w, client'), c')
          else (Panic ExplicitPanic, c))"

abbreviation server_keys :: "'j Client \<Rightarrow> string set" where
  "server_keys c \<equiv> fst ` set (c_Services c)"

lemma keys_update: "fst ` set (AList.update k v al) = insert k (fst ` set al)"
  using dom_update [of k v al] by (simp add: dom_map_of_conv_image_fst)

lemma keys_delete: "fst ` set (AList.delete k al) = fst ` set al - {k}"
  by (auto simp: AList.delete_eq)

lemma server_keys_delete [simp]:
  "server_keys (on_change ip port EV_DELETE c) = server_keys c - {ip @ '':'' @ dec_int port}"
  by (simp add: on_change_def Let_def keys_delete)

lemma server_keys_add [simp]:
  "server_keys (on_change ip port EV_ADD c) = insert (ip @ '':'' @ dec_int port) (server_keys c)"
  by (auto simp: on_change_def Let_def new_server_def keys_update EV_ADD_def EV_DELETE_def
      map_of_eq_None_iff dest: map_of_SomeD intro: rev_image_eqI)

lemma server_keys_fold_delete:
  "server_keys (fold (\<lambda>u. on_change (ent_Address u) (ent_Port u) EV_DELETE) us c) =
     server_keys c - entry_key ` set us"
  by (induction us arbitrary: c) (auto simp: entry_key_def)

lemma server_keys_fold_add:
  "server_keys (fold (\<lambda>u. on_change (ent_Address u) (ent_Port u) EV_ADD) us c) =
     server_keys c \<union> entry_key ` set us"
  by (induction us arbitrary: c) (auto simp: entry_key_def)

text \<open>
  C26. The client's table of servers follows the registry: if it lists the addresses of the
  watcher's cached entries, then after a pass it lists those of the new answer, provided an id
  stands for one address, as it does for the ids the servers register.
\<close>

theorem services_follow_registry:
  assumes "server_keys c = entry_key ` set (cw_addrs cw)"
    and "\<forall>u \<in> set (cw_addrs cw) \<union> set new. \<forall>v \<in> set (cw_addrs cw) \<union> set new.
      ent_ID u = ent_ID v \<longleftrightarrow> entry_key u = entry_key v"
    and "process_turn (QueryOk (Some new) li) (cw, c) = (cw', c')"
  shows "server_keys c' = entry_key ` set new \<and> cw_addrs cw' = new"
proof -
  have c': "c' = cw_dialAdd new cw (cw_dialDelete new cw c)" and cw': "cw_addrs cw' = new"
    using assms(3) by (auto simp: Let_def)
  have "server_keys c' = entry_key ` set (cw_addrs cw) -
      entry_key ` set (getDelete (cw_addrs cw) new) \<union> entry_key ` set (getDelete new (cw_addrs cw))"
    by (simp add: c' cw_dialAdd_def cw_dialDelete_def server_keys_fold_add server_keys_fold_delete assms(1))
  moreover have sub: "set (getDelete new (cw_addrs cw)) \<subseteq> set new" by (auto simp: getDelete_filter)
  have "entry_key ` set (cw_addrs cw) - entry_key ` set (getDelete (cw_addrs cw) new) \<union>
      entry_key ` set (getDelete new (cw_addrs cw)) = entry_key ` set new"
  proof (intro equalityI subsetI)
    fix k
    assume "k \<in> entry_key ` set (cw_addrs cw) - entry_key ` set (getDelete (cw_addrs cw) new) \<union>
      entry_key ` set (getDelete new (cw_addrs cw))"
    then consider u where "u \<in> set (cw_addrs cw)" "k = entry_key u" "u \<notin> set (getDelete (cw_addrs cw) new)"
      | u where "u \<in> set new" "k = entry_key u"
      using sub by blast
    then show "k \<in> entry_key ` set new"
    proof cases
      case 1
      then have "ent_ID u \<in> ent_ID ` set new" by (simp add: getDelete_filter)
      then obtain v where "v \<in> set new" "ent_ID v = ent_ID u" by auto
      with assms(2) 1 show ?thesis by (auto intro!: image_eqI [of _ _ v])
    qed auto
  next
    fix k assume "k \<in> entry_key ` set new"
    then obtain v where v: "v \<in> set new" "k = entry_key v" by blast
    show "k \<in> entry_key ` set (cw_addrs cw) - entry_key ` set (getDelete (cw_addrs cw) new) \<union>
      entry_key ` set (getDelete new (cw_addrs cw))"
    proof (cases "ent_ID v \<in> ent_ID ` set (cw_addrs cw)")
      case False
      with v show ?thesis by (auto simp: getDelete_filter)
    next
      case True
      then obtain u where u: "u \<in> set (cw_addrs cw)" "ent_ID u = ent_ID v" by auto
      then have "k = entry_key u" using assms(2) v by auto
      moreover have "k \<notin> entry_key ` set (getDelete (cw_addrs cw) new)"
        using assms(2) v by (force simp: getDelete_filter)
      ultimately show ?thesis using u by blast
    qed
  qed
  ultimately show ?thesis using cw' by simp
qed

theorem services_follow_registry_witness:
  "server_keys (snd (process_turn (QueryOk (Some [demo_entry 2 ''passing'']) 8)
      (\<lparr>cw_li = 7, cw_addrs = [demo_entry 1 ''passing'']\<rparr>,
       add_member (demo_entry 1 ''passing'') (newClient :: bytes Client)))) = entry_key ` set [demo_entry 2 ''passing'']"
proof -
  let ?cw = "\<lparr>cw_li = 7, cw_addrs = [demo_entry 1 ''passing'']\<rparr>"
  let ?c = "add_member (demo_entry 1 ''passing'') (newClient :: bytes Client)"
  let ?r = "process_turn (QueryOk (Some [demo_entry 2 ''passing'']) 8) (?cw, ?c)"
  have keys: "server_keys ?c = entry_key ` set (cw_addrs ?cw)"
    by (simp add: add_member_def new_server_def newClient_def Let_def)
  have ids: "\<forall>u \<in> set (cw_addrs ?cw) \<union> set [demo_entry 2 ''passing''].
      \<forall>v \<in> set (cw_addrs ?cw) \<union> set [demo_entry 2 ''passing'']. ent_ID u = ent_ID v \<longleftrightarrow> entry_key u = entry_key v"
    using dec_inj [of 1 2] dec_inj [of 2 1] by (auto simp: demo_entry_def entry_key_def dec_int_def)
  show ?thesis
    using services_follow_registry [OF keys ids prod.collapse [symmetric]] by (rule conjunct1)
qed

section \<open>The number of connections\<close>

text \<open>\<open>getConnects\<close>; \<open>binary.LittleEndian.Uint64\<close> reads eight bytes and panics on fewer.
  The pair of a missing key is nil.\<close>

definition Uint64 :: "bytes \<Rightarrow> 64 word go" where
  "Uint64 b = (if length b < 8 then Panic IndexOutOfRange else Ret (word_of_nat (le_nat (take 8 b))))"

definition getConnects :: "'c api \<Rightarrow> string \<Rightarrow> int \<Rightarrow> 'c \<Rightarrow> 64 word go \<times> 'c" where
  "getConnects api ip port c =
     (let ((k, err), c1) = KvGet api (connects_key ip port) c
      in (if err \<noteq> None then Ret 0
          else case k of None \<Rightarrow> Panic NilDereference | Some p \<Rightarrow> Uint64 (Value p), c1))"

lemma Uint64_PutUint64 [simp]: "Uint64 (PutUint64 v) = Ret v"
proof -
  have "unat v < 2 ^ 64" using unsigned_less [of v] by simp
  then show ?thesis by (simp add: Uint64_def PutUint64_def)
qed

text \<open>What Consul promises about a key that has been put.\<close>

definition kv_law :: "'c api \<Rightarrow> bool" where
  "kv_law api \<longleftrightarrow>
     (\<forall>p c c'. KvPut api p c = (None, c') \<longrightarrow>
        KvGet api (Key p) c' = ((Some p, None), c') \<and>
        (\<forall>i n s. KvGet api (Key p) (snd (UpdateTTL api i n s c')) =
           ((Some p, None), snd (UpdateTTL api i n s c'))))"

text \<open>
  A client reads the load a server published: after a pass of the server's
  \<open>updateTTL\<close> whose write Consul accepts, \<open>getConnects\<close> for the address the server
  registered under returns its number of connections, all 64 bits of it.
\<close>

theorem getConnects_reads_updateTTL:
  assumes "kv_law api"
    and "fst (KvPut api \<lparr>Key = connects_key (ss_ip s) (ss_ServicePort s), Value = PutUint64 count, Session = sess\<rparr>
      (snd (SessionRenew api sess c))) = None"
  shows "fst (getConnects api (ss_ip s) (ss_ServicePort s) (updateTTL_turn api sess s count c)) = Ret count"
proof -
  define p where "p = \<lparr>Key = connects_key (ss_ip s) (ss_ServicePort s), Value = PutUint64 count, Session = sess\<rparr>"
  obtain c2 where put: "KvPut api p (snd (SessionRenew api sess c)) = (None, c2)"
    using assms(2) unfolding p_def [symmetric] by (metis prod.collapse)
  have p: "Key p = connects_key (ss_ip s) (ss_ServicePort s)" "Value p = PutUint64 count" by (simp_all add: p_def)
  define c3 where "c3 = updateTTL_turn api sess s count c"
  have "c3 = c2 \<or> (\<exists>i n t. c3 = snd (UpdateTTL api i n t c2))"
    using put by (auto simp: c3_def updateTTL_turn_def case_prod_beta p_def [symmetric] Let_def)
  with assms(1) put have "KvGet api (Key p) c3 = ((Some p, None), c3)"
    unfolding kv_law_def by auto
  then show ?thesis using p by (simp add: getConnects_def c3_def [symmetric])
qed

lemma consul_kv_law: "kv_law consul_api"
  by (simp add: kv_law_def consul_api_def)

definition demo_sub_service :: SubService where
  "demo_sub_service = \<lparr>ss_ServiceName = SubServiceName, ss_ServiceHost = ''10.0.0.1'', ss_ServiceIP = [],
     ss_ServicePort = 9990, ss_Interval = 10, ss_TTL = 15, ss_ServiceID = ''id'', ss_status = Registered\<rparr>"

theorem getConnects_reads_updateTTL_witness:
  "fst (getConnects consul_api ''10.0.0.1'' 9990 (updateTTL_turn consul_api ''0'' demo_sub_service 3 no_consul)) = Ret 3"
  using getConnects_reads_updateTTL [OF consul_kv_law, of demo_sub_service 3 "''0''" no_consul]
  by (simp add: demo_sub_service_def ss_ip_def consul_api_def)

text \<open>A server that has not published yet: the client's lookup dereferences nil.\<close>

lemma getConnects_missing:
  "KvGet api (connects_key ip port) c = ((None, None), c') \<Longrightarrow> getConnects api ip port c = (Panic NilDereference, c')"
  by (simp add: getConnects_def)

section \<open>The watcher of a key prefix\<close>

text \<open>\<^verbatim>\<open>src/consul/watch_kv.go\<close>: the pass that fetches the first index and a pass of the
  loop, with the values handed to \<open>watch\<close>. An answer is an error, or the pairs and the
  index.\<close>

datatype list_answer = ListErr g_error | ListOk "kv_pair list" nat

fun watch_kv_first :: "list_answer \<Rightarrow> nat option" where
  "watch_kv_first (ListErr e) = None"
| "watch_kv_first (ListOk kp i) = Some i"

fun watch_kv_turn :: "list_answer \<Rightarrow> nat \<Rightarrow> bytes list \<times> nat" where
  "watch_kv_turn (ListErr e) lastIndex = ([], lastIndex)"
| "watch_kv_turn (ListOk kp i) lastIndex = (filter (\<lambda>v. length v \<noteq> 0) (map Value kp), i)"

end
