(* ===== verification/Client_Machine.thy ===== *)
theory Client_Machine
  imports Consul_Watch
begin

text \<open>
  The subscription client as a whole: everything its goroutines, the watcher and the
  application can do, in any order, as the step relation \<open>sub_step\<close> from the states
  \<open>NewClient\<close> returns. Results: the type invariant of the client's state and which of its
  operations can panic, what \<open>NewClient\<close> waits for, and what a broken connection leaves
  behind in the buffer.
\<close>

section \<open>Steps\<close>

text \<open>The options the library offers.\<close>

inductive client_option :: "('j Client \<Rightarrow> 'j Client go) \<Rightarrow> bool" where
  on_event: "client_option (OnEventOption f)"
| services: "client_option (SetServices ss)"
| address: "client_option (SetConsulAddress a)"

inductive sub_step :: "connects_fn \<Rightarrow> (bytes \<Rightarrow> 'j) \<Rightarrow> 'j Client \<times> pc \<Rightarrow> 'j Client \<times> pc \<Rightarrow> bool" for gc U where
  goroutine: "start_step gc U an (c, p) = Ret s \<Longrightarrow> sub_step gc U (c, p) s"
| heartbeat: "client_keepalive err c = Ret c' \<Longrightarrow> sub_step gc U (c, p) (c', p)"
| subscribe: "Subscribe ts c = Ret c' \<Longrightarrow> sub_step gc U (c, p) (c', p)"
| close: "client_Close c = Ret c' \<Longrightarrow> sub_step gc U (c, p) (c', p)"
| change: "sub_step gc U (c, p) (on_change ip port ev c, p)"

text \<open>A pass of the watcher is a sequence of such changes.\<close>

lemma watcher_steps: "(sub_step gc U)\<^sup>*\<^sup>* (c, p) (fold (\<lambda>u. on_change (ent_Address u) (ent_Port u) ev) us c, p)"
  by (induction us arbitrary: c) (auto intro: sub_step.change converse_rtranclp_into_rtranclp)

lemma process_steps:
  "process_turn ans (cw, c) = (cw', c') \<Longrightarrow> (sub_step gc U)\<^sup>*\<^sup>* (c, p) (c', p)"
  by (cases ans)
    (auto simp: Let_def cw_dialAdd_def cw_dialDelete_def intro: rtranclp_trans watcher_steps)


section \<open>The type invariant\<close>

text \<open>A node's status is one of its two flags; online, it has an open connection; offline, it
  has a closed one or none.\<close>

definition node_ok :: "Node \<Rightarrow> bool" where
  "node_ok n \<longleftrightarrow>
     n_status n = nodeOnline \<and> (\<exists>k. n_conn n = Some k \<and> tc_open k) \<or>
     n_status n = nodeOffline \<and> (\<forall>k. n_conn n = Some k \<longrightarrow> \<not> tc_open k)"

definition table_ok :: "'j Client \<Rightarrow> bool" where
  "table_ok c \<longleftrightarrow> distinct (map fst (c_Services c)) \<and> distinct (map snd (c_Services c)) \<and>
     (\<forall>a \<in> snd ` set (c_Services c). a < c_fresh c)"

definition has_conn :: "'j Client \<Rightarrow> bool" where
  "has_conn c \<longleftrightarrow> (\<exists>n k. c_node c = Some n \<and> n_conn n = Some k)"

fun pc_ok :: "'j Client \<Rightarrow> pc \<Rightarrow> bool" where
  "pc_ok c (Looping a) \<longleftrightarrow> has_conn c \<and> c_wi_closed c"
| "pc_ok c (Reading a) \<longleftrightarrow> has_conn c \<and> c_wi_closed c"
| "pc_ok c Picking \<longleftrightarrow> True"
| "pc_ok c Stopped \<longleftrightarrow> c_wi_closed c"

definition client_ok :: "'j Client \<Rightarrow> bool" where
  "client_ok c \<longleftrightarrow> (\<forall>n. c_node c = Some n \<longrightarrow> node_ok n) \<and> c_status c \<in> {clientOffline, clientOnline} \<and>
     (c_node c = None \<longrightarrow> c_status c = clientOffline \<and> \<not> c_wi_closed c \<and> c_topics c = []) \<and>
     distinct (c_topics c) \<and> table_ok c"

text \<open>Operations that leave the node's shape and the rest of the client alone.\<close>

definition same_shape :: "'j Client \<Rightarrow> 'j Client \<Rightarrow> bool" where
  "same_shape c c' \<longleftrightarrow> c_status c' = c_status c \<and> c_wi_closed c' = c_wi_closed c \<and>
     c_Services c' = c_Services c \<and> c_fresh c' = c_fresh c \<and>
     (case c_node c of
        None \<Rightarrow> c_node c' = None
      | Some n \<Rightarrow> \<exists>n'. c_node c' = Some n' \<and> n_status n' = n_status n \<and>
          map_option tc_open (n_conn n') = map_option tc_open (n_conn n))"

lemma same_shape_refl [simp]: "same_shape c c"
  by (simp add: same_shape_def split: option.split)

lemma same_shape_trans [trans]: "same_shape a b \<Longrightarrow> same_shape b c \<Longrightarrow> same_shape a c"
  by (auto simp: same_shape_def split: option.splits)

lemma map_option_conv:
  "map_option f x = map_option f y \<Longrightarrow> y = Some b \<Longrightarrow> \<exists>a. x = Some a \<and> f a = f b"
  by auto

lemma same_shape_ok:
  assumes "same_shape c c'" and "client_ok c" and "distinct (c_topics c')" and "c_node c = None \<longrightarrow> c_topics c' = []"
  shows "client_ok c'"
proof -
  have "node_ok n'" if n': "c_node c' = Some n'" for n'
  proof -
    obtain n where n: "c_node c = Some n" "n_status n' = n_status n"
      "map_option tc_open (n_conn n') = map_option tc_open (n_conn n)"
      using assms(1) n' by (auto simp: same_shape_def split: option.splits)
    then have "node_ok n" using assms(2) by (simp add: client_ok_def)
    with n(2,3) show ?thesis by (cases "n_conn n"; cases "n_conn n'") (simp_all add: node_ok_def)
  qed
  moreover have "c_node c' = None \<longleftrightarrow> c_node c = None" using assms(1) by (auto simp: same_shape_def split: option.splits)
  ultimately show ?thesis
    using assms by (simp add: client_ok_def same_shape_def table_ok_def)
qed

lemma same_shape_conn: "same_shape c c' \<Longrightarrow> has_conn c' = has_conn c"
  by (auto simp: same_shape_def has_conn_def split: option.splits) (metis map_option_eq_Some)+

lemma same_shape_pc: "same_shape c c' \<Longrightarrow> pc_ok c' p = pc_ok c p"
  by (cases p) (simp_all add: same_shape_conn, simp_all add: same_shape_def)

lemma node_write_shape: "node_write d c = Ret c' \<Longrightarrow> same_shape c c' \<and> c_topics c' = c_topics c"
  by (auto simp: node_write_def same_shape_def split: option.splits)

lemma subscribe_one_ok:
  assumes "client_ok c" and "subscribe_one t c = Ret c'"
  shows "client_ok c' \<and> same_shape c c'"
proof (cases "t \<in> set (c_topics c)")
  case False
  let ?c = "c\<lparr>c_topics := c_topics c @ [t]\<rparr>"
  have w: "node_write (client_setPro t) ?c = Ret c'" using assms(2) False by (simp add: subscribe_one_def)
  note sh = node_write_shape [OF w]
  have "same_shape c ?c" by (simp add: same_shape_def split: option.split)
  then have same: "same_shape c c'" using sh by (auto intro: same_shape_trans)
  moreover have "c_node c \<noteq> None" using w by (auto simp: node_write_def split: option.splits)
  moreover have "distinct (c_topics c')" using sh assms(1) False by (simp add: client_ok_def)
  ultimately have "client_ok c'" by (intro same_shape_ok [OF same assms(1)]) blast+
  with same show ?thesis by blast
qed (use assms in \<open>simp add: subscribe_one_def\<close>)

lemma each_subscribe_ok: "each subscribe_one ts c = Ret c' \<Longrightarrow> client_ok c \<Longrightarrow> client_ok c' \<and> same_shape c c'"
proof (induction ts arbitrary: c)
  case (Cons t ts)
  from Cons.prems(1) obtain c1 where "subscribe_one t c = Ret c1" "each subscribe_one ts c1 = Ret c'"
    by (auto simp: go_simps)
  with Cons.IH [of c1] subscribe_one_ok [OF Cons.prems(2)] show ?case by (blast intro: same_shape_trans)
qed simp

lemma Subscribe_ok: "client_ok c \<Longrightarrow> Subscribe ts c = Ret c' \<Longrightarrow> client_ok c' \<and> same_shape c c'"
  by (auto simp: Subscribe_def dest: each_subscribe_ok split: if_splits)

lemma node_write_returns: "has_conn c \<Longrightarrow> \<exists>c'. node_write d c = Ret c'"
  by (auto simp: has_conn_def node_write_def)

text \<open>\<open>disconnect\<close> leaves a node, if there is one, offline.\<close>

definition offline_now :: "'j Client \<Rightarrow> bool" where
  "offline_now c \<longleftrightarrow> (\<forall>n. c_node c = Some n \<longrightarrow> n_status n = nodeOffline)"

lemma disconnect_ok:
  assumes "client_ok c"
  shows "\<exists>nd. disconnect c = Ret (c\<lparr>c_node := nd\<rparr>) \<and> client_ok (c\<lparr>c_node := nd\<rparr>) \<and>
    offline_now (c\<lparr>c_node := nd\<rparr>) \<and> has_conn (c\<lparr>c_node := nd\<rparr>) = has_conn c \<and> (nd = None \<longleftrightarrow> c_node c = None)"
proof (cases "\<exists>n k. c_node c = Some n \<and> n_conn n = Some k \<and> n_status n = nodeOnline")
  case False
  then have off: "offline_now c" using assms unfolding client_ok_def node_ok_def offline_now_def by blast
  then have "disconnect c = Ret c"
    by (auto simp: disconnect_def offline_now_def client_flags flags_simp split: option.splits)
  with assms off show ?thesis by (intro exI [of _ "c_node c"]) simp
next
  case True
  then obtain n k where k: "c_node c = Some n" "n_conn n = Some k" "n_status n = nodeOnline" by blast
  let ?n = "n\<lparr>n_conn := Some (k\<lparr>tc_open := False\<rparr>), n_status := nodeOffline\<rparr>"
  have "disconnect c = Ret (c\<lparr>c_node := Some ?n\<rparr>)"
    using k by (simp add: disconnect_def client_flags flags_simp Let_def)
  moreover have "node_ok ?n" by (simp add: node_ok_def)
  then have "client_ok (c\<lparr>c_node := Some ?n\<rparr>)" using assms k by (simp add: client_ok_def table_ok_def)
  moreover have "offline_now (c\<lparr>c_node := Some ?n\<rparr>)" by (simp add: offline_now_def)
  moreover have "has_conn (c\<lparr>c_node := Some ?n\<rparr>) = has_conn c" using k by (simp add: has_conn_def)
  ultimately show ?thesis using k(1) by (intro exI [of _ "Some ?n"]) simp
qed

lemma keepalive_ok:
  assumes "client_ok c"
  shows "\<exists>c'. client_keepalive err c = Ret c' \<and> client_ok c' \<and> has_conn c' = has_conn c \<and> c_wi_closed c' = c_wi_closed c"
proof (cases "\<exists>n. c_node c = Some n \<and> n_conn n \<noteq> None \<and> has_flag (n_status n) nodeOnline")
  case False
  then have "client_keepalive err c = Ret c" by (cases "c_node c") (auto simp: client_keepalive_def)
  with assms show ?thesis by simp
next
  case True
  then obtain n where n: "c_node c = Some n" "n_conn n \<noteq> None" "has_flag (n_status n) nodeOnline" by blast
  then have "has_conn c" by (auto simp: has_conn_def)
  then obtain c1 where w: "node_write (client_pack CMD_TICK []) c = Ret c1" using node_write_returns by blast
  note sh = node_write_shape [OF w]
  have "distinct (c_topics c1)" "c_node c = None \<longrightarrow> c_topics c1 = []" using sh assms by (simp_all add: client_ok_def)
  then have c1: "client_ok c1" by (rule same_shape_ok [OF conjunct1 [OF sh] assms])
  have same: "has_conn c1 = has_conn c" "c_wi_closed c1 = c_wi_closed c"
    using sh same_shape_conn [of c c1] by (simp_all add: same_shape_def)
  have run: "client_keepalive err c = (if err then disconnect c1 else Ret c1)"
    using n w by (simp add: client_keepalive_def)
  show ?thesis
  proof (cases err)
    case True
    obtain nd where "disconnect c1 = Ret (c1\<lparr>c_node := nd\<rparr>)" "client_ok (c1\<lparr>c_node := nd\<rparr>)"
      "has_conn (c1\<lparr>c_node := nd\<rparr>) = has_conn c1"
      using disconnect_ok [OF c1] by blast
    with True run same show ?thesis by simp
  next
    case False
    with run same c1 show ?thesis by simp
  qed
qed

lemma Close_ok:
  assumes "client_ok c"
  shows "\<exists>c'. client_Close c = Ret c' \<and> client_ok c' \<and> has_conn c' = has_conn c \<and> c_wi_closed c' = c_wi_closed c"
proof (cases "c_status c = clientOffline")
  case True
  then have "client_Close c = Ret c" by (simp add: client_Close_def client_flags flags_simp)
  with assms show ?thesis by simp
next
  case False
  then have st: "c_status c = clientOnline" and "c_node c \<noteq> None" using assms by (auto simp: client_ok_def)
  then obtain nd where d: "disconnect c = Ret (c\<lparr>c_node := nd\<rparr>)" "client_ok (c\<lparr>c_node := nd\<rparr>)"
    "has_conn (c\<lparr>c_node := nd\<rparr>) = has_conn c" "nd \<noteq> None"
    using disconnect_ok [OF assms] \<open>c_node c \<noteq> None\<close> by blast
  let ?c = "c\<lparr>c_node := nd, c_status := clientOffline\<rparr>"
  have "client_Close c = Ret ?c" using st d(1) by (simp add: client_Close_def client_flags flags_simp)
  moreover have "client_ok ?c" "has_conn ?c = has_conn c" using d(2,3,4) by (auto simp: client_ok_def has_conn_def table_ok_def)
  ultimately show ?thesis by simp
qed

text \<open>Choosing a server only refreshes loads; connecting replaces the node.\<close>

lemma heap_irrelevant [simp]:
  "client_ok (c\<lparr>c_heap := h\<rparr>) = client_ok c" "has_conn (c\<lparr>c_heap := h\<rparr>) = has_conn c"
  by (simp_all add: client_ok_def has_conn_def table_ok_def)

lemma least_loaded_keeps: "least_loaded gc ks cur c = Ret (r, c') \<Longrightarrow> \<exists>h. c' = c\<lparr>c_heap := h\<rparr>"
proof (induction ks arbitrary: cur c)
  case Nil
  then show ?case by (intro exI [of _ "c_heap c"]) simp
next
  case (Cons k ks)
  from Cons.prems consider "least_loaded gc ks cur c = Ret (r, c')"
    | a cur' where "least_loaded gc ks cur' (refresh_connects gc a c) = Ret (r, c')"
    by (auto simp: Let_def split: option.splits if_splits)
  then show ?case
  proof cases
    case 2
    from Cons.IH [OF this] obtain h where "c' = (refresh_connects gc a c)\<lparr>c_heap := h\<rparr>" by blast
    then show ?thesis by (intro exI [of _ h]) (simp add: refresh_connects_def)
  qed (use Cons.IH in blast)
qed

lemma getServer_keeps:
  assumes "getServer gc ks1 ks2 c = Ret (r, c')"
  shows "\<exists>h. c' = c\<lparr>c_heap := h\<rparr>"
proof (cases "c_Services c = []")
  case True
  with assms show ?thesis by (intro exI [of _ "c_heap c"]) (simp add: getServer_def)
next
  case False
  obtain cur c1 where f: "first_online gc ks1 c = (cur, c1)" by (cases "first_online gc ks1 c")
  have "\<exists>h. c1 = c\<lparr>c_heap := h\<rparr>"
  proof (cases cur)
    case None
    with f have "c1 = c" by (simp add: first_online_None)
    then show ?thesis by (intro exI [of _ "c_heap c"]) simp
  next
    case (Some a)
    with f first_online_Some [of gc ks1 c a c1] have "c1 = refresh_connects gc a c" by simp
    then show ?thesis by (auto simp: refresh_connects_def)
  qed
  then obtain h where h: "c1 = c\<lparr>c_heap := h\<rparr>" by blast
  from assms False f have "least_loaded gc ks2 cur c1 = Ret (r, c')" by (simp add: getServer_def)
  from least_loaded_keeps [OF this] obtain h' where "c' = c1\<lparr>c_heap := h'\<rparr>" by blast
  with h show ?thesis by (intro exI [of _ h']) simp
qed

lemma client_ok_online:
  assumes "client_ok c"
  shows "client_ok (c\<lparr>c_node := Some \<lparr>n_conn = Some \<lparr>tc_open = True, tc_writes = ws\<rparr>, n_status = nodeOnline\<rparr>,
    c_status := (if has_flag (c_status c) clientOffline then (c_status c XOR clientOffline) OR clientOnline else c_status c)\<rparr>)"
  using assms by (auto simp: client_ok_def node_ok_def table_ok_def client_flags flags_simp)

lemma connect_dial_returns:
  assumes "client_ok c" and "offline_now c"
  shows "\<exists>nd st. connect_dial rok dok c = Ret (c\<lparr>c_node := nd, c_status := st\<rparr>) \<and> client_ok (c\<lparr>c_node := nd, c_status := st\<rparr>)"
proof (cases "rok \<and> dok")
  case True
  then have flags: "rok = True" "dok = True" by simp_all
  show ?thesis unfolding flags
    by (intro exI conjI) (rule connect_dial_ok, rule client_ok_online [OF assms(1)])
next
  case False
  let ?n = "\<lparr>n_conn = None, n_status = nodeOffline\<rparr>"
  have "connect_dial rok dok c = Ret (c\<lparr>c_node := if rok then Some ?n else c_node c, c_status := c_status c\<rparr>)"
    using False by (simp add: connect_dial_def client_flags)
  moreover have "client_ok (c\<lparr>c_node := if rok then Some ?n else c_node c, c_status := c_status c\<rparr>)"
    using assms by (auto simp: client_ok_def node_ok_def table_ok_def)
  ultimately show ?thesis by blast
qed

lemma connect_offline: "offline_now c \<Longrightarrow> connect rok dok c = connect_dial rok dok c"
  by (cases "c_node c") (simp_all add: connect_def offline_now_def client_flags flags_simp)

lemma connect_ok:
  assumes "client_ok c"
  shows "\<exists>nd st. connect rok dok c = Ret (c\<lparr>c_node := nd, c_status := st\<rparr>) \<and> client_ok (c\<lparr>c_node := nd, c_status := st\<rparr>)"
proof (cases "\<exists>n. c_node c = Some n \<and> has_flag (n_status n) nodeOnline")
  case True
  then obtain n where n: "c_node c = Some n" "has_flag (n_status n) nodeOnline" by blast
  obtain nd where d: "disconnect c = Ret (c\<lparr>c_node := nd\<rparr>)" "client_ok (c\<lparr>c_node := nd\<rparr>)" "offline_now (c\<lparr>c_node := nd\<rparr>)"
    using disconnect_ok [OF assms] by blast
  obtain nd' st where "connect_dial rok dok (c\<lparr>c_node := nd\<rparr>) = Ret (c\<lparr>c_node := nd', c_status := st\<rparr>)"
    "client_ok (c\<lparr>c_node := nd', c_status := st\<rparr>)"
    using connect_dial_returns [OF d(2,3), of rok dok] by auto
  then show ?thesis using n d(1) by (auto simp: connect_def)
next
  case False
  have "offline_now c"
    unfolding offline_now_def
  proof (intro allI impI)
    fix n assume n: "c_node c = Some n"
    then have "node_ok n" using assms by (simp add: client_ok_def)
    moreover have "\<not> has_flag (n_status n) nodeOnline" using False n by simp
    ultimately show "n_status n = nodeOffline" by (auto simp: node_ok_def client_flags flags_simp)
  qed
  then show ?thesis using connect_dial_returns [OF assms] by (simp add: connect_offline)
qed

lemma pick_ok:
  assumes "client_ok c" and "pick gc ks1 ks2 rok dok c = Ret (c', p')"
  shows "client_ok c' \<and> pc_ok c' p'"
proof -
  obtain srv c1 where g: "getServer gc ks1 ks2 c = Ret (srv, c1)"
    using assms(2) by (auto simp: pick_def go_simps)
  then obtain h where h: "c1 = c\<lparr>c_heap := h\<rparr>" using getServer_keeps by blast
  then have c1: "client_ok c1" using assms(1) by simp
  show ?thesis
  proof (cases srv)
    case None
    with assms(2) g c1 show ?thesis by (auto simp: pick_def)
  next
    case (Some a)
    obtain nd st where c2: "connect rok dok c1 = Ret (c1\<lparr>c_node := nd, c_status := st\<rparr>)"
      "client_ok (c1\<lparr>c_node := nd, c_status := st\<rparr>)"
      using connect_ok [OF c1] by blast
    show ?thesis
    proof (cases "\<exists>n k. nd = Some n \<and> n_conn n = Some k \<and> \<not> has_flag (n_status n) nodeOffline")
      case False
      then have "pick gc ks1 ks2 rok dok c = Ret (c1\<lparr>c_node := nd, c_status := st\<rparr>, Picking)"
        using g Some c2(1) by (cases nd) (auto simp: pick_def)
      with assms(2) c2(2) show ?thesis by simp
    next
      case True
      then obtain n k where n: "nd = Some n" "n_conn n = Some k" "\<not> has_flag (n_status n) nodeOffline" by blast
      let ?c = "c1\<lparr>c_node := nd, c_status := st, c_wi_closed := True\<rparr>"
      have "c' = ?c" "p' = (if has_flag st clientOffline then Stopped else Looping a)"
        using assms(2) g Some c2(1) n by (simp_all add: pick_def Let_def split: if_splits)
      moreover have "client_ok ?c" using c2(2) n(1) by (simp add: client_ok_def table_ok_def)
      moreover have "has_conn ?c" using n by (simp add: has_conn_def)
      ultimately show ?thesis by simp
    qed
  qed
qed

lemma snd_update: "snd ` set (AList.update k v al) \<subseteq> insert v (snd ` set al)"
  by (induction al) auto

lemma distinct_snd_update:
  "distinct (map snd al) \<Longrightarrow> v \<notin> snd ` set al \<Longrightarrow> distinct (map snd (AList.update k v al))"
proof (induction al)
  case (Cons kv al)
  then show ?case using snd_update [of k v al] by (cases "fst kv = k") (auto simp: image_iff)
qed simp

lemma new_server_ok:
  assumes "client_ok c"
  shows "client_ok (new_server s h q c)"
proof -
  have "c_fresh c \<notin> snd ` set (c_Services c)" using assms by (auto simp: client_ok_def table_ok_def)
  then have "table_ok (new_server s h q c)"
    using assms snd_update [of s "c_fresh c" "c_Services c"]
    by (fastforce simp: client_ok_def table_ok_def new_server_def distinct_update distinct_snd_update)
  with assms show ?thesis by (simp add: client_ok_def new_server_def)
qed

lemma on_change_ok:
  assumes "client_ok c"
  shows "client_ok (on_change ip port ev c) \<and> pc_ok (on_change ip port ev c) p = pc_ok c p"
proof -
  have del: "client_ok (c\<lparr>c_Services := AList.delete s (c_Services c)\<rparr>)" for s
    using assms by (auto simp: client_ok_def table_ok_def AList.delete_eq distinct_map_filter)
  have pc: "pc_ok (new_server s h q c) p = pc_ok c p" "pc_ok (c\<lparr>c_Services := sv\<rparr>) p = pc_ok c p" for s h q sv
    by (cases p; simp add: new_server_def has_conn_def)+
  show ?thesis using assms new_server_ok [OF assms] del pc by (simp add: on_change_def Let_def)
qed

lemma onMessage_keeps:
  assumes "client_loop U c = Ret c'"
  shows "\<exists>b t e. c' = c\<lparr>c_buffer := b, c_times := t, c_events := e\<rparr>"
  using assms
proof (induction "length (c_buffer c)" arbitrary: c rule: less_induct)
  case less
  define buf where "buf = c_buffer c"
  define cl where "cl = get32 (buf ! 0) (buf ! 1) (buf ! 2) (buf ! 3)"
  define cmd where "cmd = get16 (buf ! 4) (buf ! 5)"
  note eq = trans [OF sym [OF client_loop.simps [of U c, unfolded Let_def, folded buf_def, folded cl_def cmd_def]] less.prems]
  have same: "\<exists>b t e. c = c\<lparr>c_buffer := b, c_times := t, c_events := e\<rparr>"
    by (intro exI [of _ "c_buffer c"] exI [of _ "c_times c"] exI [of _ "c_events c"]) simp
  consider "length buf < 6 \<or> hasCmd cmd \<and> length buf < 4 + cl" | "\<not> length buf < 6" "\<not> hasCmd cmd"
    | (go) "\<not> length buf < 6" "hasCmd cmd" "\<not> length buf < 4 + cl" by blast
  then show ?case
  proof cases
    case 1
    then have "c' = c" using eq by (cases "length buf < 6") auto
    with same show ?thesis by simp
  next
    case 2
    then have "c' = c\<lparr>c_buffer := []\<rparr>" using eq by auto
    then show ?thesis by (intro exI [of _ "[]"] exI [of _ "c_times c"] exI [of _ "c_events c"]) simp
  next
    case go
    obtain d where d: "sub buf 6 (4 + cl) = Ret d" "client_loop U ((if cmd = CMD_EVENT
        then c\<lparr>c_times := c_times c + 1, c_events := c_events c @ map (\<lambda>f. (f, U d)) (c_onevent c)\<rparr>
        else c)\<lparr>c_buffer := drop (cl + 4) buf\<rparr>) = Ret c'"
      using eq go by (auto simp: go_simps)
    have "length (drop (cl + 4) buf) < length (c_buffer c)" using go by (simp add: buf_def)
    with less.hyps [OF _ d(2)] show ?thesis by (cases "cmd = CMD_EVENT") auto
  qed
qed

lemma client_ok_reading [simp]:
  "client_ok (c\<lparr>c_buffer := b, c_times := t, c_events := e\<rparr>) = client_ok c"
  "has_conn (c\<lparr>c_buffer := b, c_times := t, c_events := e\<rparr>) = has_conn c"
  by (simp_all add: client_ok_def has_conn_def table_ok_def)

lemma start_step_ok:
  assumes "start_step gc U an (c, p) = Ret (c', p')" and "client_ok c" and "pc_ok c p"
  shows "client_ok c' \<and> pc_ok c' p'"
proof -
  have same: ?thesis if "start_step gc U an (c, p) = Ret (c, p)"
    using that assms by simp
  show ?thesis
  proof (cases an)
    case (Pick ks1 ks2 rok dok)
    with assms same show ?thesis by (cases p) (auto dest: pick_ok)
  next
    case Check
    with assms same show ?thesis by (cases p) (auto split: if_splits)
  next
    case (Got d)
    show ?thesis
    proof (cases "\<exists>a. p = Reading a")
      case True
      then obtain a where a: "p = Reading a" by blast
      with assms(1) Got have "client_onMessage U d c = Ret c'" "p' = Looping a" by (auto simp: go_simps)
      moreover from this(1) obtain b t e where "c' = c\<lparr>c_buffer := b, c_times := t, c_events := e\<rparr>"
        using onMessage_keeps [of U "c\<lparr>c_buffer := c_buffer c @ d\<rparr>" c'] by (auto simp: client_onMessage_def)
      ultimately show ?thesis using assms(2,3) a by simp
    qed (use Got same in \<open>cases p, auto\<close>)
  next
    case ReadFails
    show ?thesis
    proof (cases "\<exists>a. p = Reading a")
      case True
      then obtain a where a: "p = Reading a" by blast
      obtain nd where "disconnect c = Ret (c\<lparr>c_node := nd\<rparr>)" "client_ok (c\<lparr>c_node := nd\<rparr>)"
        using disconnect_ok [OF assms(2)] by blast
      with assms(1) a ReadFails show ?thesis by auto
    qed (use ReadFails same in \<open>cases p, auto\<close>)
  qed
qed

lemma sub_step_ok:
  assumes "sub_step gc U (c, p) (c', p')" and "client_ok c" and "pc_ok c p"
  shows "client_ok c' \<and> pc_ok c' p'"
  using assms(1)
proof cases
  case (goroutine an)
  then show ?thesis using start_step_ok assms(2,3) by blast
next
  case (heartbeat err)
  then show ?thesis using keepalive_ok [OF assms(2), of err] assms(3) by (cases p) auto
next
  case (subscribe ts)
  then show ?thesis using Subscribe_ok [OF assms(2)] same_shape_pc assms(3) by blast
next
  case close
  then show ?thesis using Close_ok [OF assms(2)] assms(3) by (cases p) auto
next
  case (change ip port ev)
  then show ?thesis using on_change_ok [OF assms(2)] assms(3) by blast
qed

section \<open>Every client the library makes\<close>

lemma option_ok:
  assumes "client_option f" and "f c = Ret c'" and "client_ok c" and "c_node c = None"
  shows "client_ok c' \<and> c_node c' = None"
  using assms(1)
proof cases
  case (services ss)
  have "each set_services_one ss c = Ret c' \<Longrightarrow> client_ok c \<Longrightarrow> c_node c = None \<Longrightarrow> client_ok c' \<and> c_node c' = None" for c
  proof (induction ss arbitrary: c)
    case (Cons s ss)
    then obtain c1 where "set_services_one s c = Ret c1" "each set_services_one ss c1 = Ret c'" by (auto simp: go_simps)
    moreover from this(1) obtain h q where "c1 = new_server s h q c" by (auto simp: set_services_one_def Let_def go_simps)
    ultimately show ?case using Cons.IH [of c1] Cons.prems(2,3) new_server_ok by (auto simp: new_server_def)
  qed simp
  with assms(2-4) services show ?thesis by (simp add: SetServices_def)
next
  case (on_event g)
  then have "c' = c\<lparr>c_onevent := c_onevent c @ [g]\<rparr>" using assms(2) by (simp add: OnEventOption_def)
  with assms(3,4) show ?thesis by (simp add: client_ok_def table_ok_def)
next
  case (address a)
  then have "c' = c\<lparr>c_consulAddress := a\<rparr>" using assms(2) by (simp add: SetConsulAddress_def)
  with assms(3,4) show ?thesis by (simp add: client_ok_def table_ok_def)
qed

lemma options_ok:
  "each (\<lambda>f. f) opts c = Ret c' \<Longrightarrow> \<forall>f \<in> set opts. client_option f \<Longrightarrow> client_ok c \<Longrightarrow> c_node c = None \<Longrightarrow>
     client_ok c' \<and> c_node c' = None"
proof (induction opts arbitrary: c)
  case (Cons f fs)
  then obtain c1 where "f c = Ret c1" "each (\<lambda>f. f) fs c1 = Ret c'" by (auto simp: go_simps)
  with Cons.IH [of c1] Cons.prems(2-4) option_ok [of f c c1] show ?case by simp
qed simp

lemma add_members_ok:
  "client_ok c \<Longrightarrow> c_node c = None \<Longrightarrow> client_ok (fold add_member ms c) \<and> c_node (fold add_member ms c) = None"
proof (induction ms arbitrary: c)
  case (Cons m ms)
  have "client_ok (add_member m c) \<and> c_node (add_member m c) = None"
    using Cons.prems new_server_ok [OF Cons.prems(1)] by (simp add: add_member_def Let_def new_server_def)
  then show ?case using Cons.IH [of "add_member m c"] by simp
qed simp

lemma NewClient_ok:
  assumes "NewClient api li opts c = (Ret (w, k), c')" and "\<forall>f \<in> set opts. client_option f"
  shows "client_ok k \<and> c_node k = None"
proof -
  have new: "client_ok newClient" "c_node newClient = None"
    by (simp_all add: newClient_def client_ok_def table_ok_def)
  from assms(1) obtain k0 where k0: "each (\<lambda>f. f) opts newClient = Ret k0"
    by (auto simp: NewClient_def split: go.splits)
  note ok = options_ok [OF k0 assms(2) new]
  from assms(1) k0 consider "k = k0" | ms where "k = fold add_member ms k0"
    by (auto simp: NewClient_def NewClient_members_def Let_def case_prod_beta split: if_splits)
  then show ?thesis using ok add_members_ok [of k0] by cases auto
qed

lemma reachable_ok:
  assumes "(sub_step gc U)\<^sup>*\<^sup>* (k, Picking) (c, p)" and "client_ok k"
  shows "client_ok c \<and> pc_ok c p"
proof -
  have "client_ok (fst s) \<and> pc_ok (fst s) (snd s)" if "(sub_step gc U)\<^sup>*\<^sup>* (k, Picking) s" for s
    using that
  proof (induction rule: rtranclp_induct)
    case (step s s')
    then show ?case using sub_step_ok [of gc U "fst s" "snd s" "fst s'" "snd s'"] by simp
  qed (use assms(2) in simp)
  from this [OF assms(1)] show ?thesis by simp
qed

text \<open>The application's \<open>Subscribe\<close>, when it can be called and when it panics.\<close>

lemma Subscribe_returns: "has_conn c \<Longrightarrow> \<exists>c'. Subscribe ts c = Ret c'"
proof -
  have "has_conn c \<Longrightarrow> \<exists>c'. each subscribe_one ts c = Ret c'" for c :: "'a Client"
  proof (induction ts arbitrary: c)
    case (Cons t ts)
    have "\<exists>c1. subscribe_one t c = Ret c1 \<and> has_conn c1"
    proof (cases "t \<in> set (c_topics c)")
      case False
      have "has_conn (c\<lparr>c_topics := c_topics c @ [t]\<rparr>)" using Cons.prems by (simp add: has_conn_def)
      with node_write_returns obtain c1 where w: "node_write (client_setPro t) (c\<lparr>c_topics := c_topics c @ [t]\<rparr>) = Ret c1"
        by blast
      with same_shape_conn [of "c\<lparr>c_topics := c_topics c @ [t]\<rparr>" c1] node_write_shape [OF w] False Cons.prems
      show ?thesis by (simp add: subscribe_one_def has_conn_def)
    qed (use Cons.prems in \<open>simp add: subscribe_one_def\<close>)
    with Cons.IH show ?case by auto
  qed simp
  then show "has_conn c \<Longrightarrow> \<exists>c'. Subscribe ts c = Ret c'" by (simp add: Subscribe_def)
qed

lemma Subscribe_panics:
  assumes "c_node c = Some n" and "n_conn n = None" and "\<not> set ts \<subseteq> set (c_topics c)"
  shows "Subscribe ts c = Panic NilDereference"
proof -
  have "each subscribe_one ts c = Panic NilDereference" using assms(3)
  proof (induction ts)
    case (Cons t ts)
    then show ?case using assms(1,2) by (cases "t \<in> set (c_topics c)") (simp_all add: subscribe_one_def node_write_def)
  qed simp
  with assms(1) show ?thesis by (simp add: Subscribe_def)
qed

lemma pick_returns:
  assumes "client_ok c" and "set ks1 = server_keys c" and "set ks2 = server_keys c"
  shows "\<exists>s. pick gc ks1 ks2 rok dok c = Ret s"
proof -
  obtain r c1 where g: "getServer gc ks1 ks2 c = Ret (r, c1)"
    using getServer_Some [OF assms(2,3), of _ gc] getServer_None [of c gc ks1 ks2] by blast
  then obtain h where "c1 = c\<lparr>c_heap := h\<rparr>" using getServer_keeps by blast
  then have "client_ok c1" using assms(1) by simp
  then obtain c2 where "connect rok dok c1 = Ret c2" using connect_ok by blast
  with g show ?thesis by (auto simp: pick_def Let_def split: option.split)
qed


abbreviation demo_keys :: "string list" where "demo_keys \<equiv> [''a:1'', ''b:2'']"

text \<open>A client whose first server has gone and whose second cannot be dialled.\<close>

lemma demo_failed_dial:
  "\<exists>c. start_run (\<lambda>_ _. 0) id [Pick demo_keys demo_keys True True, Check, ReadFails, Pick demo_keys demo_keys True False]
      (demo_client, Picking) = Ret (c, Picking) \<and> c_node c = Some \<lparr>n_conn = None, n_status = nodeOffline\<rparr> \<and> c_topics c = []"
  by (simp add: demo_client_def new_server_def newClient_def pick_def getServer_def refresh_connects_def connect_def
      connect_dial_def disconnect_def client_flags flags_simp Let_def)

lemma run_steps:
  "start_run gc U as s = Ret s' \<Longrightarrow> (sub_step gc U)\<^sup>*\<^sup>* s s'"
proof (induction as arbitrary: s)
  case (Cons a as)
  then obtain s1 where "start_step gc U a s = Ret s1" "start_run gc U as s1 = Ret s'" by (auto simp: go_simps)
  with Cons.IH [of s1] sub_step.goroutine [of gc U a "fst s" "snd s" s1] show ?case
    by (simp add: converse_rtranclp_into_rtranclp)
qed simp

lemma demo_NewClient:
  "NewClient consul_api 0 [SetServices demo_keys] no_consul = (Ret (None, demo_client), no_consul)"
  by (simp add: NewClient_def SetServices_def set_services_one_def demo_client_def new_server_def newClient_def
      ParseInt_def ParseUint_def Let_def)


section \<open>What a lost connection leaves behind\<close>

text \<open>A new connection, from any client whose node is not online.\<close>

lemma pick_connects:
  assumes "client_ok c" and "offline_now c" and "set ks1 = server_keys c" and "set ks2 = server_keys c" and "usable c x"
  shows "\<exists>a h. usable c a \<and> pick gc ks1 ks2 True True c = Ret (c\<lparr>c_heap := h,
      c_node := Some \<lparr>n_conn = Some \<lparr>tc_open = True, tc_writes = map client_setPro (c_topics c)\<rparr>, n_status = nodeOnline\<rparr>,
      c_status := clientOnline, c_wi_closed := True\<rparr>, Looping a)"
proof -
  obtain a c1 where g: "getServer gc ks1 ks2 c = Ret (Some a, c1)" "usable c a"
    using getServer_Some [OF assms(3-5), of gc] by blast
  then obtain h where h: "c1 = c\<lparr>c_heap := h\<rparr>" using getServer_keeps by blast
  have "offline_now c1" using assms(2) h by (simp add: offline_now_def)
  note conn = connect_offline [OF this]
  have "c_status c1 = clientOffline \<or> c_status c1 = clientOnline" using assms(1) h by (simp add: client_ok_def)
  then have st: "(if has_flag (c_status c1) clientOffline then (c_status c1 XOR clientOffline) OR clientOnline else c_status c1) =
      clientOnline"
    by (auto simp: client_flags flags_simp)
  note dial = connect_dial_ok [of c1, unfolded st]
  have "pick gc ks1 ks2 True True c = Ret (c\<lparr>c_heap := h,
      c_node := Some \<lparr>n_conn = Some \<lparr>tc_open = True, tc_writes = map client_setPro (c_topics c)\<rparr>, n_status = nodeOnline\<rparr>,
      c_status := clientOnline, c_wi_closed := True\<rparr>, Looping a)"
    using g(1) conn dial by (simp add: pick_def h Let_def) (simp add: client_flags flags_simp)
  with g(2) show ?thesis by blast
qed

lemma client_feed_nil [simp]: "go_bind r (client_feed U []) = r"
  by (cases r) simp_all

lemma Pack_resumed:
  assumes "6 \<le> n" and "n \<le> length (Pack cmd y)" and "length s = length (Pack cmd y) - n"
  shows "take n (Pack cmd y) @ s = Pack cmd (take (n - 6) y @ s)"
  using assms by (simp add: Pack_eq)

lemma partial_frame_waits:
  assumes "6 \<le> n" and "n < length (Pack CMD_EVENT y)" and "length y + 2 < 2 ^ 32" and "c_buffer c = []"
  shows "client_onMessage U (take n (Pack CMD_EVENT y)) c = Ret (c\<lparr>c_buffer := take n (Pack CMD_EVENT y)\<rparr>)"
proof -
  let ?b = "take n (Pack CMD_EVENT y)"
  have b: "take 4 ?b = le_bytes 4 (length y + 2)" "take 2 (drop 4 ?b) = le_bytes 2 CMD_EVENT"
    using assms(1) by (simp_all add: Pack_eq min_def drop_take)
  have "incomplete ?b" using assms(1-3) b by (simp add: incomplete_def)
  moreover have "hasCmd (le_nat (take 2 (drop 4 ?b)))" using b by (simp add: hasCmd_def cmd_defs)
  ultimately show ?thesis
    using client_loop_wait [of "c\<lparr>c_buffer := ?b\<rparr>" U] assms(4) by (simp add: client_onMessage_def)
qed

text \<open>
  C39. The buffer outlives the connection: when a connection breaks inside a frame, the
  received part stays in the buffer, and the first bytes the next server sends are taken for
  the rest of that frame. The callbacks get an event no server has sent, and what was sent
  instead, a whole event say, is lost.
\<close>

theorem broken_frame_corrupts_next_connection:
  assumes "client_ok c" and "c_status c = clientOnline" and "c_buffer c = []"
    and "6 \<le> n" and "n < length (Pack CMD_EVENT y)" and "length y + 2 < 2 ^ 32"
    and "usable c x" and "x \<noteq> srv" and "set ks1 = server_keys c" and "set ks2 = server_keys c"
    and "length s = length (Pack CMD_EVENT y) - n"
  shows "\<exists>c' a. start_run gc U [Got (take n (Pack CMD_EVENT y)), Check, ReadFails, Pick ks1 ks2 True True, Check, Got s]
      (c, Reading srv) = Ret (c', Looping a) \<and> a \<noteq> srv \<and>
    c_events c' = c_events c @ map (\<lambda>f. (f, U (take (n - 6) y @ s))) (c_onevent c) \<and> c_buffer c' = []"
proof -
  let ?b = "take n (Pack CMD_EVENT y)" and ?y = "take (n - 6) y @ s"
  define c1 where "c1 = c\<lparr>c_buffer := ?b\<rparr>"
  have ok1: "client_ok c1" using assms(1) by (simp add: c1_def client_ok_def table_ok_def)
  obtain nd where d: "disconnect c1 = Ret (c1\<lparr>c_node := nd\<rparr>)" "client_ok (c1\<lparr>c_node := nd\<rparr>)"
    "offline_now (c1\<lparr>c_node := nd\<rparr>)"
    using disconnect_ok [OF ok1] by blast
  define c2 where "c2 = c1\<lparr>c_node := nd, c_heap := (c_heap c1)(srv := (c_heap c1 srv)\<lparr>sn_offline := True\<rparr>)\<rparr>"
  have c2: "client_ok c2" "offline_now c2" "server_keys c2 = server_keys c" "usable c2 x" "\<not> usable c2 srv"
    using d assms(7,8) by (simp_all add: c2_def offline_now_def usable_def c1_def)
  obtain a h where a: "usable c2 a" "pick gc ks1 ks2 True True c2 = Ret (c2\<lparr>c_heap := h,
      c_node := Some \<lparr>n_conn = Some \<lparr>tc_open = True, tc_writes = map client_setPro (c_topics c2)\<rparr>, n_status = nodeOnline\<rparr>,
      c_status := clientOnline, c_wi_closed := True\<rparr>, Looping a)"
    using pick_connects [OF c2(1,2) _ _ c2(4)] assms(9,10) c2(3) by metis
  define c3 where "c3 = c2\<lparr>c_heap := h,
      c_node := Some \<lparr>n_conn = Some \<lparr>tc_open = True, tc_writes = map client_setPro (c_topics c2)\<rparr>, n_status = nodeOnline\<rparr>,
      c_status := clientOnline, c_wi_closed := True\<rparr>"
  have st: "\<not> has_flag clientOnline clientOffline" by (simp add: client_flags flags_simp)
  have "start_run gc U [Got ?b, Check, ReadFails, Pick ks1 ks2 True True, Check, Got s] (c, Reading srv) =
      go_bind (client_onMessage U s c3) (\<lambda>c'. Ret (c', Looping a))"
  proof -
    have "client_onMessage U ?b c = Ret c1" unfolding c1_def by (rule partial_frame_waits [OF assms(4-6,3)])
    moreover have "start_step gc U ReadFails (c1, Reading srv) = Ret (c2, Picking)" using d(1) by (simp add: c2_def)
    moreover have "pick gc ks1 ks2 True True c2 = Ret (c3, Looping a)" unfolding c3_def by (rule a(2))
    moreover have "c_status c1 = clientOnline" "c_status c3 = clientOnline" using assms(2) by (simp_all add: c1_def c3_def)
    ultimately show ?thesis
      using st by (cases "client_onMessage U s c3") (simp_all del: start_step.simps(4))
  qed
  moreover have "take n (Pack CMD_EVENT y) @ s = Pack CMD_EVENT ?y"
    using Pack_resumed assms(4,5,11) by simp
  then have "client_onMessage U s c3 = client_feed U [Pack CMD_EVENT ?y] (c3\<lparr>c_buffer := []\<rparr>)"
    by (simp add: client_onMessage_def c3_def c2_def c1_def)
  moreover have "wire_ok (CMD_EVENT, ?y)" using assms(4-6,11) by (simp add: wire_ok_def cmd_defs)
  then have "client_feed U [Pack CMD_EVENT ?y] (c3\<lparr>c_buffer := []\<rparr>) =
      Ret (c3\<lparr>c_buffer := [], c_times := c_times c3 + 1,
        c_events := c_events c3 @ map (\<lambda>f. (f, U ?y)) (c_onevent c3)\<rparr>)"
    using client_feed_stream [of "[(CMD_EVENT, ?y)]" "c3\<lparr>c_buffer := []\<rparr>" "[Pack CMD_EVENT ?y]" U]
    by (simp add: wire_enc_def hasCmd_def deliver_def)
  ultimately show ?thesis using a(1) c2(5) by (auto simp: c3_def c2_def c1_def)
qed

theorem broken_frame_corrupts_next_connection_witness:
  "\<exists>c' a. start_run (\<lambda>_ _. 0) id [Got (take 10 (Pack CMD_EVENT (replicate 11 0))), Check, ReadFails,
      Pick demo_keys demo_keys True True, Check, Got (Pack CMD_EVENT [5])] (demo_reading\<lparr>c_onevent := [7]\<rparr>, Reading 0) =
      Ret (c', Looping a) \<and> a \<noteq> 0 \<and>
    c_events c' = [(7, replicate 4 0 @ Pack CMD_EVENT [5])] \<and> c_buffer c' = []"
proof -
  let ?c = "demo_reading\<lparr>c_onevent := [7]\<rparr>"
  have ok: "client_ok ?c" "c_status ?c = clientOnline" "c_buffer ?c = []" "usable ?c 1" "c_events ?c = []"
    "set demo_keys = server_keys ?c"
    by (auto simp: demo_reading_def demo_client_def new_server_def newClient_def client_ok_def node_ok_def table_ok_def
        usable_def)
  from broken_frame_corrupts_next_connection [OF ok(1-3) _ _ _ ok(4) _ ok(6) ok(6), of 10 "replicate 11 0" 0 "Pack CMD_EVENT [5]" "\<lambda>_ _. 0" id]
    ok(5) show ?thesis by simp
qed

end
