(* ===== verification/Agent_Codec.thy ===== *)
theory Agent_Codec
  imports Framing
begin

text \<open>
  The codec of the agent protocol, \<^verbatim>\<open>src/agent/codec.go\<close>: a 4-byte header of bytes 255,
  a 4-byte length (of the id and the content), an 8-byte message id and the content.
  \<open>Decode\<close> works on a Go slice, because it slices past \<open>len\<close>: \<open>data[:4]\<close> of a
  shorter buffer, and the content of a frame found behind other bytes, can both reach the
  spare part of the backing array. \<open>codec_next\<close> specifies a reader of frames that begin at
  the front of the buffer; \<open>Decode\<close> is shown to implement it on such buffers.
\<close>

section \<open>Encode and Decode\<close>

definition PackageMaxLength :: nat where "PackageMaxLength = 1024000"
definition PackageMinLength :: nat where "PackageMinLength = 16"
definition ContentMinLen :: nat where "ContentMinLen = 8"
definition PackageHeader :: bytes where "PackageHeader = [255, 255, 255, 255]"

definition Encode :: "int64 \<Rightarrow> bytes \<Rightarrow> bytes" where
  "Encode msgID msg =
     (let l = length msg; cl = l + 8
      in [255, 255, 255, 255] @ le_bytes 4 cl @ le_bytes 8 (unat msgID) @ msg)"

text \<open>\<open>bytes.Index\<close>: the first position of \<open>sep\<close>, \<open>None\<close> for \<open>-1\<close>.\<close>

fun bytes_index :: "'a list \<Rightarrow> 'a list \<Rightarrow> nat option" where
  "bytes_index [] sep = (if sep = [] then Some 0 else None)"
| "bytes_index (x # xs) sep =
     (if take (length sep) (x # xs) = sep then Some 0
      else map_option Suc (bytes_index xs sep))"

definition Decode :: "byte gslice \<Rightarrow> (int64 \<times> bytes \<times> nat \<times> g_error option) go" where
  "Decode data =
     (let len = length (vis data)
      in if len = 0 then Ret (0, [], 0, None)
         else go_bind (gs_slice data 0 4) (\<lambda>hdr.
           case (if vis hdr = PackageHeader then Some 4
                 else map_option (\<lambda>i. i + 4) (bytes_index (vis data) PackageHeader)) of
             None \<Rightarrow> Ret (0, [], 0, Some ErrInvalidPackage)
           | Some startPos \<Rightarrow>
               if PackageMaxLength < len then Ret (0, [], 0, Some ErrMaxPackError)
               else if len < PackageMinLength then Ret (0, [], 0, None)
               else go_bind (gs_slice data startPos (startPos + 4)) (\<lambda>lenField.
                 let clen = le_nat (vis lenField)
                 in if clen < ContentMinLen then Ret (0, [], 0, Some ErrDataLenError)
                    else if len < clen + 8 then Ret (0, [], 0, None)
                    else go_bind (gs_slice data (startPos + 4) (startPos + 12)) (\<lambda>idField.
                      let msgID = word_of_nat (le_nat (vis idField))
                      in go_bind (gs_slice data (startPos + 12) (startPos + clen + 4)) (\<lambda>c.
                           Ret (msgID, vis c, startPos + clen + 4, None))))))"

lemmas codec_consts = PackageMaxLength_def PackageMinLength_def ContentMinLen_def
  PackageHeader_def

lemma Encode_eq:
  "Encode msgID msg = PackageHeader @ le_bytes 4 (length msg + 8) @ le_bytes 8 (unat msgID) @ msg"
  by (simp add: Encode_def PackageHeader_def Let_def)

lemma length_PackageHeader [simp]: "length PackageHeader = 4" "PackageHeader \<noteq> []"
  by (simp_all add: PackageHeader_def)

lemma length_Encode [simp]: "length (Encode msgID msg) = length msg + 16"
  by (simp add: Encode_eq)

lemma bytes_index_SomeD:
  "bytes_index xs sep = Some i \<Longrightarrow>
     take (length sep) (drop i xs) = sep \<and> (\<forall>j < i. take (length sep) (drop j xs) \<noteq> sep)"
proof (induction xs sep arbitrary: i rule: bytes_index.induct)
  case (1 sep)
  then show ?case by (auto split: if_splits)
next
  case (2 x xs sep)
  show ?case
  proof (cases "take (length sep) (x # xs) = sep")
    case True
    with "2.prems" show ?thesis by simp
  next
    case False
    with "2.prems" obtain k where "bytes_index xs sep = Some k" "i = Suc k" by auto
    with "2.IH" [OF False] False show ?thesis
      by (auto simp: less_Suc_eq_0_disj)
  qed
qed

lemma bytes_index_first:
  "take (length sep) (drop i xs) = sep \<Longrightarrow> (\<forall>j < i. take (length sep) (drop j xs) \<noteq> sep) \<Longrightarrow>
     i \<le> length xs \<Longrightarrow> sep \<noteq> [] \<Longrightarrow> bytes_index xs sep = Some i"
proof (induction xs sep arbitrary: i rule: bytes_index.induct)
  case (1 sep)
  then show ?case by simp
next
  case (2 x xs sep)
  show ?case
  proof (cases i)
    case 0
    with "2.prems" show ?thesis by simp
  next
    case (Suc k)
    from "2.prems"(2) Suc have ne: "take (length sep) (x # xs) \<noteq> sep" by force
    have "bytes_index xs sep = Some k"
    proof (rule "2.IH" [OF ne])
      show "take (length sep) (drop k xs) = sep" using "2.prems"(1) Suc by simp
      show "\<forall>j<k. take (length sep) (drop j xs) \<noteq> sep" using "2.prems"(2) Suc by force
    qed (use "2.prems" Suc in auto)
    with ne Suc show ?thesis by simp
  qed
qed

lemma bytes_index_None:
  "bytes_index xs sep = None \<Longrightarrow> i + length sep \<le> length xs \<Longrightarrow> take (length sep) (drop i xs) \<noteq> sep"
proof (induction xs sep arbitrary: i rule: bytes_index.induct)
  case (1 sep)
  then show ?case by (auto split: if_splits)
next
  case (2 x xs sep)
  then show ?case by (cases i) (auto split: if_splits)
qed


section \<open>Where a frame begins\<close>

text \<open>Bytes before a frame that cannot be taken for the start of one.\<close>

definition clean :: "bytes \<Rightarrow> bool" where
  "clean junk \<longleftrightarrow> bytes_index junk PackageHeader = None \<and> (junk = [] \<or> last junk \<noteq> 255)"

lemma header_window:
  assumes "clean junk" and "j < length junk"
  shows "take 4 (drop j (junk @ PackageHeader @ t)) \<noteq> PackageHeader"
proof (cases "j + 4 \<le> length junk")
  case True
  then show ?thesis
    using assms bytes_index_None [of junk PackageHeader j] by (simp add: clean_def)
next
  case False
  show ?thesis
  proof
    assume eq: "take 4 (drop j (junk @ PackageHeader @ t)) = PackageHeader"
    let ?k = "length junk - 1 - j" and ?xs = "junk @ PackageHeader @ t"
    have k: "?k < 4" and jk: "j + ?k = length junk - 1" using False assms(2) by auto
    have "PackageHeader ! ?k = take 4 (drop j ?xs) ! ?k" by (simp only: eq)
    also have "\<dots> = drop j ?xs ! ?k" by (rule nth_take [OF k])
    also have "\<dots> = ?xs ! (j + ?k)" by (rule nth_drop) (use assms(2) in simp)
    also have "\<dots> = ?xs ! (length junk - 1)" by (simp only: jk)
    also have "\<dots> = junk ! (length junk - 1)" using assms(2) by (intro nth_append_left) simp
    also have "\<dots> = last junk" using assms(2) by (cases junk) (simp_all add: last_conv_nth)
    finally have "last junk = PackageHeader ! ?k" by simp
    also have "\<dots> = 255"
      using k by (auto simp: PackageHeader_def less_Suc_eq numeral_eq_Suc)
    finally show False using assms by (auto simp: clean_def)
  qed
qed

lemma first_header:
  "clean junk \<Longrightarrow> bytes_index (junk @ PackageHeader @ t) PackageHeader = Some (length junk)"
  using header_window [of junk] by (intro bytes_index_first) simp_all

text \<open>The body of \<open>Decode\<close> once the first header has been located.\<close>

lemma Decode_located:
  assumes "bytes_index (vis d) PackageHeader = Some i"
    and "PackageMinLength \<le> length (vis d)" and "length (vis d) \<le> PackageMaxLength"
  shows "Decode d =
    go_bind (gs_slice d (i + 4) (i + 8)) (\<lambda>lenField.
      let clen = le_nat (vis lenField)
      in if clen < ContentMinLen then Ret (0, [], 0, Some ErrDataLenError)
         else if length (vis d) < clen + 8 then Ret (0, [], 0, None)
         else go_bind (gs_slice d (i + 8) (i + 16)) (\<lambda>idField.
           go_bind (gs_slice d (i + 16) (i + clen + 8)) (\<lambda>c.
             Ret (word_of_nat (le_nat (vis idField)), vis c, i + clen + 8, None))))"
proof -
  have len: "16 \<le> length (vis d)" using assms(2) by (simp add: PackageMinLength_def)
  then have "vis d \<noteq> []" by auto
  moreover have "(if take 4 (vis d) = PackageHeader then Some 4
      else map_option (\<lambda>i. i + 4) (bytes_index (vis d) PackageHeader)) = Some (i + 4)"
    using bytes_index_SomeD [OF assms(1)] assms(1) by (cases i) auto
  ultimately show ?thesis
    using assms len by (simp add: Decode_def Let_def add.assoc add.commute add.left_commute cong: if_cong)
qed


section \<open>Round trip, resynchronisation and limits\<close>

text \<open>A frame behind \<open>junk\<close>, of which the visible part holds at least the 16 bytes before
  the content.\<close>

lemma frame_fields:
  assumes "length msg + 8 < 2 ^ 32" and that: "n = length junk"
  shows "le_nat (take 4 (drop (n + 4) (junk @ Encode msgID msg @ t))) = length msg + 8"
    and "word_of_nat (le_nat (take 8 (drop (n + 8) (junk @ Encode msgID msg @ t)))) = msgID"
    and "take (length msg) (drop (n + 16) (junk @ Encode msgID msg @ t)) = msg"
proof -
  have "unat msgID < 256 ^ 8" using unsigned_less [of msgID] by simp
  then show "word_of_nat (le_nat (take 8 (drop (n + 8) (junk @ Encode msgID msg @ t)))) = msgID"
    using that by (simp add: Encode_eq)
qed (use assms that in \<open>simp_all add: Encode_eq\<close>)

lemma Decode_frame:
  assumes "clean junk" and "length (junk @ Encode msgID msg @ rest) \<le> PackageMaxLength"
  shows "Decode \<lparr>vis = junk @ Encode msgID msg @ rest, spare = sp\<rparr> =
    Ret (msgID, msg, length junk + length (Encode msgID msg), None)"
proof -
  let ?d = "\<lparr>vis = junk @ Encode msgID msg @ rest, spare = sp\<rparr> :: byte gslice"
  have small: "length msg + 8 < 2 ^ 32" using assms(2) by (simp add: PackageMaxLength_def)
  have "bytes_index (vis ?d) PackageHeader = Some (length junk)"
    using first_header [OF assms(1)] by (simp add: Encode_eq)
  moreover have "PackageMinLength \<le> length (vis ?d)" by (simp add: PackageMinLength_def)
  ultimately show ?thesis
    using assms(2) frame_fields [OF small refl, of junk msgID rest]
    by (simp add: Decode_located ContentMinLen_def del: append_assoc drop_append take_append)
qed

text \<open>
  C17. Resynchronisation and round trip: \<open>Decode\<close> skips any bytes that cannot be taken for
  a header and returns the id and the content of the first frame, with the number of bytes
  to consume, whatever follows the frame and whatever the spare part of the buffer holds,
  as long as the buffer is within \<open>PackageMaxLength\<close>. With no bytes before the frame it is
  the round trip of \<open>Encode\<close>.
\<close>

theorem Decode_Encode:
  assumes "clean junk" and "length (junk @ Encode msgID msg @ rest) \<le> PackageMaxLength"
  shows "Decode \<lparr>vis = junk @ Encode msgID msg @ rest, spare = sp\<rparr> =
    Ret (msgID, msg, length junk + length (Encode msgID msg), None)"
  using assms by (rule Decode_frame)

theorem Decode_Encode_witness:
  "Decode \<lparr>vis = [1, 2] @ Encode 7 [104, 105] @ [9], spare = [255, 255]\<rparr> =
     Ret (7, [104, 105], 20, None)"
  using Decode_Encode [of "[1, 2]" 7 "[104, 105]" "[9]" "[255, 255]"]
  by (simp add: clean_def codec_consts)


text \<open>
  A frame behind junk is decoded too early: the completeness test compares the length
  of the whole buffer with the length of the frame and forgets the junk before it. When the
  missing bytes of the content are fewer than the junk and the backing array is long enough,
  \<open>Decode\<close> succeeds with a content whose tail comes from the spare part of the array,
  bytes that were not received, and with a position past the end of the buffer.
\<close>

theorem Decode_reads_spare:
  assumes "clean junk" and "k < length msg" and "length msg \<le> length junk + k"
    and "length msg - k \<le> length sp" and "length junk + 16 + k \<le> PackageMaxLength"
  shows "Decode \<lparr>vis = junk @ take (16 + k) (Encode msgID msg), spare = sp\<rparr> =
    Ret (msgID, take k msg @ take (length msg - k) sp,
         length junk + length (Encode msgID msg), None)"
proof -
  let ?hdr = "PackageHeader @ le_bytes 4 (length msg + 8) @ le_bytes 8 (unat msgID)"
  let ?d = "\<lparr>vis = junk @ ?hdr @ take k msg, spare = sp\<rparr> :: byte gslice"
  have small: "length msg + 8 < 2 ^ 32" using assms(3,5) by (simp add: PackageMaxLength_def)
  have id: "unat msgID < 256 ^ 8" using unsigned_less [of msgID] by simp
  have "bytes_index (vis ?d) PackageHeader = Some (length junk)"
    using first_header [OF assms(1)] by simp
  moreover have "PackageMinLength \<le> length (vis ?d)" and "length (vis ?d) \<le> PackageMaxLength"
    using assms(2,5) by (simp_all add: PackageMinLength_def)
  moreover have "gs_slice ?d (length junk + 16) (length junk + (length msg + 8) + 8) =
      Ret \<lparr>vis = take k msg @ take (length msg - k) sp, spare = drop (length msg - k) sp\<rparr>"
    using assms(2,4) by (simp add: gs_slice_def arr_def)
  ultimately have "Decode ?d = Ret (msgID, take k msg @ take (length msg - k) sp,
      length junk + 16 + length msg, None)"
    using assms small id by (simp add: Decode_located ContentMinLen_def)
  then show ?thesis by (simp add: Encode_eq)
qed

theorem Decode_reads_spare_witness:
  "Decode \<lparr>vis = [1, 2, 3] @ take (16 + 2) (Encode 7 [104, 101, 108, 108, 111]), spare = [0, 66, 67, 0]\<rparr> =
     Ret (7, [104, 101, 0, 66, 67], 24, None)"
  using Decode_reads_spare [of "[1, 2, 3]" 2 "[104, 101, 108, 108, 111]" "[0, 66, 67, 0]" 7]
  by (simp add: clean_def codec_consts)

text \<open>A buffer that starts with a header and is longer than the limit, and one that holds no
  header, are refused whole.\<close>

lemma Decode_too_long:
  assumes "bytes_index (vis d) PackageHeader = Some i" and "PackageMaxLength < length (vis d)"
  shows "Decode d = Ret (0, [], 0, Some ErrMaxPackError)"
proof -
  have "vis d \<noteq> []" and "4 \<le> length (vis d)"
    using assms(2) by (auto simp: PackageMaxLength_def)
  then show ?thesis using assms by (simp add: Decode_def)
qed

lemma Decode_no_header:
  assumes "bytes_index (vis d) PackageHeader = None" and "4 \<le> length (vis d)"
  shows "Decode d = Ret (0, [], 0, Some ErrInvalidPackage)"
proof -
  have "take 4 (vis d) \<noteq> PackageHeader"
    using bytes_index_None [OF assms(1), of 0] assms(2) by simp
  moreover have "vis d \<noteq> []" using assms(2) by auto
  ultimately show ?thesis using assms by (simp add: Decode_def)
qed

text \<open>Fewer than 4 received bytes: the comparison with the header looks at the spare part.\<close>

lemma Decode_under_4:
  assumes "0 < length (vis d)" and "length (vis d) < 4"
  shows "Decode d =
    (if length (arr d) < 4 then Panic SliceOutOfRange
     else if take 4 (arr d) = PackageHeader then Ret (0, [], 0, None)
     else Ret (0, [], 0, Some ErrInvalidPackage))"
proof -
  have "bytes_index (vis d) PackageHeader = None"
  proof (cases "bytes_index (vis d) PackageHeader")
    case (Some i)
    then have "take 4 (drop i (vis d)) = PackageHeader" using bytes_index_SomeD by fastforce
    then have "length (take 4 (drop i (vis d))) = 4" by simp
    then show ?thesis using assms(2) by simp
  qed simp
  then show ?thesis
    using assms by (auto simp: Decode_def gs_slice_def PackageMaxLength_def PackageMinLength_def)
qed


section \<open>Frames at the front of the buffer\<close>

definition codec_next :: "bytes \<Rightarrow> ((int64 \<times> bytes) \<times> nat) option" where
  "codec_next b =
     (if length b < 16 \<or> take 4 b \<noteq> PackageHeader then None
      else let clen = le_nat (take 4 (drop 4 b))
           in if clen < 8 \<or> length b < clen + 8 then None
              else Some ((word_of_nat (le_nat (take 8 (drop 8 b))), take (clen - 8) (drop 16 b)),
                         clen + 8))"

definition codec_ok :: "int64 \<times> bytes \<Rightarrow> bool" where
  "codec_ok f \<longleftrightarrow> length (snd f) + 8 < 2 ^ 32"

definition codec_enc :: "int64 \<times> bytes \<Rightarrow> bytes" where
  "codec_enc f = Encode (fst f) (snd f)"

lemma codec_next_Encode:
  "length msg + 8 < 2 ^ 32 \<Longrightarrow> codec_next (Encode msgID msg @ rest) = Some ((msgID, msg), length msg + 16)"
  using frame_fields [of msg 0 "[]" msgID rest]
  by (simp add: codec_next_def del: drop_append take_append) (simp add: Encode_eq)

interpretation codec: frame_codec codec_next codec_enc codec_ok
proof
  show "0 < n \<and> n \<le> length b" if "codec_next b = Some (f, n)" for b f n
    using that by (auto simp: codec_next_def Let_def split: if_splits)
  show "codec_next (b @ c) = Some (f, n)" if "codec_next b = Some (f, n)" for b c f n
    using that by (auto simp: codec_next_def Let_def split: if_splits)
  show "codec_next (codec_enc f @ rest) = Some (f, length (codec_enc f))" if "codec_ok f" for f rest
    using that by (cases f) (simp add: codec_enc_def codec_ok_def codec_next_Encode)
qed

text \<open>\<open>Decode\<close> implements the reader on a buffer that begins with a header.\<close>

lemma bytes_index_front: "take 4 b = PackageHeader \<Longrightarrow> bytes_index b PackageHeader = Some 0"
  by (intro bytes_index_first) simp_all

lemma Decode_codec_next:
  assumes "codec_next (vis d) = Some ((msgID, msg), n)" and "length (vis d) \<le> PackageMaxLength"
  shows "Decode d = Ret (msgID, msg, n, None)"
proof -
  have "take 4 (vis d) = PackageHeader" and "16 \<le> length (vis d)"
    using assms(1) by (auto simp: codec_next_def split: if_splits)
  then show ?thesis
    using assms bytes_index_front [of "vis d"]
    by (auto simp: Decode_located codec_next_def PackageMinLength_def ContentMinLen_def Let_def
        split: if_splits)
qed

text \<open>A buffer that waits for more: empty, or a header that no frame completes yet.\<close>

definition waiting :: "bytes \<Rightarrow> bool" where
  "waiting b \<longleftrightarrow> b = [] \<or>
     take 4 b = PackageHeader \<and> length b \<le> PackageMaxLength \<and>
     (16 \<le> length b \<longrightarrow> 8 \<le> le_nat (take 4 (drop 4 b)) \<and> length b < le_nat (take 4 (drop 4 b)) + 8)"

lemma Decode_waiting:
  assumes "waiting (vis d)"
  shows "Decode d = Ret (0, [], 0, None)"
proof (cases "vis d = []")
  case True
  then show ?thesis by (simp add: Decode_def)
next
  case False
  with assms have h: "take 4 (vis d) = PackageHeader" by (simp add: waiting_def)
  then have "length (take 4 (vis d)) = 4" by simp
  then have "4 \<le> length (vis d)" by simp
  then show ?thesis
    using assms False h bytes_index_front [OF h]
    by (auto simp: Decode_def Let_def waiting_def PackageMinLength_def ContentMinLen_def)
qed

text \<open>What is left of a stream of frames waits, unless it was cut inside a header.\<close>

lemma residue_waiting:
  assumes "\<forall>f \<in> set fs. codec_ok f" and "r @ b = concat (map codec_enc fs)"
    and "codec_next r = None" and "r = [] \<or> 4 \<le> length r" and "length r \<le> PackageMaxLength"
  shows "waiting r"
proof (cases "r = []")
  case True
  then show ?thesis by (simp add: waiting_def)
next
  case False
  with assms obtain msgID msg fs' where fs: "fs = (msgID, msg) # fs'" by (cases fs) auto
  let ?all = "Encode msgID msg @ concat (map codec_enc fs')"
  have all: "r @ b = ?all" and small: "length msg + 8 < 2 ^ 32"
    using assms(1,2) fs by (simp_all add: codec_enc_def codec_ok_def)
  have len: "4 \<le> length r" using assms(4) False by simp
  have "take 4 r = take 4 (r @ b)" using len by simp
  then have h: "take 4 r = PackageHeader" unfolding all by (simp add: Encode_eq)
  have "8 \<le> clen \<and> length r < clen + 8" if "16 \<le> length r" "clen = le_nat (take 4 (drop 4 r))" for clen
  proof -
    have "take 4 (drop 4 r) = take 4 (drop 4 (r @ b))" using that(1) by simp
    then have "clen = length msg + 8"
      using that(2) small unfolding all by (simp add: Encode_eq)
    with assms(3) that h show ?thesis by (auto simp: codec_next_def Let_def split: if_splits)
  qed
  with h assms(5) show ?thesis by (simp add: waiting_def)
qed

end
