(* ===== verification/Agent_Reader.thy ===== *)
theory Agent_Reader
  imports Agent_Codec
begin

text \<open>
  The receiving side of the agent protocol: the loop of \<^verbatim>\<open>ClientNode.onMessage\<close>
  (\<^verbatim>\<open>src/agent/node.go\<close>), which \<^verbatim>\<open>Client.onMessage\<close> (\<^verbatim>\<open>src/agent/client.go\<close>)
  repeats. It appends a read to the buffer, decodes frames off it, hands each to the
  callbacks and recovers from a panic by dropping the buffer. The callbacks are a parameter:
  a handler on a state of any type that returns, panics or blocks. The results say which
  messages reach the handler for a stream cut into arbitrary reads.
\<close>

section \<open>The loop\<close>

type_synonym 'st handler = "'st \<Rightarrow> int64 \<Rightarrow> bytes \<Rightarrow> 'st \<times> unit go"

text \<open>\<open>append(buf[:0], buf[pos:]...)\<close>\<close>

definition take_off :: "growth \<Rightarrow> byte gslice \<Rightarrow> nat \<Rightarrow> byte gslice" where
  "take_off grow buf pos =
     gs_append grow 0 \<lparr>vis = [], spare = arr buf\<rparr> (drop pos (vis buf))"

lemma vis_take_off [simp]: "vis (take_off grow buf pos) = drop pos (vis buf)"
  by (simp add: take_off_def)

lemma Decode_id_nonzero:
  "Decode d = Ret (msgID, c, pos, None) \<Longrightarrow> msgID \<noteq> 0 \<Longrightarrow> 0 < pos \<and> vis d \<noteq> []"
  unfolding Decode_def Let_def
  by (auto elim!: go_bind_RetE split: if_split_asm option.split_asm)

lemma Decode_pos_positive:
  "Decode d = Ret (msgID, c, pos, None) \<Longrightarrow> 0 < sint msgID \<Longrightarrow> 0 < pos \<and> vis d \<noteq> []"
  using Decode_id_nonzero by force

function onMessage_loop ::
  "growth \<Rightarrow> 'st handler \<Rightarrow> byte gslice \<Rightarrow> 'st \<Rightarrow> byte gslice \<times> 'st \<times> unit go" where
  "onMessage_loop grow h buf st =
     (case Decode buf of
        Ret (msgID, content, pos, err) \<Rightarrow>
          if err \<noteq> None then (gs_make, st, Ret ())
          else if sint msgID \<le> 0 then (buf, st, Ret ())
          else let buf' = (if pos \<le> length (vis buf) then take_off grow buf pos else gs_make)
               in (case h st msgID content of
                     (st', Ret _) \<Rightarrow> onMessage_loop grow h buf' st'
                   | (st', Panic _) \<Rightarrow> (gs_make, st', Ret ())
                   | (st', Block) \<Rightarrow> (buf', st', Block))
      | Panic _ \<Rightarrow> (gs_make, st, Ret ())
      | Block \<Rightarrow> (buf, st, Block))"
  by pat_completeness auto
termination
  by (relation "measure (\<lambda>(grow, h, buf, st). length (vis buf))")
    (auto simp: gs_make_def dest!: Decode_pos_positive)

declare onMessage_loop.simps [simp del]

definition agent_onMessage ::
  "growth \<Rightarrow> 'st handler \<Rightarrow> bytes \<Rightarrow> byte gslice \<times> 'st \<Rightarrow> byte gslice \<times> 'st \<times> unit go" where
  "agent_onMessage grow h msg s = onMessage_loop grow h (gs_append grow 0 (fst s) msg) (snd s)"

text \<open>A sequence of reads; a blocked handler blocks the reading goroutine.\<close>

fun agent_feed ::
  "growth \<Rightarrow> 'st handler \<Rightarrow> byte gslice \<times> 'st \<Rightarrow> bytes list \<Rightarrow> byte gslice \<times> 'st \<times> unit go" where
  "agent_feed grow h s [] = (fst s, snd s, Ret ())"
| "agent_feed grow h s (c # cs) =
     (case agent_onMessage grow h c s of
        (buf, st, Ret _) \<Rightarrow> agent_feed grow h (buf, st) cs
      | r \<Rightarrow> r)"

text \<open>The messages a handler sees, and the handler that records them.\<close>

definition log_msg :: "(int64 \<times> bytes) list handler" where
  "log_msg st msgID content = (st @ [(msgID, content)], Ret ())"

definition returns :: "'st handler \<Rightarrow> bool" where
  "returns h \<longleftrightarrow> (\<forall>st msgID content. snd (h st msgID content) = Ret ())"

definition run :: "'st handler \<Rightarrow> 'st \<Rightarrow> (int64 \<times> bytes) list \<Rightarrow> 'st" where
  "run h st fs = fold (\<lambda>f st. fst (h st (fst f) (snd f))) fs st"

text \<open>The handler returns on each message of a sequence, one after the other.\<close>

fun runs_ok :: "'st handler \<Rightarrow> 'st \<Rightarrow> (int64 \<times> bytes) list \<Rightarrow> bool" where
  "runs_ok h st [] = True"
| "runs_ok h st (f # fs) \<longleftrightarrow> snd (h st (fst f) (snd f)) = Ret () \<and> runs_ok h (fst (h st (fst f) (snd f))) fs"

lemma returns_runs_ok: "returns h \<Longrightarrow> runs_ok h st fs"
  by (induction fs arbitrary: st) (simp_all add: returns_def)

lemma returns_log_msg [simp]: "returns log_msg"
  by (simp add: returns_def log_msg_def)

lemma run_log_msg [simp]: "run log_msg st fs = st @ fs"
  by (induction fs arbitrary: st) (simp_all add: run_def log_msg_def)

lemma run_Nil [simp]: "run h st [] = st"
  by (simp add: run_def)

lemma run_Cons [simp]: "run h st (f # fs) = run h (fst (h st (fst f) (snd f))) fs"
  by (simp add: run_def)

lemma run_append [simp]: "run h st (fs @ gs) = run h (run h st fs) gs"
  by (simp add: run_def)

lemma runs_ok_append [simp]: "runs_ok h st (fs @ gs) \<longleftrightarrow> runs_ok h st fs \<and> runs_ok h (run h st fs) gs"
  by (induction fs arbitrary: st) simp_all

text \<open>One turn of the loop.\<close>

lemma loop_wait:
  "Decode buf = Ret (msgID, c, pos, None) \<Longrightarrow> sint msgID \<le> 0 \<Longrightarrow>
     onMessage_loop grow h buf st = (buf, st, Ret ())"
  by (subst onMessage_loop.simps) simp

lemma loop_error:
  "Decode buf = Ret (msgID, c, pos, Some e) \<Longrightarrow> onMessage_loop grow h buf st = (gs_make, st, Ret ())"
  by (subst onMessage_loop.simps) simp

lemma loop_panic:
  "Decode buf = Panic p \<Longrightarrow> onMessage_loop grow h buf st = (gs_make, st, Ret ())"
  by (subst onMessage_loop.simps) simp

text \<open>With callbacks that return, so does the loop: a panic of \<open>Decode\<close> is recovered.\<close>

lemma Decode_not_Block: "Decode buf \<noteq> Block"
  unfolding Decode_def Let_def gs_slice_def
  by (auto split: option.split if_split)

lemma loop_returns: "returns h \<Longrightarrow> snd (snd (onMessage_loop grow h buf st)) = Ret ()"
proof (induction grow h buf st rule: onMessage_loop.induct)
  case (1 grow h buf st)
  have ret: "snd (h st i c) = Ret ()" for i c using "1.prems" by (simp add: returns_def)
  show ?case
  proof (cases "Decode buf")
    case (Ret x)
    obtain msgID content pos err where x: "x = (msgID, content, pos, err)" by (metis prod.exhaust)
    show ?thesis
    proof (cases "err = None \<and> 0 < sint msgID")
      case True
      obtain st' where h: "h st msgID content = (st', Ret ())"
        using ret [of msgID content] by (metis prod.collapse)
      from "1.IH" [OF Ret x [symmetric] refl refl _ _ refl h [symmetric] refl "1.prems"] True Ret x h
      show ?thesis by (subst onMessage_loop.simps) (simp add: Let_def)
    qed (auto simp: Ret x onMessage_loop.simps [of grow h buf st])
  qed (auto simp: onMessage_loop.simps [of grow h buf st] Decode_not_Block)
qed

lemma loop_step:
  assumes "Decode buf = Ret (msgID, c, pos, None)" and "0 < sint msgID"
    and "pos \<le> length (vis buf)" and "snd (h st msgID c) = Ret ()"
  shows "onMessage_loop grow h buf st =
    onMessage_loop grow h (take_off grow buf pos) (fst (h st msgID c))"
  using assms by (cases "h st msgID c") (simp add: onMessage_loop.simps [of grow h buf] Let_def)


text \<open>A read that is exactly one frame, on an empty buffer.\<close>

lemma onMessage_one_frame:
  assumes "vis (fst s) = []" and "length (Encode msgID msg) \<le> PackageMaxLength" and "0 < sint msgID"
  obtains buf where "vis buf = []"
    and "agent_onMessage grow h (Encode msgID msg) s =
      (case snd (h (snd s) msgID msg) of
         Ret _ \<Rightarrow> (buf, fst (h (snd s) msgID msg), Ret ())
       | Panic _ \<Rightarrow> (gs_make, fst (h (snd s) msgID msg), Ret ())
       | Block \<Rightarrow> (buf, fst (h (snd s) msgID msg), Block))"
proof -
  define b where "b = gs_append grow 0 (fst s) (Encode msgID msg)"
  have vis: "vis b = [] @ Encode msgID msg @ []" using assms(1) by (simp add: b_def)
  have "b = \<lparr>vis = [] @ Encode msgID msg @ [], spare = spare b\<rparr>" using vis by (simp add: gslice.equality)
  then have dec: "Decode b = Ret (msgID, msg, length (Encode msgID msg), None)"
    using Decode_frame [of "[]" msgID msg "[]" "spare b"] assms(2) by (simp add: clean_def)
  define buf where "buf = take_off grow b (length msg + 16)"
  have buf: "vis buf = []" using vis by (simp add: buf_def)
  then have "Decode buf = Ret (0, [], 0, None)" by (simp add: Decode_def)
  then have rest': "onMessage_loop grow h buf st = (buf, st, Ret ())" for st by (rule loop_wait) simp
  obtain st' out where h: "h (snd s) msgID msg = (st', out)" by (cases "h (snd s) msgID msg")
  show thesis
  proof (rule that [OF buf])
    show "agent_onMessage grow h (Encode msgID msg) s =
      (case snd (h (snd s) msgID msg) of
         Ret _ \<Rightarrow> (buf, fst (h (snd s) msgID msg), Ret ())
       | Panic _ \<Rightarrow> (gs_make, fst (h (snd s) msgID msg), Ret ())
       | Block \<Rightarrow> (buf, fst (h (snd s) msgID msg), Block))"
      unfolding agent_onMessage_def b_def [symmetric] onMessage_loop.simps [of grow h b]
      using dec assms(3) h vis by (cases out) (simp_all add: Let_def rest' buf_def [symmetric])
  qed
qed


section \<open>Streams of frames\<close>

text \<open>The loop refines \<open>drain\<close>: on a buffer of frames with positive ids it runs the handler on
  each of them, in order, and keeps what is not a whole frame.\<close>

lemma loop_drain:
  assumes "length (vis buf) \<le> PackageMaxLength" and "runs_ok h st (fst (drain codec_next (vis buf)))"
    and "\<forall>f \<in> set (fst (drain codec_next (vis buf))). 0 < sint (fst f)"
    and "waiting (snd (drain codec_next (vis buf)))"
  shows "\<exists>buf'. onMessage_loop grow h buf st =
      (buf', run h st (fst (drain codec_next (vis buf))), Ret ()) \<and>
      vis buf' = snd (drain codec_next (vis buf))"
  using assms
proof (induction "length (vis buf)" arbitrary: buf st rule: less_induct)
  case less
  show ?case
  proof (cases "codec_next (vis buf)")
    case None
    then show ?thesis
      using less.prems(4) Decode_waiting [of buf] by (simp add: loop_wait)
  next
    case (Some fn)
    then obtain msgID c n where nx: "codec_next (vis buf) = Some ((msgID, c), n)"
      by (metis prod.exhaust)
    note d = codec.drain_unfold [OF nx]
    have n: "0 < n" "n \<le> length (vis buf)" using codec.nxt_bounds [OF nx] by simp_all
    let ?buf = "take_off grow buf n" and ?st = "fst (h st msgID c)"
    have "onMessage_loop grow h buf st = onMessage_loop grow h ?buf ?st"
      using less.prems n d Decode_codec_next [OF nx]
      by (intro loop_step) simp_all
    moreover have "\<exists>buf'. onMessage_loop grow h ?buf ?st =
        (buf', run h ?st (fst (drain codec_next (vis ?buf))), Ret ()) \<and>
        vis buf' = snd (drain codec_next (vis ?buf))"
      using less.prems n d by (intro less.hyps) simp_all
    ultimately show ?thesis using d by simp
  qed
qed

text \<open>The cuts that do no harm: no read leaves a buffer over the limit, or a residue of one to
  three bytes, which is a cut inside a header.\<close>

fun header_safe :: "bytes \<Rightarrow> bytes list \<Rightarrow> bool" where
  "header_safe buf [] = True"
| "header_safe buf (c # cs) =
     (let r = snd (drain codec_next (buf @ c))
      in length (buf @ c) \<le> PackageMaxLength \<and> (r = [] \<or> 4 \<le> length r) \<and> header_safe r cs)"

lemma agent_feed_stream:
  assumes "runs_ok h st fs" and "\<forall>f \<in> set fs. codec_ok f \<and> 0 < sint (fst f)"
    and "vis buf @ concat cs = concat (map codec_enc fs)"
    and "codec_next (vis buf) = None" and "header_safe (vis buf) cs"
  shows "\<exists>buf'. agent_feed grow h (buf, st) cs = (buf', run h st fs, Ret ()) \<and> vis buf' = []"
  using assms
proof (induction cs arbitrary: buf st fs)
  case Nil
  have "fs = []"
  proof (cases fs)
    case (Cons f fs')
    have "codec_next (codec_enc f @ concat (map codec_enc fs')) = Some (f, length (codec_enc f))"
      using Nil.prems(2) Cons by (intro codec.nxt_enc) simp
    with Nil.prems(3,4) Cons show ?thesis by simp
  qed
  with Nil.prems(3) show ?case by simp
next
  case (Cons c cs)
  let ?buf = "gs_append grow 0 buf c"
  let ?r = "snd (drain codec_next (vis ?buf))"
  have ok: "\<forall>f \<in> set fs. codec_ok f" using Cons.prems(2) by simp
  have "vis ?buf @ concat cs = concat (map codec_enc fs)" using Cons.prems(3) by simp
  from codec.drain_prefix [OF ok this] obtain fs1 fs2 where fs: "fs = fs1 @ fs2"
    "fst (drain codec_next (vis ?buf)) = fs1" "?r @ concat cs = concat (map codec_enc fs2)"
    by blast
  have safe: "length (vis ?buf) \<le> PackageMaxLength" "?r = [] \<or> 4 \<le> length ?r"
    "header_safe ?r cs"
    using Cons.prems(5) by (simp_all add: Let_def)
  have none: "codec_next ?r = None" by (rule codec.drain_residue)
  have "length ?r \<le> length (vis ?buf)" by (rule drain_length)
  with safe(1) have "waiting ?r"
    by (intro residue_waiting [OF _ fs(3) none safe(2)]) (use ok fs(1) in auto)
  then obtain buf' where buf': "onMessage_loop grow h ?buf st = (buf', run h st fs1, Ret ())"
    "vis buf' = ?r"
    using loop_drain [of ?buf h st grow] Cons.prems(1,2) safe(1) fs by auto
  have "\<exists>buf''. agent_feed grow h (buf', run h st fs1) cs =
      (buf'', run h (run h st fs1) fs2, Ret ()) \<and> vis buf'' = []"
    by (rule Cons.IH) (use Cons.prems(1,2) fs safe none buf' in auto)
  with buf' fs(1) show ?case by (simp add: agent_onMessage_def)
qed

text \<open>Everything in one read.\<close>

lemma one_read_frames:
  assumes "\<forall>f \<in> set fs. length (snd f) + 8 < 2 ^ 32"
    and "length (concat (map (\<lambda>f. Encode (fst f) (snd f)) fs)) \<le> PackageMaxLength"
  shows "header_safe [] [concat (map (\<lambda>f. Encode (fst f) (snd f)) fs)]"
proof -
  have "concat (map (\<lambda>f. Encode (fst f) (snd f)) fs) = concat (map codec_enc fs)" by (simp add: codec_enc_def [abs_def])
  moreover have "drain codec_next (concat (map codec_enc fs) @ []) = (fs, [])"
    using assms(1) by (intro codec.drain_encoded) (auto simp: codec_ok_def codec_next_def)
  ultimately show ?thesis using assms(2) by (simp add: Let_def)
qed

text \<open>A reader that keeps its buffer in its state: when the handler neither looks at the
  buffer nor changes it, a sequence of its passes is a feed.\<close>

lemma loop_commute:
  assumes "\<And>c m d. h (u c) m d = apfst u (h c m d)"
  shows "onMessage_loop grow h buf (u c) = apsnd (apfst u) (onMessage_loop grow h buf c)"
  using assms
proof (induction grow h buf c rule: onMessage_loop.induct)
  case (1 grow h buf c)
  show ?case
    unfolding onMessage_loop.simps [of grow h buf]
    using "1.prems"
    by (auto simp: Let_def split!: go.split prod.split if_split intro!: "1.IH")
qed

lemma feed_each:
  assumes laws: "\<And>b c. get (put b c) = b" "\<And>b b' c. put b (put b' c) = put b c" "\<And>c. put (get c) c = c"
    and comm: "\<And>b c m d. h (put b c) m d = apfst (put b) (h c m d)"
    and op: "\<And>r c. op r c = (let (buf, c', out) = agent_onMessage grow h r (get c, c) in go_bind out (\<lambda>_. Ret (put buf c')))"
  shows "agent_feed grow h (get c, c) cs = (buf, c', Ret ()) \<Longrightarrow> each op cs c = Ret (put buf c')"
proof (induction cs arbitrary: c c')
  case Nil
  then show ?case using laws(3) by auto
next
  case (Cons r cs)
  obtain b1 c1 where one: "agent_onMessage grow h r (get c, c) = (b1, c1, Ret ())"
    and rest: "agent_feed grow h (b1, c1) cs = (buf, c', Ret ())"
    using Cons.prems by (auto split: prod.splits go.splits)
  have "agent_feed grow h (b, put b1 x) rs = apsnd (apfst (put b1)) (agent_feed grow h (b, x) rs)" for b x rs
    by (induction rs arbitrary: b x)
      (auto simp: agent_onMessage_def loop_commute [of h "put b1", OF comm] split: prod.split go.split)
  with rest have "agent_feed grow h (get (put b1 c1), put b1 c1) cs = (buf, put b1 c', Ret ())"
    by (simp add: laws)
  from Cons.IH [OF this] one show ?case by (simp add: op laws)
qed

text \<open>
  C16. Delivery: a stream of messages with positive ids, encoded one after the other, reaches
  the handler message by message and in order, however it is cut into reads, provided no
  read leaves one to three bytes of a frame's header behind or a buffer over
  \<open>PackageMaxLength\<close>; nothing is left in the buffer.
\<close>

theorem agent_delivery:
  assumes "\<forall>f \<in> set fs. length (snd f) + 8 < 2 ^ 32 \<and> 0 < sint (fst f)"
    and "concat cs = concat (map (\<lambda>f. Encode (fst f) (snd f)) fs)" and "header_safe [] cs"
  shows "\<exists>buf. agent_feed grow log_msg (gs_make, []) cs = (buf, fs, Ret ()) \<and> vis buf = []"
proof -
  have "concat cs = concat (map codec_enc fs)"
    using assms(2) by (simp add: codec_enc_def [abs_def])
  then show ?thesis
    using assms(1,3) agent_feed_stream [of log_msg "[]" fs gs_make cs grow]
    by (simp add: returns_runs_ok codec_ok_def gs_make_def codec_next_def)
qed


theorem agent_delivery_witness:
  "\<exists>buf. agent_feed (\<lambda>_ n. n) log_msg (gs_make, [])
       [Encode 2 [104, 105] @ take 5 (Encode 3 [1]), drop 5 (Encode 3 [1])] =
     (buf, [(2, [104, 105]), (3, [1])], Ret ()) \<and> vis buf = []"
proof (rule agent_delivery)
  show "header_safe [] [Encode 2 [104, 105] @ take 5 (Encode 3 [1]), drop 5 (Encode 3 [1])]"
  proof -
    have "drain codec_next (Encode 2 [104, 105] @ take 5 (Encode 3 [1])) =
        ([(2, [104, 105])], take 5 (Encode 3 [1]))"
      using codec.drain_encoded [of "[(2, [104, 105])]" "take 5 (Encode 3 [1])"]
      by (simp add: codec_ok_def codec_enc_def codec_next_def)
    moreover have "drain codec_next (Encode 3 [1]) = ([(3, [1])], [])"
      using codec.drain_encoded [of "[(3, [1])]" "[]"]
      by (simp add: codec_ok_def codec_enc_def codec_next_def)
    ultimately show ?thesis by (simp add: PackageMaxLength_def)
  qed
  show "\<forall>f \<in> set [(2 :: int64, [104, 105 :: byte]), (3, [1])].
      length (snd f) + 8 < 2 ^ 32 \<and> 0 < sint (fst f)"
    by simp
qed simp


section \<open>Streams that are not delivered\<close>



text \<open>
  A message whose id is not positive is never consumed, and nothing behind it is
  delivered: the loop takes the decoded id 0 or a negative id for \<open>wait\<close>. Every read after
  it only makes the buffer longer, as long as it stays within \<open>PackageMaxLength\<close>. The
  synchronous client encodes every request with id 0 (\<^verbatim>\<open>src/agent/client_sync.go\<close>, line 104).
\<close>

theorem nonpositive_id_stalls:
  assumes "sint msgID \<le> 0"
    and "length (Encode msgID msg @ concat cs) \<le> PackageMaxLength"
  shows "\<exists>buf. agent_feed grow h (gs_make, st) (Encode msgID msg # cs) = (buf, st, Ret ()) \<and>
    vis buf = Encode msgID msg @ concat cs"
proof -
  have stall': "onMessage_loop grow h buf st = (buf, st, Ret ())"
    if "vis buf = Encode msgID msg @ got"
      "length (Encode msgID msg @ got) \<le> PackageMaxLength" for buf got
  proof -
    have "Decode \<lparr>vis = [] @ Encode msgID msg @ got, spare = spare buf\<rparr> =
        Ret (msgID, msg, length ([] :: bytes) + length (Encode msgID msg), None)"
      using that(2) by (intro Decode_frame) (simp_all add: clean_def)
    moreover have "\<lparr>vis = [] @ Encode msgID msg @ got, spare = spare buf\<rparr> = buf"
      using that(1) by (simp add: gslice.equality)
    ultimately show ?thesis using assms(1) by (simp add: loop_wait)
  qed
  have stall: "\<exists>buf'. agent_feed grow h (buf, st) cs = (buf', st, Ret ()) \<and>
      vis buf' = Encode msgID msg @ got @ concat cs"
    if "vis buf = Encode msgID msg @ got"
      "length (Encode msgID msg @ got @ concat cs) \<le> PackageMaxLength" for buf got cs
    using that
  proof (induction cs arbitrary: buf got)
    case Nil
    then show ?case by simp
  next
    case (Cons c cs)
    let ?buf = "gs_append grow 0 buf c"
    have "onMessage_loop grow h ?buf st = (?buf, st, Ret ())"
      using Cons.prems by (intro stall' [of _ "got @ c"]) simp_all
    then show ?case
      using Cons.IH [of ?buf "got @ c"] Cons.prems by (simp add: agent_onMessage_def)
  qed
  have "agent_feed grow h (gs_make, st) (Encode msgID msg # cs) =
      agent_feed grow h (gs_append grow 0 gs_make (Encode msgID msg), st) cs"
    using assms stall' [of "gs_append grow 0 gs_make (Encode msgID msg)" "[]"]
    by (simp add: agent_onMessage_def gs_make_def)
  with stall [of "gs_append grow 0 gs_make (Encode msgID msg)" "[]" cs] assms(2) show ?thesis
    by (simp add: gs_make_def)
qed

theorem nonpositive_id_stalls_witness:
  "\<exists>buf. agent_feed (\<lambda>_ n. n) log_msg (gs_make, []) (Encode 0 [1] # [Encode 2 [3]]) =
     (buf, [], Ret ()) \<and> vis buf = Encode 0 [1] @ concat [Encode 2 [3]]"
  by (rule nonpositive_id_stalls) (simp_all add: PackageMaxLength_def)

end
