(* ===== verification/Closing_Range.thy ===== *)
theory Closing_Range
  imports Go_Prelude
begin

text \<open>
  Two components close all their nodes with a loop that ranges over the slice of the nodes
  while closing a node removes it from that very slice (\<^verbatim>\<open>tcpGroups.close\<close> in
  \<^verbatim>\<open>src/services/service_tcpgroups.go\<close> and \<^verbatim>\<open>Clients.close\<close> in
  \<^verbatim>\<open>src/agent/group.go\<close>). The removal shifts the backing array the loop is reading, so
  the loop skips nodes. The locale states what closing a node does to the slice and to the
  nodes; what such a loop closes and what it leaves is proved here once.
\<close>

locale closing_range =
  fixes sl :: "'w \<Rightarrow> nat gslice"
    and cl :: "nat \<Rightarrow> 'w \<Rightarrow> 'w go"
    and alive :: "'w \<Rightarrow> nat \<Rightarrow> bool"
    and ok :: "'w \<Rightarrow> bool"
  assumes cl_dead: "\<not> alive w a \<Longrightarrow> cl a w = Ret w"
    and cl_alive: "ok w \<Longrightarrow> alive w a \<Longrightarrow>
      \<exists>w'. cl a w = Ret w' \<and> ok w' \<and> sl w' = gs_remove a (sl w) \<and>
           (\<forall>b. alive w' b \<longleftrightarrow> alive w b \<and> b \<noteq> a)"
begin

lemma skips_head:
  assumes "ok w" and "vis (sl w) = b # bs" and "b \<notin> set (drop 1 (take m (arr (sl w))))" and "alive w b"
    and "1 \<le> i" and "i + k \<le> m" and "length (vis (sl w)) \<le> m" and "m \<le> length (arr (sl w))"
  shows "\<exists>w'. range_from sl cl i k w = Ret w' \<and> ok w' \<and> alive w' b \<and>
    (\<forall>c. alive w' c \<longrightarrow> alive w c)"
  using assms
proof (induction k arbitrary: i w bs)
  case 0
  then show ?case by auto
next
  case (Suc k)
  let ?x = "arr (sl w) ! i"
  let ?win = "drop 1 (take m (arr (sl w)))"
  have "?win ! (i - 1) \<in> set ?win"
    using Suc.prems(5,6,8) by (intro nth_mem) simp
  moreover have "?win ! (i - 1) = ?x" using Suc.prems(5,6,8) by simp
  ultimately have "?x \<in> set ?win" by simp
  with Suc.prems(3) have ne: "?x \<noteq> b" by auto
  show ?case
  proof (cases "alive w ?x")
    case False
    then show ?thesis
      using Suc.IH [OF Suc.prems(1-4), of "Suc i"] Suc.prems by (simp add: cl_dead)
  next
    case True
    then obtain v where v: "cl ?x w = Ret v" "ok v" "sl v = gs_remove ?x (sl w)"
      "\<forall>b. alive v b \<longleftrightarrow> alive w b \<and> b \<noteq> ?x"
      using cl_alive [OF Suc.prems(1)] by blast
    have "vis (sl v) = b # remove1 ?x bs" using v(3) Suc.prems(2) ne by simp
    moreover have "b \<notin> set (drop 1 (take m (arr (sl v))))"
      using set_window_gs_remove [OF Suc.prems(2) ne Suc.prems(7)] v(3) Suc.prems(3) by auto
    moreover have "alive v b" using v(4) Suc.prems(4) ne by auto
    moreover have "length (vis (sl v)) \<le> m" and "m \<le> length (arr (sl v))"
      using v(3) Suc.prems(7,8) by (auto simp: length_remove1)
    ultimately obtain w' where "range_from sl cl (Suc i) k v = Ret w'" "ok w'" "alive w' b"
      "\<forall>c. alive w' c \<longrightarrow> alive v c"
      using Suc.IH [of v "remove1 ?x bs" "Suc i"] v(2) Suc.prems(6) by auto
    with v show ?thesis by auto
  qed
qed

text \<open>The loop comes to its end and opens nothing.\<close>

lemma close_returns:
  assumes "ok w"
  shows "\<exists>w'. range_from sl cl i k w = Ret w' \<and> ok w' \<and> (\<forall>c. alive w' c \<longrightarrow> alive w c)"
  using assms
proof (induction k arbitrary: i w)
  case 0
  then show ?case by simp
next
  case (Suc k)
  let ?x = "arr (sl w) ! i"
  obtain v where v: "cl ?x w = Ret v" "ok v" "\<And>c. alive v c \<Longrightarrow> alive w c"
  proof (cases "alive w ?x")
    case True
    then show thesis using cl_alive [OF Suc.prems] that by blast
  next
    case False
    then show thesis using cl_dead [of w ?x] Suc.prems that [of w] by simp
  qed
  obtain w' where "range_from sl cl (Suc i) k v = Ret w'" "ok w'" "\<And>c. alive w' c \<Longrightarrow> alive v c"
    using Suc.IH [OF v(2), of "Suc i"] by blast
  with v show ?case by (intro exI [of _ w']) simp
qed

lemma close_all_returns: "ok w \<Longrightarrow> \<exists>w'. range_do sl cl w = Ret w' \<and> ok w' \<and> (\<forall>c. alive w' c \<longrightarrow> alive w c)"
  unfolding range_do_def by (rule close_returns)

text \<open>Of three or more nodes the first is closed and the second is not.\<close>

lemma close_skips_second:
  assumes "ok w" and "vis (sl w) = a # b # c # ds" and "distinct (vis (sl w))"
    and "\<forall>x \<in> set (vis (sl w)). alive w x"
  shows "\<exists>w'. range_do sl cl w = Ret w' \<and> ok w' \<and> alive w' b \<and> \<not> alive w' a"
proof -
  have a0: "arr (sl w) ! 0 = a" using assms(2) by (simp add: arr_def)
  have "alive w a" using assms(2,4) by simp
  then obtain v where v: "cl a w = Ret v" "ok v" "sl v = gs_remove a (sl w)"
    "\<forall>b. alive v b \<longleftrightarrow> alive w b \<and> b \<noteq> a"
    using cl_alive [OF assms(1)] by blast
  have "vis (sl v) = b # c # ds" using v(3) assms(2,3) by simp
  moreover have "b \<notin> set (drop 1 (take (length ds + 3) (arr (sl v))))"
  proof -
    have "last (b # c # ds) \<in> set (c # ds)" by auto
    moreover have "take (length ds + 3) (arr (sl v)) = b # c # ds @ [last (c # ds)]"
      using v(3) assms(2)
      by (cases ds rule: rev_cases) (simp_all add: gs_remove_def gs_delete_def arr_def numeral_eq_Suc)
    ultimately show ?thesis using assms(2,3) by auto
  qed
  moreover have "alive v b" using v(4) assms(2-4) by auto
  moreover have "length (arr (sl v)) = length (arr (sl w))" using v(3) by simp
  then have "length ds + 3 \<le> length (arr (sl v))" using assms(2) by (simp add: arr_def)
  ultimately obtain w' where "range_from sl cl 1 (length ds + 2) v = Ret w'" "ok w'"
    "alive w' b" "\<forall>c. alive w' c \<longrightarrow> alive v c"
    using skips_head [OF v(2), of b "c # ds" "length ds + 3" 1 "length ds + 2"] by auto
  with v a0 assms(2) show ?thesis by (auto simp: range_do_def numeral_2_eq_2)
qed

text \<open>One or two nodes are all closed.\<close>

lemma close_upto_two:
  assumes "ok w" and "length (vis (sl w)) \<le> 2" and "distinct (vis (sl w))"
    and "\<forall>x \<in> set (vis (sl w)). alive w x"
  shows "\<exists>w'. range_do sl cl w = Ret w' \<and> ok w' \<and> (\<forall>x \<in> set (vis (sl w)). \<not> alive w' x)"
proof -
  consider "vis (sl w) = []" | a where "vis (sl w) = [a]" | a b where "vis (sl w) = [a, b]"
    using assms(2) by (cases "vis (sl w)" rule: list.exhaust) (auto simp: le_Suc_eq length_Suc_conv)
  then show ?thesis
  proof cases
    case 1
    with assms(1) show ?thesis by (simp add: range_do_def)
  next
    case (2 a)
    with assms(4) obtain v where "cl a w = Ret v" "ok v" "\<forall>b. alive v b \<longleftrightarrow> alive w b \<and> b \<noteq> a"
      using cl_alive [OF assms(1), of a] by auto
    with 2 show ?thesis by (simp add: range_do_def arr_def)
  next
    case (3 a b)
    with assms(4) obtain v where v: "cl a w = Ret v" "ok v" "sl v = gs_remove a (sl w)"
      "\<forall>b. alive v b \<longleftrightarrow> alive w b \<and> b \<noteq> a"
      using cl_alive [OF assms(1), of a] by auto
    have "arr (sl v) ! 1 = b"
      using v(3) 3 by (simp add: gs_remove_def gs_delete_def arr_def)
    moreover have "alive v b" using v(4) 3 assms(3,4) by auto
    ultimately obtain u where "cl b v = Ret u" "ok u" "\<forall>x. alive u x \<longleftrightarrow> alive v x \<and> x \<noteq> b"
      using cl_alive [OF v(2), of b] by auto
    with 3 v \<open>arr (sl v) ! 1 = b\<close> show ?thesis
      by (simp add: range_do_def arr_def numeral_2_eq_2)
  qed
qed

end

end
