(* ===== verification/Agent_Server.thy ===== *)
theory Agent_Server
  imports Agent_Reader Closing_Range
begin

text \<open>
  The agent's server, which a leader runs for the other members of the cluster:
  \<^verbatim>\<open>src/agent/node.go\<close> (a connection), \<^verbatim>\<open>src/agent/group.go\<close> (the list of
  connections) and \<^verbatim>\<open>src/agent/server.go\<close>. As in \<open>Tcp_Groups\<close>, connections live in a
  heap and the list holds their addresses. The one close callback is the server's (it takes
  the node off the list), and the one message callback ignores the message
  (\<open>onServerMessage\<close>), so that both are written out. The reading loop is that of
  \<open>Agent_Reader\<close>.
\<close>

section \<open>State\<close>

record ClientNode =
  an_open :: bool
  an_writes :: "bytes list" \<comment> \<open>what was handed to \<open>Write\<close>, also when it failed\<close>
  an_queue :: "bytes list"
  an_queue_closed :: bool
  an_recvBuf :: "byte gslice"
  an_status :: nat

record agent_srv =
  a_heap :: "nat \<Rightarrow> ClientNode"
  a_fresh :: nat
  clients :: "nat gslice"
  a_listener :: "bool option"

definition agentMaxSendQueue :: nat where "agentMaxSendQueue = 10000"
definition agentNodeOnline :: nat where "agentNodeOnline = 2"
definition keepalivePackage :: bytes where "keepalivePackage = [0]"

abbreviation a_online :: "agent_srv \<Rightarrow> nat \<Rightarrow> bool" where
  "a_online s a \<equiv> has_flag (an_status (a_heap s a)) agentNodeOnline"

definition upd_agent :: "nat \<Rightarrow> (ClientNode \<Rightarrow> ClientNode) \<Rightarrow> agent_srv \<Rightarrow> agent_srv" where
  "upd_agent a f s = s\<lparr>a_heap := (a_heap s)(a := f (a_heap s a))\<rparr>"

lemma upd_agent_simps [simp]:
  "a_heap (upd_agent a f s) = (a_heap s)(a := f (a_heap s a))" "a_fresh (upd_agent a f s) = a_fresh s"
  "clients (upd_agent a f s) = clients s" "a_listener (upd_agent a f s) = a_listener s"
  by (simp_all add: upd_agent_def)


section \<open>Operations\<close>

definition agent_newNode :: ClientNode where
  "agent_newNode = \<lparr>an_open = True, an_writes = [], an_queue = [], an_queue_closed = False,
     an_recvBuf = gs_make, an_status = agentNodeOnline\<rparr>"

definition clients_append :: "growth \<Rightarrow> nat \<Rightarrow> agent_srv \<Rightarrow> agent_srv" where
  "clients_append grow a s = s\<lparr>clients := gs_append grow 0 (clients s) [a]\<rparr>"

definition clients_remove :: "nat \<Rightarrow> agent_srv \<Rightarrow> agent_srv" where
  "clients_remove a s =
     (case index_of a (vis (clients s)) of
        Some index \<Rightarrow> s\<lparr>clients := gs_delete index (clients s)\<rparr>
      | None \<Rightarrow> s)"

definition agent_close :: "nat \<Rightarrow> agent_srv \<Rightarrow> agent_srv go" where
  "agent_close a s =
     (if \<not> a_online s a then Ret s
      else if an_queue_closed (a_heap s a) then Panic CloseOfClosedChannel
      else Ret (clients_remove a
             (upd_agent a (\<lambda>n. n\<lparr>an_status := an_status n XOR agentNodeOnline, an_open := False,
                                 an_queue_closed := True\<rparr>) s)))"

definition agent_Send :: "int64 \<Rightarrow> bytes \<Rightarrow> nat \<Rightarrow> agent_srv \<Rightarrow> agent_srv" where
  "agent_Send msgID data a s =
     (let sendData = Encode msgID data in upd_agent a (\<lambda>n. n\<lparr>an_writes := an_writes n @ [sendData]\<rparr>) s)"

definition agent_AsyncSend :: "int64 \<Rightarrow> bytes \<Rightarrow> nat \<Rightarrow> agent_srv \<Rightarrow> agent_srv go" where
  "agent_AsyncSend msgID data a s =
     (if \<not> a_online s a then Ret s
      else let senddata = Encode msgID data
           in if an_queue_closed (a_heap s a) then Panic SendOnClosedChannel
              else if agentMaxSendQueue \<le> length (an_queue (a_heap s a)) then Block
              else Ret (upd_agent a (\<lambda>n. n\<lparr>an_queue := an_queue n @ [senddata]\<rparr>) s))"

text \<open>A turn of \<open>asyncSendService\<close> that receives from the queue, and one that takes the case of
  the cancelled context, as in \<open>Tcp_Groups\<close>.\<close>

definition agent_sender_turn :: "bool \<Rightarrow> nat \<Rightarrow> agent_srv \<Rightarrow> (agent_srv \<times> bool) go" where
  "agent_sender_turn err a s =
     (if \<not> a_online s a then Ret (s, False)
      else case an_queue (a_heap s a) of
             [] \<Rightarrow> if an_queue_closed (a_heap s a) then Ret (s, False) else Block
           | msg # q \<Rightarrow>
               let s' = upd_agent a (\<lambda>n. n\<lparr>an_queue := q, an_writes := an_writes n @ [msg]\<rparr>) s
               in if err then go_bind (agent_close a s') (\<lambda>s''. Ret (s'', False)) else Ret (s', True))"

definition agent_sender_done :: "nat \<Rightarrow> agent_srv \<Rightarrow> agent_srv \<times> bool" where
  "agent_sender_done a s =
     (if \<not> a_online s a then (s, False)
      else (s, \<not> length (an_queue (a_heap s a)) \<le> 0))"

text \<open>A pass of \<open>readMessage\<close>: what \<open>Read\<close> returns, an end of file included, and whether
  the loop goes on.\<close>

datatype read_result = ReadData bytes | ReadEOF | ReadErr

definition ignore_msg :: "unit handler" where
  "ignore_msg st msgID content = (st, Ret ())"

definition agent_readMessage_turn :: "growth \<Rightarrow> read_result \<Rightarrow> nat \<Rightarrow> agent_srv \<Rightarrow> (agent_srv \<times> bool) go" where
  "agent_readMessage_turn grow r a s =
     (case r of
        ReadErr \<Rightarrow> go_bind (agent_close a s) (\<lambda>s'. Ret (s', False))
      | _ \<Rightarrow>
          let msg = (case r of ReadData d \<Rightarrow> d | _ \<Rightarrow> []);
              (buf, _, out) = agent_onMessage grow ignore_msg msg (an_recvBuf (a_heap s a), ())
          in go_bind out (\<lambda>_. Ret (upd_agent a (\<lambda>n. n\<lparr>an_recvBuf := buf\<rparr>) s, True)))"

definition clients_send :: "int64 \<Rightarrow> bytes \<Rightarrow> agent_srv \<Rightarrow> agent_srv go" where
  "clients_send msgID data s = range_do clients (\<lambda>a s. Ret (agent_Send msgID data a s)) s"

definition clients_asyncSend :: "int64 \<Rightarrow> bytes \<Rightarrow> agent_srv \<Rightarrow> agent_srv go" where
  "clients_asyncSend msgID data s = range_do clients (agent_AsyncSend msgID data) s"

definition clients_close :: "agent_srv \<Rightarrow> agent_srv go" where
  "clients_close s = range_do clients agent_close s"

definition NewServer :: agent_srv where
  "NewServer = \<lparr>a_heap = (\<lambda>_. agent_newNode\<lparr>an_status := 0\<rparr>), a_fresh = 1, clients = gs_make, a_listener = None\<rparr>"

text \<open>\<open>Start\<close>: the goroutine's \<open>Listen\<close>, whose error is a panic that nothing recovers; what
  follows an \<open>Accept\<close>, and whether the loop goes on.\<close>

definition agent_listen :: "bool \<Rightarrow> agent_srv \<Rightarrow> agent_srv go" where
  "agent_listen err s = (if err then Panic ExplicitPanic else Ret (s\<lparr>a_listener := Some True\<rparr>))"


definition agent_accept_turn :: "growth \<Rightarrow> bool \<Rightarrow> bool \<Rightarrow> agent_srv \<Rightarrow> agent_srv \<times> bool" where
  "agent_accept_turn grow ctx_done err s =
     (if ctx_done then (s, False)
      else if err then (s, True)
      else (clients_append grow (a_fresh s)
              (s\<lparr>a_heap := (a_heap s)(a_fresh s := agent_newNode), a_fresh := a_fresh s + 1\<rparr>), True))"

definition Broadcast :: "int64 \<Rightarrow> bytes \<Rightarrow> agent_srv \<Rightarrow> agent_srv go" where
  "Broadcast msgID data s = range_do clients (agent_AsyncSend msgID data) s"

definition Server_Close :: "agent_srv \<Rightarrow> agent_srv go" where
  "Server_Close s = clients_close (if a_listener s \<noteq> None then s\<lparr>a_listener := Some False\<rparr> else s)"

definition Server_keepalive_turn :: "bool \<Rightarrow> agent_srv \<Rightarrow> (agent_srv \<times> bool) go" where
  "Server_keepalive_turn ctx_done s =
     (if ctx_done then Ret (s, False)
      else go_bind (clients_asyncSend 1 keepalivePackage s) (\<lambda>s'. Ret (s', True)))"


section \<open>Closing all connections\<close>

definition agent_wf :: "ClientNode \<Rightarrow> bool" where
  "agent_wf n \<longleftrightarrow>
     an_open n = has_flag (an_status n) agentNodeOnline \<and>
     an_queue_closed n = (\<not> has_flag (an_status n) agentNodeOnline) \<and> length (an_queue n) \<le> agentMaxSendQueue"

definition agents_wf :: "agent_srv \<Rightarrow> bool" where
  "agents_wf s \<longleftrightarrow> (\<forall>a. a_online s a \<longrightarrow> agent_wf (a_heap s a))"

lemma clients_remove_eq: "clients_remove a s = s\<lparr>clients := gs_remove a (clients s)\<rparr>"
  by (cases "index_of a (vis (clients s))") (simp_all add: clients_remove_def gs_remove_def del: index_of_None)

lemma agent_close_online:
  "agent_wf (a_heap s a) \<Longrightarrow> a_online s a \<Longrightarrow>
     agent_close a s = Ret ((upd_agent a (\<lambda>n. n\<lparr>an_status := an_status n XOR agentNodeOnline, an_open := False,
       an_queue_closed := True\<rparr>) s)\<lparr>clients := gs_remove a (clients s)\<rparr>)"
  by (simp add: agent_close_def agent_wf_def clients_remove_eq)

interpretation agents: closing_range clients agent_close a_online agents_wf
proof
  show "agent_close a s = Ret s" if "\<not> a_online s a" for s a
    using that by (simp add: agent_close_def)
  show "\<exists>s'. agent_close a s = Ret s' \<and> agents_wf s' \<and> clients s' = gs_remove a (clients s) \<and>
      (\<forall>b. a_online s' b \<longleftrightarrow> a_online s b \<and> b \<noteq> a)"
    if "agents_wf s" "a_online s a" for s a
    using that
    by (auto simp: agents_wf_def agent_close_online) (auto simp: agentNodeOnline_def flag_simps)
qed

text \<open>
  Closing the agent's server leaves connections open: \<open>Clients.close\<close> ranges over the
  slice that every close shortens. With three or more members connected the first one is closed
  and the second one is skipped: it is online and its connection open afterwards.
\<close>

theorem server_close_leaks:
  assumes "agents_wf s" and "vis (clients s) = a # b # c # ds" and "distinct (vis (clients s))"
    and "\<forall>x \<in> set (vis (clients s)). a_online s x"
  shows "\<exists>s'. Server_Close s = Ret s' \<and> a_online s' b \<and> an_open (a_heap s' b) \<and> \<not> a_online s' a"
proof -
  define s0 where "s0 = (if a_listener s \<noteq> None then s\<lparr>a_listener := Some False\<rparr> else s)"
  have s0: "agents_wf s0" "clients s0 = clients s" "a_heap s0 = a_heap s"
    using assms(1) by (simp_all add: s0_def agents_wf_def)
  obtain s' where "range_do clients agent_close s0 = Ret s'" "agents_wf s'" "a_online s' b" "\<not> a_online s' a"
    using agents.close_skips_second [OF s0(1)] assms(2-4) unfolding s0 by blast
  moreover from this have "an_open (a_heap s' b)" by (simp add: agents_wf_def agent_wf_def)
  ultimately show ?thesis by (auto simp: Server_Close_def clients_close_def s0_def)
qed

lemma Server_Close_returns: "agents_wf s \<Longrightarrow> \<exists>s'. Server_Close s = Ret s'"
  unfolding Server_Close_def clients_close_def
  using agents.close_all_returns [of s] agents.close_all_returns [of "s\<lparr>a_listener := Some False\<rparr>"]
  by (auto simp: agents_wf_def)

definition demo_agents :: agent_srv where
  "demo_agents = NewServer\<lparr>a_heap := (\<lambda>_. agent_newNode), a_fresh := 4, clients := \<lparr>vis = [1, 2, 3], spare = []\<rparr>\<rparr>"

lemma demo_agents_online [simp]: "a_online demo_agents a"
  by (simp add: demo_agents_def agent_newNode_def agentNodeOnline_def flag_simps)

lemma demo_agents_wf [simp]: "agents_wf demo_agents"
  by (simp add: agents_wf_def agent_wf_def) (simp add: demo_agents_def agent_newNode_def)

theorem server_close_leaks_witness:
  "\<exists>s'. Server_Close demo_agents = Ret s' \<and> a_online s' 2 \<and> an_open (a_heap s' 2) \<and> \<not> a_online s' 1"
  by (rule server_close_leaks [where c = 3 and ds = "[]"])
    (simp_all add: demo_agents_def [THEN arg_cong [where f = clients]])


section \<open>Broadcasting\<close>

lemma each_AsyncSend:
  assumes "distinct as" and "\<forall>a \<in> set as. a_online s a \<and> \<not> an_queue_closed (a_heap s a) \<and>
      length (an_queue (a_heap s a)) < agentMaxSendQueue"
  shows "each (agent_AsyncSend msgID d) as s =
    Ret (s\<lparr>a_heap := \<lambda>b. if b \<in> set as
      then (a_heap s b)\<lparr>an_queue := an_queue (a_heap s b) @ [Encode msgID d]\<rparr> else a_heap s b\<rparr>)"
  using assms
proof (induction as arbitrary: s)
  case Nil
  then show ?case by simp
next
  case (Cons a as)
  define s1 where "s1 = upd_agent a (\<lambda>n. n\<lparr>an_queue := an_queue n @ [Encode msgID d]\<rparr>) s"
  have first: "agent_AsyncSend msgID d a s = Ret s1"
    using Cons.prems by (simp add: agent_AsyncSend_def s1_def)
  have same: "a_heap s1 b = a_heap s b" if "b \<in> set as" for b
    using that Cons.prems(1) by (auto simp: s1_def)
  have "each (agent_AsyncSend msgID d) as s1 =
      Ret (s1\<lparr>a_heap := \<lambda>b. if b \<in> set as
        then (a_heap s1 b)\<lparr>an_queue := an_queue (a_heap s1 b) @ [Encode msgID d]\<rparr> else a_heap s1 b\<rparr>)"
    using Cons.prems same by (intro Cons.IH) simp_all
  moreover have "s1\<lparr>a_heap := \<lambda>b. if b \<in> set as
        then (a_heap s1 b)\<lparr>an_queue := an_queue (a_heap s1 b) @ [Encode msgID d]\<rparr> else a_heap s1 b\<rparr> =
      s\<lparr>a_heap := \<lambda>b. if b \<in> set (a # as)
        then (a_heap s b)\<lparr>an_queue := an_queue (a_heap s b) @ [Encode msgID d]\<rparr> else a_heap s b\<rparr>"
    using Cons.prems(1) by (auto simp: s1_def upd_agent_def fun_eq_iff)
  ultimately show ?case using first by simp
qed

lemma AsyncSend_clients: "agent_AsyncSend msgID d a s = Ret s' \<Longrightarrow> clients s' = clients s"
  by (auto simp: agent_AsyncSend_def Let_def split: if_splits)

section \<open>End of file\<close>

text \<open>
  A member that closes its side is not noticed by the reader: an end of file counts as an
  empty read, so the loop goes on and the connection stays online and on the list; as every
  further read ends the same way at once, the loop spins until a write fails.
\<close>

theorem eof_keeps_connection:
  "\<exists>s'. agent_readMessage_turn grow ReadEOF a s = Ret (s', True) \<and>
     (\<forall>b. a_online s' b = a_online s b \<and> an_open (a_heap s' b) = an_open (a_heap s b)) \<and> clients s' = clients s"
proof -
  obtain buf st out where r: "agent_onMessage grow ignore_msg [] (an_recvBuf (a_heap s a), ()) = (buf, st, out)"
    by (metis prod.exhaust)
  have "snd (snd (onMessage_loop grow ignore_msg b u)) = Ret ()" for b u
    by (rule loop_returns) (simp add: returns_def ignore_msg_def)
  then have "out = Ret ()" using r unfolding agent_onMessage_def by (metis snd_conv)
  with r show ?thesis by (simp add: agent_readMessage_turn_def)
qed

section \<open>The list of members\<close>

text \<open>The steps of the agent's server: its accept loop, the senders and readers of its
  connections, its heartbeat, a broadcast, and closing.\<close>

inductive server_step :: "growth \<Rightarrow> agent_srv \<Rightarrow> agent_srv \<Rightarrow> bool" for grow where
  listen: "agent_listen err s = Ret s' \<Longrightarrow> server_step grow s s'"
| accept: "agent_accept_turn grow dn err s = (s', b) \<Longrightarrow> server_step grow s s'"
| sender: "agent_sender_turn err a s = Ret (s', b) \<Longrightarrow> server_step grow s s'"
| reader: "agent_readMessage_turn grow r a s = Ret (s', b) \<Longrightarrow> server_step grow s s'"
| alive: "Server_keepalive_turn dn s = Ret (s', b) \<Longrightarrow> server_step grow s s'"
| publish: "Broadcast msgID d s = Ret s' \<Longrightarrow> server_step grow s s'"
| shut: "Server_Close s = Ret s' \<Longrightarrow> server_step grow s s'"

definition members_ok :: "agent_srv \<Rightarrow> bool" where
  "members_ok s \<longleftrightarrow>
     agents_wf s \<and> distinct (vis (clients s)) \<and> set (vis (clients s)) = {a. a_online s a} \<and>
     (\<forall>a. a_online s a \<longrightarrow> a < a_fresh s)"

text \<open>Connections that change only in what they have read, written and queued.\<close>

definition same_members :: "agent_srv \<Rightarrow> agent_srv \<Rightarrow> bool" where
  "same_members s s' \<longleftrightarrow>
     clients s' = clients s \<and> a_fresh s' = a_fresh s \<and> (\<forall>a. a_online s' a = a_online s a) \<and>
     (agents_wf s \<longrightarrow> agents_wf s')"

lemma members_ok_same: "members_ok s \<Longrightarrow> same_members s s' \<Longrightarrow> members_ok s'"
  by (simp add: members_ok_def same_members_def)

lemma same_AsyncSend: "agent_AsyncSend msgID d a s = Ret s' \<Longrightarrow> same_members s s'"
  by (auto simp: agent_AsyncSend_def same_members_def agents_wf_def agent_wf_def Let_def split: if_splits)

lemma same_upd:
  "(\<And>n. an_status (f n) = an_status n \<and> (agent_wf n \<longrightarrow> agent_wf (f n))) \<Longrightarrow> same_members s (upd_agent a f s)"
  by (auto simp: same_members_def agents_wf_def)

lemma members_ok_close:
  assumes "members_ok s" and "agent_close a s = Ret s'"
  shows "members_ok s'"
proof (cases "a_online s a")
  case True
  have wf: "agents_wf s" using assms(1) by (simp add: members_ok_def)
  from agents.cl_alive [OF this True] assms(2)
  have s': "agents_wf s'" "clients s' = gs_remove a (clients s)" "\<And>b. a_online s' b \<longleftrightarrow> a_online s b \<and> b \<noteq> a"
    by auto
  moreover have "a_fresh s' = a_fresh s"
    using wf True assms(2) by (auto simp: agent_close_online agents_wf_def)
  ultimately show ?thesis using assms(1) by (auto simp: members_ok_def)
qed (use assms agents.cl_dead in auto)

lemma members_ok_accept:
  assumes "members_ok s" and "agent_accept_turn grow dn err s = (s', b)"
  shows "members_ok s'"
proof -
  have "\<not> a_online s (a_fresh s)" using assms(1) by (auto simp: members_ok_def)
  moreover have "has_flag (an_status agent_newNode) agentNodeOnline" "agent_wf agent_newNode"
    by (simp_all add: agent_wf_def agent_newNode_def agentNodeOnline_def flag_simps)
  ultimately show ?thesis
    using assms
    by (auto simp: agent_accept_turn_def members_ok_def agents_wf_def clients_append_def less_Suc_eq
        split: if_splits)
qed

lemma members_ok_sender:
  assumes "members_ok s" and "agent_sender_turn err a s = Ret (s', b)"
  shows "members_ok s'"
proof -
  have pop: "members_ok (upd_agent a (\<lambda>n. n\<lparr>an_queue := q, an_writes := ws n\<rparr>) s)"
    if "Suc (length q) \<le> agentMaxSendQueue" for q ws
    using that by (intro members_ok_same [OF assms(1)] same_upd) (simp add: agent_wf_def)
  have "length (an_queue (a_heap s a)) \<le> agentMaxSendQueue" if "a_online s a"
    using that assms(1) by (simp add: members_ok_def agents_wf_def agent_wf_def)
  with assms show ?thesis
    by (auto simp: agent_sender_turn_def Let_def split: if_splits list.splits elim!: go_bind_RetE
        intro: pop members_ok_close [OF pop])
qed

lemma members_ok_reader:
  assumes "members_ok s" and "agent_readMessage_turn grow r a s = Ret (s', b)"
  shows "members_ok s'"
proof -
  have "members_ok (upd_agent a (\<lambda>n. n\<lparr>an_recvBuf := buf\<rparr>) s)" for buf
    by (intro members_ok_same [OF assms(1)] same_upd) (simp add: agent_wf_def)
  with assms show ?thesis
    by (auto simp: agent_readMessage_turn_def Let_def split: read_result.splits prod.splits
        elim!: go_bind_RetE intro: members_ok_close)
qed

lemma members_ok_each:
  "members_ok s \<Longrightarrow> range_do clients (agent_AsyncSend msgID d) s = Ret s' \<Longrightarrow> members_ok s'"
  by (erule range_do_keeps [where P = members_ok, rotated 2]) (blast intro: members_ok_same same_AsyncSend)+

lemma members_ok_step:
  assumes "server_step grow s s'" and "members_ok s"
  shows "members_ok s'"
  using assms
proof (cases rule: server_step.cases)
  case (listen err)
  with assms(2) show ?thesis
    by (auto simp: agent_listen_def members_ok_def agents_wf_def split: if_splits)
next
  case (alive dn b)
  with assms(2) show ?thesis
    by (auto simp: Server_keepalive_turn_def clients_asyncSend_def split: if_splits elim!: go_bind_RetE
        intro: members_ok_each)
next
  case (publish msgID d)
  with assms(2) show ?thesis by (auto simp: Broadcast_def intro: members_ok_each)
next
  case shut
  have "members_ok (s\<lparr>a_listener := l\<rparr>)" for l
    using assms(2) by (simp add: members_ok_def agents_wf_def)
  with shut assms(2) show ?thesis
    by (auto simp: Server_Close_def clients_close_def split: if_splits
        elim!: range_do_keeps [where P = members_ok, rotated 2] intro: members_ok_close)
qed (auto intro: members_ok_accept members_ok_sender members_ok_reader)

lemma reachable_members:
  assumes "(server_step grow)\<^sup>*\<^sup>* NewServer s"
  shows "members_ok s"
proof -
  have "members_ok NewServer"
    by (simp add: members_ok_def agents_wf_def NewServer_def agentNodeOnline_def flag_simps gs_make_def)
  with assms show ?thesis
    by (induction rule: rtranclp_induct) (blast intro: members_ok_step)+
qed

lemma Broadcast_eq:
  assumes "agents_wf s" and "distinct (vis (clients s))"
    and "\<forall>a \<in> set (vis (clients s)). a_online s a \<and> length (an_queue (a_heap s a)) < agentMaxSendQueue"
  shows "Broadcast msgID data s =
    Ret (s\<lparr>a_heap := \<lambda>b. if b \<in> set (vis (clients s))
      then (a_heap s b)\<lparr>an_queue := an_queue (a_heap s b) @ [Encode msgID data]\<rparr> else a_heap s b\<rparr>)"
proof -
  have "Broadcast msgID data s = each (agent_AsyncSend msgID data) (vis (clients s)) s"
    unfolding Broadcast_def by (rule range_do_each) (rule AsyncSend_clients)
  then show ?thesis
    using assms by (simp add: each_AsyncSend agents_wf_def agent_wf_def)
qed

text \<open>Two members connect to a new server.\<close>

definition demo_agent_conn :: agent_srv where
  "demo_agent_conn = fst (agent_accept_turn (\<lambda>_ n. n) False False
     (fst (agent_accept_turn (\<lambda>_ n. n) False False NewServer)))"

lemma demo_agent_reachable: "(server_step (\<lambda>_ n. n))\<^sup>*\<^sup>* NewServer demo_agent_conn"
proof -
  have "server_step (\<lambda>_ n. n) s (fst (agent_accept_turn (\<lambda>_ n. n) False False s))" for s
    by (rule server_step.accept [where b = "snd (agent_accept_turn (\<lambda>_ n. n) False False s)"]) simp
  then show ?thesis unfolding demo_agent_conn_def by (meson converse_rtranclp_into_rtranclp rtranclp.rtrancl_refl)
qed

lemma demo_agent_conn_simps [simp]:
  "a_heap demo_agent_conn = (\<lambda>_. agent_newNode\<lparr>an_status := 0\<rparr>)(1 := agent_newNode, 2 := agent_newNode)"
  "vis (clients demo_agent_conn) = [1, 2]"
  by (simp_all add: demo_agent_conn_def agent_accept_turn_def NewServer_def clients_append_def gs_make_def numeral_2_eq_2)



text \<open>
  C29. A broadcast reaches every member: in every state the server can reach, with room in the
  queues, \<open>Broadcast\<close> puts the encoded message into the queue of every connection that is
  online, once and behind what is queued there, and into no other queue.
\<close>

theorem broadcast_reaches_members:
  assumes "(server_step grow)\<^sup>*\<^sup>* NewServer s"
    and "\<forall>a. a_online s a \<longrightarrow> length (an_queue (a_heap s a)) < agentMaxSendQueue"
  shows "\<exists>s'. Broadcast msgID data s = Ret s' \<and> clients s' = clients s \<and>
    (\<forall>a. a_online s' a = a_online s a \<and>
         an_queue (a_heap s' a) = an_queue (a_heap s a) @ (if a_online s a then [Encode msgID data] else []))"
proof -
  from reachable_members [OF assms(1)]
  have ok: "agents_wf s" "distinct (vis (clients s))" "set (vis (clients s)) = {a. a_online s a}"
    by (simp_all add: members_ok_def)
  with assms(2) show ?thesis by (simp add: Broadcast_eq)
qed

theorem broadcast_reaches_members_witness:
  "\<exists>s'. Broadcast 1 [7] demo_agent_conn = Ret s' \<and> an_queue (a_heap s' 1) = [Encode 1 [7]] \<and>
     an_queue (a_heap s' 2) = [Encode 1 [7]] \<and> an_queue (a_heap s' 3) = []"
proof -
  have on: "a_online demo_agent_conn a \<longleftrightarrow> a = 1 \<or> a = 2" for a
    by (simp add: agent_newNode_def agentNodeOnline_def flag_simps)
  have q: "an_queue (a_heap demo_agent_conn a) = []" for a by (simp add: agent_newNode_def)
  from broadcast_reaches_members [OF demo_agent_reachable, of 1 "[7]"] on q
  show ?thesis by (auto simp: agentMaxSendQueue_def)
qed

end
