(* ===== verification/Agent_Client.thy ===== *)
theory Agent_Client
  imports Agent_Reader "HOL-Library.AList"
begin

text \<open>
  The agent's client, with which a follower listens to the leader: \<^verbatim>\<open>src/agent/client.go\<close>
  (requests with waiters, heartbeats, the reading goroutine) and
  \<^verbatim>\<open>src/agent/client_sync.go\<close> (one request, one read). Waiters are shared between the
  caller, the table and the reader, so they live in a heap; a waiter's channel holds one
  reply. The message callback is a parameter on a state of any type (\<open>x_st\<close>). The reading
  loop is that of \<open>Agent_Reader\<close> with the handler \<open>client_handler\<close>.
\<close>

section \<open>State\<close>

type_synonym err_opt = "g_error option"

record Waiter =
  w_msgID :: int64
  w_data :: "bytes list" \<comment> \<open>a channel of capacity 1\<close>
  w_closed :: bool
  w_time :: int64

record 's aclient =
  x_buffer :: "byte gslice"
  x_conn :: "(bool \<times> bytes list) option" \<comment> \<open>nil, or whether it is open and what was written\<close>
  x_status :: nat
  x_msgID :: int64
  x_async :: "bytes list"
  x_waiter :: "(int64 \<times> nat) list"
  x_heap :: "nat \<Rightarrow> Waiter"
  x_fresh :: nat
  x_timeout :: int64
  x_st :: 's

definition statusConnect :: nat where "statusConnect = 1"
definition asyncWriteChanLen :: nat where "asyncWriteChanLen = 10000"
definition heartbeat :: bytes where "heartbeat = [0]"

definition NewAgentClient :: "'s \<Rightarrow> 's aclient" where
  "NewAgentClient st =
     \<lparr>x_buffer = gs_make, x_conn = None, x_status = 0, x_msgID = 1, x_async = [], x_waiter = [],
      x_heap = (\<lambda>_. \<lparr>w_msgID = 0, w_data = [], w_closed = True, w_time = 0\<rparr>), x_fresh = 0,
      x_timeout = 6000, x_st = st\<rparr>"

text \<open>Of the options only the age at which a waiter is dropped is data of the client; the callbacks,
  the codec and the size of a read are arguments of the operations.\<close>

definition SetWaiterGlobalTimeout :: "int64 \<Rightarrow> 's aclient \<Rightarrow> 's aclient" where
  "SetWaiterGlobalTimeout timeout c = c\<lparr>x_timeout := timeout\<rparr>"

section \<open>Operations\<close>

definition close_waiter :: "nat \<Rightarrow> 's aclient \<Rightarrow> 's aclient go" where
  "close_waiter w c =
     (if w_closed (x_heap c w) then Panic CloseOfClosedChannel
      else Ret (c\<lparr>x_heap := (x_heap c)(w := (x_heap c w)\<lparr>w_closed := True\<rparr>)\<rparr>))"

definition delWaiter :: "int64 \<Rightarrow> 's aclient \<Rightarrow> 's aclient go" where
  "delWaiter msgID c =
     (case map_of (x_waiter c) msgID of
        None \<Rightarrow> Ret c
      | Some w \<Rightarrow> go_bind (close_waiter w c) (\<lambda>c'. Ret (c'\<lparr>x_waiter := AList.delete msgID (x_waiter c')\<rparr>)))"

text \<open>\<open>Wait\<close>: a reply or the closing of the channel, whichever the \<open>select\<close> finds, or the
  timeout. The first eight bytes of what the channel delivers are the id.\<close>

definition Wait :: "bool \<Rightarrow> nat \<Rightarrow> 's aclient \<Rightarrow> ((bytes + g_error) \<times> 's aclient) go" where
  "Wait timeout w c =
     (if timeout then Ret (Inr ErrWaitTimeout, c)
      else case w_data (x_heap c w) of
        data # q \<Rightarrow>
          go_bind (sub data 0 8) (\<lambda>i.
            go_bind (delWaiter (word_of_nat (le_nat i))
                (c\<lparr>x_heap := (x_heap c)(w := (x_heap c w)\<lparr>w_data := q\<rparr>)\<rparr>)) (\<lambda>c'.
              Ret (Inl (drop 8 data), c')))
      | [] \<Rightarrow> if w_closed (x_heap c w) then Ret (Inr ErrChanIsClosed, c) else Block)"

definition client_AsyncSend :: "bytes \<Rightarrow> 's aclient \<Rightarrow> 's aclient go" where
  "client_AsyncSend data c =
     (if length (x_async c) < asyncWriteChanLen then Ret (c\<lparr>x_async := x_async c @ [data]\<rparr>) else Block)"

text \<open>The next message id; the comparison with \<open>math.MaxInt64\<close> is one of \<open>int64\<close> values.\<close>

definition next_msgID :: "'s aclient \<Rightarrow> int64 \<times> 's aclient" where
  "next_msgID c =
     (let msgID = x_msgID c + 1
      in if sint msgID > 2 ^ 63 - 1 then (2, c\<lparr>x_msgID := 2\<rparr>) else (msgID, c\<lparr>x_msgID := msgID\<rparr>))"

definition conn_write :: "bytes \<Rightarrow> 's aclient \<Rightarrow> 's aclient go" where
  "conn_write d c =
     (case x_conn c of None \<Rightarrow> Panic NilDereference
      | Some (op, ws) \<Rightarrow> Ret (c\<lparr>x_conn := Some (op, ws @ [d])\<rparr>))"

text \<open>\<open>Send\<close> at time \<open>now\<close> (in milliseconds); what \<open>Write\<close> returns is \<open>err\<close>.\<close>

definition client_Send :: "int64 \<Rightarrow> err_opt \<Rightarrow> bytes \<Rightarrow> 's aclient \<Rightarrow> ((nat option \<times> err_opt) \<times> 's aclient) go" where
  "client_Send now err data c =
     (if \<not> has_flag (x_status c) statusConnect then Ret ((None, Some ErrNotConnect), c)
      else let (msgID, c1) = next_msgID c;
               w = x_fresh c1;
               c2 = c1\<lparr>x_heap := (x_heap c1)(w := \<lparr>w_msgID = msgID, w_data = [], w_closed = False, w_time = now\<rparr>),
                       x_fresh := w + 1, x_waiter := AList.update msgID w (x_waiter c1)\<rparr>
           in go_bind (conn_write (Encode msgID data) c2) (\<lambda>c3. Ret ((Some w, err), c3)))"

definition client_Write :: "err_opt \<Rightarrow> bytes \<Rightarrow> 's aclient \<Rightarrow> (err_opt \<times> 's aclient) go" where
  "client_Write err data c =
     (if \<not> has_flag (x_status c) statusConnect then Ret (Some ErrNotConnect, c)
      else let (msgID, c1) = next_msgID c
           in go_bind (conn_write (Encode msgID data) c1) (\<lambda>c2. Ret (err, c2)))"

text \<open>The three loops of \<open>keep\<close>, one pass each: the heartbeat, the queue of asynchronous
  writes, and the waiters that have timed out (at time \<open>now\<close>).\<close>

definition keep_heartbeat :: "err_opt \<Rightarrow> 's aclient \<Rightarrow> 's aclient go" where
  "keep_heartbeat err c = go_bind (client_Write err heartbeat c) (\<lambda>(_, c'). Ret c')"

definition keep_async :: "err_opt \<Rightarrow> 's aclient \<Rightarrow> 's aclient go" where
  "keep_async err c =
     (case x_async c of
        [] \<Rightarrow> Block
      | d # q \<Rightarrow> go_bind (client_Write err d (c\<lparr>x_async := q\<rparr>)) (\<lambda>(_, c'). Ret c'))"

definition expire_one :: "int64 \<Rightarrow> int64 \<times> nat \<Rightarrow> 's aclient \<Rightarrow> 's aclient go" where
  "expire_one now e c =
     (if x_timeout c \<le>s now - w_time (x_heap c (snd e))
      then go_bind (close_waiter (snd e) c) (\<lambda>c'. Ret (c'\<lparr>x_waiter := AList.delete (fst e) (x_waiter c')\<rparr>))
      else Ret c)"

definition keep_waiters :: "int64 \<Rightarrow> 's aclient \<Rightarrow> 's aclient go" where
  "keep_waiters now c = each (expire_one now) (x_waiter c) c"

definition client_Connect :: "bool \<Rightarrow> 's aclient \<Rightarrow> err_opt \<times> 's aclient" where
  "client_Connect dial_ok c =
     (if has_flag (x_status c) statusConnect then (Some ErrIsConnected, c)
      else if \<not> dial_ok then (Some (ErrExternal ''dial''), c)
      else let c1 = (if has_flag (x_status c) statusConnect then c
                     else c\<lparr>x_status := x_status c OR statusConnect\<rparr>)
           in (None, c1\<lparr>x_conn := Some (True, [])\<rparr>))"

definition client_Disconnect :: "'s aclient \<Rightarrow> 's aclient go" where
  "client_Disconnect c =
     (if \<not> has_flag (x_status c) statusConnect then Ret c
      else case x_conn c of
        None \<Rightarrow> Panic NilDereference
      | Some (op, ws) \<Rightarrow> Ret (c\<lparr>x_conn := Some (False, ws), x_status := x_status c XOR statusConnect\<rparr>))"

section \<open>Reading\<close>

definition client_handler :: "('s \<Rightarrow> bytes \<Rightarrow> 's \<times> unit go) \<Rightarrow> 's aclient handler" where
  "client_handler cb c msgID content =
     (let (c1, out) =
        (if sint msgID > 1
         then (case map_of (x_waiter c) msgID of
                 None \<Rightarrow> (c, Ret ())
               | Some w \<Rightarrow>
                   let data = le_bytes 8 (unat msgID) @ content
                   in if w_closed (x_heap c w) then (c, Panic SendOnClosedChannel)
                      else if w_data (x_heap c w) \<noteq> [] then (c, Block)
                      else (c\<lparr>x_heap := (x_heap c)(w := (x_heap c w)\<lparr>w_data := [data]\<rparr>)\<rparr>, Ret ()))
         else (c, Ret ()))
      in case out of
           Ret _ \<Rightarrow>
             if content \<noteq> heartbeat
             then (let (st, out') = cb (x_st c1) content in (c1\<lparr>x_st := st\<rparr>, out'))
             else (c1, Ret ())
         | _ \<Rightarrow> (c1, out))"

definition aclient_onMessage :: "growth \<Rightarrow> ('s \<Rightarrow> bytes \<Rightarrow> 's \<times> unit go) \<Rightarrow> bytes \<Rightarrow> 's aclient \<Rightarrow> 's aclient go" where
  "aclient_onMessage grow cb msg c =
     (let (buf, c', out) = agent_onMessage grow (client_handler cb) msg (x_buffer c, c)
      in go_bind out (\<lambda>_. Ret (c'\<lparr>x_buffer := buf\<rparr>)))"

text \<open>A pass of \<open>readMessage\<close>: \<open>None\<close> is a failed or empty read.\<close>

definition aclient_readMessage_turn ::
  "growth \<Rightarrow> ('s \<Rightarrow> bytes \<Rightarrow> 's \<times> unit go) \<Rightarrow> bytes option \<Rightarrow> 's aclient \<Rightarrow> 's aclient go" where
  "aclient_readMessage_turn grow cb r c =
     (if \<not> has_flag (x_status c) statusConnect then Ret c
      else case r of
        None \<Rightarrow> client_Disconnect c
      | Some d \<Rightarrow> aclient_onMessage grow cb d c)"


section \<open>Requests and replies\<close>

lemma next_msgID_eq: "next_msgID c = (x_msgID c + 1, c\<lparr>x_msgID := x_msgID c + 1\<rparr>)"
proof -
  have "sint (x_msgID c + 1) < 2 ^ (LENGTH(64) - 1)" by (rule sint_lt)
  then show ?thesis by (simp add: next_msgID_def Let_def)
qed

definition cb_returns :: "('s \<Rightarrow> bytes \<Rightarrow> 's \<times> unit go) \<Rightarrow> bool" where
  "cb_returns cb \<longleftrightarrow> (\<forall>st d. snd (cb st d) = Ret ())"

text \<open>The handler when the reply's waiter is there and empty.\<close>

lemma client_handler_reply:
  assumes "1 < sint m" and "map_of (x_waiter c) m = Some w" and "\<not> w_closed (x_heap c w)"
    and "w_data (x_heap c w) = []" and "cb_returns cb"
  shows "snd (client_handler cb c m content) = Ret ()"
    and "\<exists>st. fst (client_handler cb c m content) =
      c\<lparr>x_heap := (x_heap c)(w := (x_heap c w)\<lparr>w_data := [le_bytes 8 (unat m) @ content]\<rparr>), x_st := st\<rparr>"
proof -
  show "snd (client_handler cb c m content) = Ret ()"
    using assms by (simp add: client_handler_def cb_returns_def case_prod_beta Let_def)
  have "fst (client_handler cb c m content) =
      c\<lparr>x_heap := (x_heap c)(w := (x_heap c w)\<lparr>w_data := [le_bytes 8 (unat m) @ content]\<rparr>),
        x_st := (if content = heartbeat then x_st c else fst (cb (x_st c) content))\<rparr>"
    using assms by (cases c) (simp add: client_handler_def cb_returns_def case_prod_beta Let_def)
  then show "\<exists>st. fst (client_handler cb c m content) =
      c\<lparr>x_heap := (x_heap c)(w := (x_heap c w)\<lparr>w_data := [le_bytes 8 (unat m) @ content]\<rparr>), x_st := st\<rparr>"
    by blast
qed

lemma sint_ge_1: "1 < sint m \<Longrightarrow> 0 < sint m"
  by simp

text \<open>Reading one reply.\<close>

lemma aclient_reply:
  assumes "vis (x_buffer c) = []" and "length (Encode m reply) \<le> PackageMaxLength" and "1 < sint m"
    and "map_of (x_waiter c) m = Some w" and "\<not> w_closed (x_heap c w)" and "w_data (x_heap c w) = []"
    and "cb_returns cb"
  shows "\<exists>st buf. vis buf = [] \<and> aclient_onMessage grow cb (Encode m reply) c =
    Ret (c\<lparr>x_heap := (x_heap c)(w := (x_heap c w)\<lparr>w_data := [le_bytes 8 (unat m) @ reply]\<rparr>), x_st := st,
           x_buffer := buf\<rparr>)"
proof -
  note h = client_handler_reply [OF assms(3-7), of reply]
  obtain st where st: "fst (client_handler cb c m reply) =
      c\<lparr>x_heap := (x_heap c)(w := (x_heap c w)\<lparr>w_data := [le_bytes 8 (unat m) @ reply]\<rparr>), x_st := st\<rparr>"
    using h(2) by blast
  have v: "vis (fst (x_buffer c, c)) = []" using assms(1) by simp
  obtain buf where "vis buf = []" "agent_onMessage grow (client_handler cb) (Encode m reply) (x_buffer c, c) =
      (buf, fst (client_handler cb c m reply), Ret ())"
    by (rule onMessage_one_frame [OF v assms(2) sint_ge_1 [OF assms(3)], of grow "client_handler cb"])
      (use h(1) in simp)
  with st show ?thesis by (auto simp: aclient_onMessage_def)
qed

text \<open>
  Request and reply: after \<open>Send\<close> on a connected client, the reply that carries the
  request's id reaches the caller: once its frame is read, \<open>Wait\<close> returns exactly its content
  and takes the waiter off the table. (The id is above 1, the callback returns.)
\<close>

theorem request_gets_its_reply:
  assumes "has_flag (x_status c) statusConnect" and "x_conn c = Some (op, ws)" and "vis (x_buffer c) = []"
    and "1 < sint (x_msgID c + 1)" and "length (Encode (x_msgID c + 1) reply) \<le> PackageMaxLength"
    and "cb_returns cb"
  shows "\<exists>w c1 c2 c3. client_Send now None req c = Ret ((Some w, None), c1) \<and>
    x_conn c1 = Some (op, ws @ [Encode (x_msgID c + 1) req]) \<and>
    aclient_onMessage grow cb (Encode (x_msgID c + 1) reply) c1 = Ret c2 \<and>
    Wait False w c2 = Ret (Inl reply, c3) \<and> map_of (x_waiter c3) (x_msgID c + 1) = None"
proof -
  define m where "m = x_msgID c + 1"
  define w where "w = x_fresh c"
  define c1 where "c1 = c\<lparr>x_msgID := m,
    x_heap := (x_heap c)(w := \<lparr>w_msgID = m, w_data = [], w_closed = False, w_time = now\<rparr>),
    x_fresh := w + 1, x_waiter := AList.update m w (x_waiter c), x_conn := Some (op, ws @ [Encode m req])\<rparr>"
  have send: "client_Send now None req c = Ret ((Some w, None), c1)"
    using assms(1,2) by (simp add: client_Send_def next_msgID_eq conn_write_def Let_def c1_def m_def w_def)
  have c1: "map_of (x_waiter c1) m = Some w" "\<not> w_closed (x_heap c1 w)" "w_data (x_heap c1 w) = []"
    by (simp_all add: c1_def update_conv)
  obtain st buf where reply: "aclient_onMessage grow cb (Encode m reply) c1 =
      Ret (c1\<lparr>x_heap := (x_heap c1)(w := (x_heap c1 w)\<lparr>w_data := [le_bytes 8 (unat m) @ reply]\<rparr>), x_st := st,
        x_buffer := buf\<rparr>)"
    using aclient_reply [of c1 m reply w cb grow] c1 assms(3-6) by (auto simp: c1_def m_def)
  define c2 where "c2 = c1\<lparr>x_heap := (x_heap c1)(w := (x_heap c1 w)\<lparr>w_data := [le_bytes 8 (unat m) @ reply]\<rparr>),
    x_st := st, x_buffer := buf\<rparr>"
  have "unat m < 256 ^ 8" using unsigned_less [of m] by simp
  then have i: "word_of_nat (le_nat (take 8 (le_bytes 8 (unat m) @ reply))) = m" by simp
  have wait: "\<exists>c3. Wait False w c2 = Ret (Inl reply, c3) \<and> map_of (x_waiter c3) m = None"
    using c1 i by (simp add: Wait_def c2_def delWaiter_def close_waiter_def delete_conv)
  show ?thesis
    using send reply wait by (auto simp: c1_def c2_def m_def)
qed

definition demo_aclient :: "nat aclient" where
  "demo_aclient = (NewAgentClient 0)\<lparr>x_status := statusConnect, x_conn := Some (True, [])\<rparr>"

theorem request_gets_its_reply_witness:
  "\<exists>w c1 c2 c3. client_Send 5 None [1] demo_aclient = Ret ((Some w, None), c1) \<and>
    x_conn c1 = Some (True, [] @ [Encode (x_msgID demo_aclient + 1) [1]]) \<and>
    aclient_onMessage (\<lambda>_ n. n) (\<lambda>st d. (st + 1, Ret ())) (Encode (x_msgID demo_aclient + 1) [2]) c1 = Ret c2 \<and>
    Wait False w c2 = Ret (Inl [2], c3) \<and> map_of (x_waiter c3) (x_msgID demo_aclient + 1) = None"
  by (rule request_gets_its_reply)
    (simp_all add: demo_aclient_def NewAgentClient_def statusConnect_def flag_simps gs_make_def
      PackageMaxLength_def cb_returns_def)

text \<open>
  A second reply with the same id stops the reader: the waiter's channel holds one reply,
  so when another frame with its id is read before the caller has taken the first, the reading
  goroutine blocks in the middle of the frame, and with it every later message.
\<close>

theorem duplicate_reply_blocks:
  assumes "vis (x_buffer c) = []" and "length (Encode m reply) \<le> PackageMaxLength" and "1 < sint m"
    and "map_of (x_waiter c) m = Some w" and "\<not> w_closed (x_heap c w)" and "w_data (x_heap c w) \<noteq> []"
  shows "aclient_onMessage grow cb (Encode m reply) c = Block"
proof -
  have h: "snd (client_handler cb c m reply) = Block"
    using assms(3-6) by (simp add: client_handler_def Let_def)
  have v: "vis (fst (x_buffer c, c)) = []" using assms(1) by simp
  obtain buf where "agent_onMessage grow (client_handler cb) (Encode m reply) (x_buffer c, c) =
      (buf, fst (client_handler cb c m reply), Block)"
    by (rule onMessage_one_frame [OF v assms(2) sint_ge_1 [OF assms(3)], of grow "client_handler cb"])
      (use h in simp)
  then show ?thesis by (simp add: aclient_onMessage_def)
qed

theorem duplicate_reply_blocks_witness:
  "aclient_onMessage (\<lambda>_ n. n) (\<lambda>st d. (st, Ret ())) (Encode 2 [1])
     (demo_aclient\<lparr>x_waiter := [(2, 0)],
        x_heap := (\<lambda>_. \<lparr>w_msgID = 2, w_data = [[9]], w_closed = False, w_time = 0\<rparr>)\<rparr>) = Block"
  by (rule duplicate_reply_blocks [where w = 0])
    (simp_all add: demo_aclient_def NewAgentClient_def gs_make_def PackageMaxLength_def)

text \<open>
  The guard against an overflow of message ids never fires: an \<open>int64\<close> is never greater
  than \<open>math.MaxInt64\<close>. The id after the largest one is the smallest negative number, which
  the peer's reader takes for an incomplete package.
\<close>

theorem msgID_overflow_guard_dead:
  "fst (next_msgID c) = x_msgID c + 1 \<and>
   (x_msgID c = 2 ^ 63 - 1 \<longrightarrow> sint (fst (next_msgID c)) = - (2 ^ 63))"
  by (simp add: next_msgID_eq)

theorem msgID_overflow_guard_dead_witness:
  "sint (fst (next_msgID (demo_aclient\<lparr>x_msgID := 2 ^ 63 - 1\<rparr>))) = - (2 ^ 63)"
  using msgID_overflow_guard_dead [of "demo_aclient\<lparr>x_msgID := 2 ^ 63 - 1\<rparr>"] by simp


section \<open>Waiters that time out\<close>

text \<open>The table's waiters are open, and no two ids share one.\<close>

definition waiters_ok :: "'s aclient \<Rightarrow> bool" where
  "waiters_ok c \<longleftrightarrow> distinct (map fst (x_waiter c)) \<and> distinct (map snd (x_waiter c)) \<and>
     (\<forall>e \<in> set (x_waiter c). \<not> w_closed (x_heap c (snd e)))"

definition expired :: "int64 \<Rightarrow> 's aclient \<Rightarrow> int64 \<times> nat \<Rightarrow> bool" where
  "expired now c e \<longleftrightarrow> x_timeout c \<le>s now - w_time (x_heap c (snd e))"

lemma expire_each:
  assumes "distinct (map fst es)" and "distinct (map snd es)" and "\<forall>e \<in> set es. \<not> w_closed (x_heap c (snd e))"
  shows "each (expire_one now) es c =
    Ret (c\<lparr>x_heap := \<lambda>w. if \<exists>e \<in> set es. snd e = w \<and> expired now c e then (x_heap c w)\<lparr>w_closed := True\<rparr> else x_heap c w,
           x_waiter := filter (\<lambda>e'. \<forall>e \<in> set es. fst e = fst e' \<longrightarrow> \<not> expired now c e) (x_waiter c)\<rparr>)"
  using assms
proof (induction es arbitrary: c)
  case Nil
  then show ?case by simp
next
  case (Cons e es)
  show ?case
  proof (cases "expired now c e")
    case False
    then have "expire_one now e c = Ret c" by (simp add: expire_one_def expired_def)
    moreover have "filter (\<lambda>e'. \<forall>d \<in> set (e # es). fst d = fst e' \<longrightarrow> \<not> expired now c d) (x_waiter c) =
        filter (\<lambda>e'. \<forall>d \<in> set es. fst d = fst e' \<longrightarrow> \<not> expired now c d) (x_waiter c)"
      using False by (intro filter_cong) auto
    moreover have "(\<exists>d \<in> set (e # es). snd d = w \<and> expired now c d) = (\<exists>d \<in> set es. snd d = w \<and> expired now c d)" for w
      using False by auto
    ultimately show ?thesis using Cons by simp
  next
    case True
    define c1 where "c1 = c\<lparr>x_heap := (x_heap c)(snd e := (x_heap c (snd e))\<lparr>w_closed := True\<rparr>),
      x_waiter := AList.delete (fst e) (x_waiter c)\<rparr>"
    have step: "expire_one now e c = Ret c1"
      using True Cons.prems(3) by (simp add: expire_one_def expired_def close_waiter_def c1_def)
    have ne: "snd d \<noteq> snd e" if "d \<in> set es" for d
      using that Cons.prems(2) by (metis distinct.simps(2) image_eqI list.set_map list.simps(9))
    have same: "expired now c1 d = expired now c d" for d
      by (simp add: expired_def c1_def)
    have rec: "each (expire_one now) es c1 =
      Ret (c1\<lparr>x_heap := \<lambda>w. if \<exists>e \<in> set es. snd e = w \<and> expired now c e then (x_heap c1 w)\<lparr>w_closed := True\<rparr> else x_heap c1 w,
           x_waiter := filter (\<lambda>e'. \<forall>e \<in> set es. fst e = fst e' \<longrightarrow> \<not> expired now c e) (x_waiter c1)\<rparr>)"
      using Cons.prems ne unfolding same [symmetric] by (intro Cons.IH) (auto simp: c1_def)
    have hp: "(\<lambda>w. if \<exists>e \<in> set es. snd e = w \<and> expired now c e then (x_heap c1 w)\<lparr>w_closed := True\<rparr> else x_heap c1 w) =
        (\<lambda>w. if \<exists>e \<in> set (e # es). snd e = w \<and> expired now c e then (x_heap c w)\<lparr>w_closed := True\<rparr> else x_heap c w)"
      using True by (auto simp: c1_def fun_eq_iff)
    have tb: "filter (\<lambda>e'. \<forall>e \<in> set es. fst e = fst e' \<longrightarrow> \<not> expired now c e) (x_waiter c1) =
        filter (\<lambda>e'. \<forall>e \<in> set (e # es). fst e = fst e' \<longrightarrow> \<not> expired now c e) (x_waiter c)"
      using True by (auto simp: c1_def AList.delete_eq intro!: filter_cong)
    have "each (expire_one now) (e # es) c = each (expire_one now) es c1" by (simp add: step)
    then show ?thesis unfolding rec hp tb by (simp add: c1_def)
  qed
qed

text \<open>
  A pass of the cleaner takes exactly the timed-out requests off the table: their callers
  get \<open>ErrChanIsClosed\<close> from \<open>Wait\<close> (unless a reply is already there), all other requests
  stay, and nothing panics.
\<close>

theorem cleaner_expires_exactly_timeouts:
  assumes "waiters_ok c"
  shows "\<exists>c'. keep_waiters now c = Ret c' \<and> waiters_ok c' \<and>
    x_waiter c' = filter (\<lambda>e. \<not> expired now c e) (x_waiter c) \<and>
    (\<forall>e \<in> set (x_waiter c). w_closed (x_heap c' (snd e)) = expired now c e) \<and>
    (\<forall>e \<in> set (x_waiter c). expired now c e \<and> w_data (x_heap c (snd e)) = [] \<longrightarrow>
       Wait False (snd e) c' = Ret (Inr ErrChanIsClosed, c'))"
proof -
  define c' where "c' = c\<lparr>x_heap := \<lambda>w. if \<exists>e \<in> set (x_waiter c). snd e = w \<and> expired now c e
      then (x_heap c w)\<lparr>w_closed := True\<rparr> else x_heap c w,
    x_waiter := filter (\<lambda>e'. \<forall>e \<in> set (x_waiter c). fst e = fst e' \<longrightarrow> \<not> expired now c e) (x_waiter c)\<rparr>"
  have ok: "distinct (map fst (x_waiter c))" "distinct (map snd (x_waiter c))"
    "\<forall>e \<in> set (x_waiter c). \<not> w_closed (x_heap c (snd e))"
    using assms by (simp_all add: waiters_ok_def)
  have run: "keep_waiters now c = Ret c'"
    unfolding keep_waiters_def c'_def by (rule expire_each [OF ok])
  have same_fst: "e = e'" if "e \<in> set (x_waiter c)" "e' \<in> set (x_waiter c)" "fst e = fst e'" for e e'
    using that ok(1) by (meson distinct_map inj_onD)
  have same_snd: "e = e'" if "e \<in> set (x_waiter c)" "e' \<in> set (x_waiter c)" "snd e = snd e'" for e e'
    using that ok(2) by (meson distinct_map inj_onD)
  have tab: "x_waiter c' = filter (\<lambda>e. \<not> expired now c e) (x_waiter c)"
    unfolding c'_def by (auto intro!: filter_cong dest: same_fst)
  have cl: "w_closed (x_heap c' (snd e)) = expired now c e" if "e \<in> set (x_waiter c)" for e
  proof -
    have "(\<exists>d \<in> set (x_waiter c). snd d = snd e \<and> expired now c d) = expired now c e"
      using that same_snd by blast
    then show ?thesis using that ok(3) by (simp add: c'_def)
  qed
  have "distinct (map fst (x_waiter c'))" "distinct (map snd (x_waiter c'))"
    using ok(1,2) by (simp_all add: tab distinct_map_filter)
  then have "waiters_ok c'" using cl by (auto simp: waiters_ok_def tab)
  moreover have "Wait False (snd e) c' = Ret (Inr ErrChanIsClosed, c')"
    if "e \<in> set (x_waiter c)" "expired now c e" "w_data (x_heap c (snd e)) = []" for e
  proof -
    have "w_data (x_heap c' (snd e)) = []" using that(3) by (simp add: c'_def)
    then show ?thesis using cl [OF that(1)] that(2) by (simp add: Wait_def)
  qed
  ultimately show ?thesis using run tab cl by blast
qed

theorem cleaner_expires_exactly_timeouts_witness:
  "\<exists>c'. keep_waiters 9000 (demo_aclient\<lparr>x_waiter := [(2, 0)],
      x_heap := (\<lambda>_. \<lparr>w_msgID = 2, w_data = [], w_closed = False, w_time = 0\<rparr>)\<rparr>) = Ret c' \<and> x_waiter c' = []"
proof -
  let ?c = "demo_aclient\<lparr>x_waiter := [(2, 0)],
      x_heap := (\<lambda>_. \<lparr>w_msgID = 2, w_data = [], w_closed = False, w_time = 0\<rparr>)\<rparr>"
  have "waiters_ok ?c" by (simp add: waiters_ok_def)
  from cleaner_expires_exactly_timeouts [OF this, of 9000] obtain c' where
    "keep_waiters 9000 ?c = Ret c'" "x_waiter c' = filter (\<lambda>e. \<not> expired 9000 ?c e) (x_waiter ?c)"
    by blast
  moreover have "expired 9000 ?c (2, 0)"
    by (simp add: expired_def demo_aclient_def NewAgentClient_def word_sle_eq)
  ultimately show ?thesis by simp
qed

section \<open>The synchronous client\<close>

record sync_client =
  y_conn :: "(bool \<times> bytes list) option"
  y_status :: nat
  y_bufferSize :: nat

datatype sync_option = SetSyncBufferSize nat | SetWriteTimeout int64 | SetReadTimeout int64 | SetConnectTimeout int64

text \<open>Deadlines are not modelled: the options that set them change nothing here, and a read or
  write that runs into one is an error of the connection.\<close>

fun sync_opt :: "sync_option \<Rightarrow> sync_client \<Rightarrow> sync_client" where
  "sync_opt (SetSyncBufferSize n) c = c\<lparr>y_bufferSize := n\<rparr>"
| "sync_opt (SetWriteTimeout t) c = c"
| "sync_opt (SetReadTimeout t) c = c"
| "sync_opt (SetConnectTimeout t) c = c"

definition NewSyncClient :: "sync_option list \<Rightarrow> sync_client" where
  "NewSyncClient opts = fold sync_opt opts \<lparr>y_conn = None, y_status = 0, y_bufferSize = 4096\<rparr>"

text \<open>\<open>Send\<close>: the request is written (\<open>wr\<close> is what \<open>Write\<close> returns), then one \<open>Read\<close> takes
  what has arrived of \<open>inc\<close>, at most a buffer full of it, and this is decoded.\<close>

definition sync_Send ::
  "nat \<times> err_opt \<Rightarrow> bytes + g_error \<Rightarrow> bytes \<Rightarrow> sync_client \<Rightarrow> ((bytes option \<times> err_opt) \<times> sync_client) go" where
  "sync_Send wr inc data c =
     (if \<not> has_flag (y_status c) statusConnect then Ret ((None, Some ErrNotConnect), c)
      else case y_conn c of
        None \<Rightarrow> Panic NilDereference
      | Some (op, ws) \<Rightarrow>
          let c1 = c\<lparr>y_conn := Some (op, ws @ [Encode 0 data])\<rparr>
          in if fst wr = 0 \<or> snd wr \<noteq> None then Ret ((None, snd wr), c1)
             else case inc of
               Inr e \<Rightarrow> Ret ((None, Some e), c1)
             | Inl d \<Rightarrow>
                 let r = take (y_bufferSize c) d
                 in if r = [] then Ret ((None, None), c1)
                    else go_bind (Decode \<lparr>vis = r, spare = replicate (y_bufferSize c - length r) 0\<rparr>)
                      (\<lambda>(_, res, pos, err). Ret ((if pos = 0 then None else Some res, err), c1)))"

definition sync_Connect :: "bool \<Rightarrow> sync_client \<Rightarrow> err_opt \<times> sync_client" where
  "sync_Connect dial_ok c =
     (if has_flag (y_status c) statusConnect then (Some ErrIsConnected, c)
      else if \<not> dial_ok then (Some (ErrExternal ''dial''), c)
      else (None, c\<lparr>y_status := y_status c OR statusConnect, y_conn := Some (True, [])\<rparr>))"

definition sync_Disconnect :: "sync_client \<Rightarrow> sync_client go" where
  "sync_Disconnect c =
     (if \<not> has_flag (y_status c) statusConnect then Ret c
      else case y_conn c of
        None \<Rightarrow> Panic NilDereference
      | Some (op, ws) \<Rightarrow> Ret (c\<lparr>y_conn := Some (False, ws), y_status := y_status c XOR statusConnect\<rparr>))"

lemma cut_frame_waiting:
  assumes "4 \<le> n" and "n < length (Encode m d)" and "length (Encode m d) \<le> PackageMaxLength"
  shows "waiting (take n (Encode m d))"
proof -
  have "take 4 (take n (Encode m d)) = PackageHeader"
    using assms(1) by (simp add: Encode_eq min_absorb1)
  moreover have "le_nat (take 4 (drop 4 (take n (Encode m d)))) = length d + 8" if "16 \<le> n"
    using that frame_fields(1) [of d 0 "[]" m "[]"] assms(3)
    by (simp add: drop_take min_absorb1 codec_consts del: drop_append take_append)
  ultimately show ?thesis using assms by (simp add: waiting_def)
qed

text \<open>
  What \<open>Send\<close> of the synchronous client returns for the reply a server sends: the whole
  reply when its frame fits the read buffer, and \<open>nil\<close> without an error when it does not.
\<close>

theorem sync_Send_reply:
  assumes "has_flag (y_status c) statusConnect" and "y_conn c = Some (op, ws)" and "0 < n"
    and "4 \<le> y_bufferSize c" and "length (Encode m reply) \<le> PackageMaxLength"
  shows "sync_Send (n, None) (Inl (Encode m reply)) data c =
    Ret ((if length (Encode m reply) \<le> y_bufferSize c then Some reply else None, None),
         c\<lparr>y_conn := Some (op, ws @ [Encode 0 data])\<rparr>)"
proof (cases "length (Encode m reply) \<le> y_bufferSize c")
  case True
  have "Encode m reply \<noteq> []" by (simp add: Encode_eq)
  with True show ?thesis
    using assms Decode_frame [of "[]" m reply "[]"]
    by (simp add: sync_Send_def Let_def clean_def)
next
  case False
  then have "waiting (take (y_bufferSize c) (Encode m reply))"
    using assms(4,5) by (intro cut_frame_waiting) simp_all
  then have "Decode \<lparr>vis = take (y_bufferSize c) (Encode m reply), spare = sp\<rparr> = Ret (0, [], 0, None)" for sp
    by (intro Decode_waiting) simp
  moreover have "take (y_bufferSize c) (Encode m reply) \<noteq> []" using assms(4) by (simp add: Encode_eq)
  ultimately show ?thesis using assms False by (simp add: sync_Send_def Let_def)
qed

theorem sync_Send_reply_witness:
  "sync_Send (17, None) (Inl (Encode 0 [7, 8])) [1] (snd (sync_Connect True (NewSyncClient []))) =
    Ret ((Some [7, 8], None), (snd (sync_Connect True (NewSyncClient [])))\<lparr>y_conn := Some (True, [] @ [Encode 0 [1]])\<rparr>)"
proof -
  let ?c = "snd (sync_Connect True (NewSyncClient []))"
  have "has_flag (y_status ?c) statusConnect" "y_conn ?c = Some (True, [])" "y_bufferSize ?c = 4096"
    by (simp_all add: sync_Connect_def NewSyncClient_def statusConnect_def flag_simps)
  from sync_Send_reply [OF this(1,2), of 17 0 "[7, 8]" "[1]"] this(3) show ?thesis
    by (simp add: PackageMaxLength_def)
qed

section \<open>Messages that are pushed\<close>

text \<open>The handler leaves the buffer alone, so the loop does not depend on the copy of it in the
  client's record.\<close>

definition set_buffer :: "byte gslice \<Rightarrow> 's aclient \<Rightarrow> 's aclient" where
  "set_buffer b c = c\<lparr>x_buffer := b\<rparr>"

lemma client_handler_set_buffer:
  "client_handler cb (set_buffer b c) m d = apfst (set_buffer b) (client_handler cb c m d)"
  by (simp add: client_handler_def set_buffer_def Let_def split: option.split prod.split go.split)

text \<open>A sequence of reads.\<close>

lemma aclient_feed:
  "agent_feed grow (client_handler cb) (x_buffer c, c) cs = (buf, c', Ret ()) \<Longrightarrow>
     each (aclient_onMessage grow cb) cs c = Ret (set_buffer buf c')"
  by (rule feed_each [where get = x_buffer and put = set_buffer and h = "client_handler cb" and grow = grow])
    (simp_all only: client_handler_set_buffer, simp_all add: aclient_onMessage_def set_buffer_def)

text \<open>The callback's effect on a sequence of messages, and that it returns on each.\<close>

definition cb_run :: "('s \<Rightarrow> bytes \<Rightarrow> 's \<times> unit go) \<Rightarrow> 's \<Rightarrow> bytes list \<Rightarrow> 's" where
  "cb_run cb st ds = fold (\<lambda>d st. fst (cb st d)) ds st"

fun cb_ok :: "('s \<Rightarrow> bytes \<Rightarrow> 's \<times> unit go) \<Rightarrow> 's \<Rightarrow> bytes list \<Rightarrow> bool" where
  "cb_ok cb st [] = True"
| "cb_ok cb st (d # ds) \<longleftrightarrow> snd (cb st d) = Ret () \<and> cb_ok cb (fst (cb st d)) ds"

lemma client_handler_push:
  "d \<noteq> heartbeat \<Longrightarrow> client_handler cb c 1 d = (c\<lparr>x_st := fst (cb (x_st c) d)\<rparr>, snd (cb (x_st c) d))"
  by (simp add: client_handler_def Let_def split: prod.split)

lemma run_pushes:
  assumes "heartbeat \<notin> set ds"
  shows "run (client_handler cb) c (map (Pair 1) ds) = c\<lparr>x_st := cb_run cb (x_st c) ds\<rparr>"
    and "runs_ok (client_handler cb) c (map (Pair 1) ds) = cb_ok cb (x_st c) ds"
  using assms by (induction ds arbitrary: c) (auto simp: client_handler_push cb_run_def)

text \<open>Pushed messages, read in any cut that does not split a header, reach the callback.\<close>

lemma aclient_pushes:
  assumes "vis (x_buffer c) = []" and "heartbeat \<notin> set ds" and "\<forall>d \<in> set ds. length d + 8 < 2 ^ 32"
    and "cb_ok cb (x_st c) ds" and "concat cs = concat (map (Encode 1) ds)" and "header_safe [] cs"
  shows "\<exists>buf. each (aclient_onMessage grow cb) cs c = Ret (c\<lparr>x_st := cb_run cb (x_st c) ds, x_buffer := buf\<rparr>) \<and>
    vis buf = []"
proof -
  have "\<exists>buf. agent_feed grow (client_handler cb) (x_buffer c, c) cs =
      (buf, run (client_handler cb) c (map (Pair 1) ds), Ret ()) \<and> vis buf = []"
    using assms by (intro agent_feed_stream)
      (auto simp: run_pushes codec_ok_def codec_enc_def comp_def codec_next_def)
  then show ?thesis
    using aclient_feed [of grow cb c cs] by (auto simp: run_pushes [OF assms(2)] set_buffer_def)
qed

end
