(* ===== verification/Agent_Service.thy ===== *)
theory Agent_Service
  imports Wire_Pack Agent_Server Agent_Client Consul_Leader
begin

text \<open>
  The agent of a node, \<^verbatim>\<open>src/agent/agent.go\<close>: it campaigns for the leadership, broadcasts
  what the leader publishes, and as a follower listens to the leader's agent. The state the
  registered callbacks act on (the binlog component and the TCP service of the same node) is
  a type variable; it travels as the state of the agent's client. \<open>json.Unmarshal\<close> into a
  map is a parameter: all that is used of it is which keys hold strings. The result on
  reconnecting follows a node through every interleaving of its goroutines.
\<close>

section \<open>State\<close>

definition AgentServiceName :: string where "AgentServiceName = ''binlog-go-agent''"
definition agent_CMD_EVENT :: nat where "agent_CMD_EVENT = 4"
definition agent_CMD_POS :: nat where "agent_CMD_POS = 9"

lemma agent_commands: "agent_CMD_EVENT = CMD_EVENT" "agent_CMD_POS = CMD_POS"
  by (simp_all add: agent_CMD_EVENT_def agent_CMD_POS_def cmd_defs)

text \<open>A callback: its effect, also when it does not return.\<close>

type_synonym 'w call = "'w \<Rightarrow> 'w \<times> unit go"

fun calls :: "'w call list \<Rightarrow> 'w call" where
  "calls [] w = (w, Ret ())"
| "calls (f # fs) w =
     (case f w of
        (w', Ret _) \<Rightarrow> calls fs w'
      | (w', Panic p) \<Rightarrow> (w', Panic p)
      | (w', Block) \<Rightarrow> (w', Block))"

datatype json = JString string | JOther

type_synonym unmarshal = "bytes \<Rightarrow> (string \<rightharpoonup> json) option"

text \<open>A disabled agent has no client, server or Consul service: the fields are there but no
  operation looks at them.\<close>

definition no_leader :: Leader where
  "no_leader = \<lparr>service = NewService [] [] 0, lock = NewLockEntity [] [] 0, leader = False, session = NewSessionEntity 0,
     ServiceName = [], ServiceID = [], ServiceHost = [], ServicePort = 0\<rparr>"

record 'w agent_service =
  Address :: string
  enable :: bool
  ag_client :: "'w aclient"
  sService :: Leader
  onLeader :: "(bool \<Rightarrow> 'w call) list"
  ag_leader :: bool
  ag_server :: agent_srv
  onEvent :: "(string \<Rightarrow> bytes \<Rightarrow> 'w call) list"
  onPos :: "(bytes \<Rightarrow> 'w call) list"


section \<open>Operations\<close>

definition ag_OnPos :: "(bytes \<Rightarrow> 'w call) \<Rightarrow> 'w agent_service \<Rightarrow> 'w agent_service" where
  "ag_OnPos f t = (if \<not> enable t then t else t\<lparr>onPos := onPos t @ [f]\<rparr>)"

definition ag_OnLeader :: "(bool \<Rightarrow> 'w call) \<Rightarrow> 'w agent_service \<Rightarrow> 'w agent_service \<times> unit go" where
  "ag_OnLeader f t =
     (if \<not> enable t
      then (let (w, out) = f True (x_st (ag_client t)) in (t\<lparr>ag_client := (ag_client t)\<lparr>x_st := w\<rparr>\<rparr>, out))
      else (t\<lparr>onLeader := onLeader t @ [f]\<rparr>, Ret ()))"

definition ag_OnEvent :: "(string \<Rightarrow> bytes \<Rightarrow> 'w call) \<Rightarrow> 'w agent_service \<Rightarrow> 'w agent_service" where
  "ag_OnEvent f t = (if \<not> enable t then t else t\<lparr>onEvent := onEvent t @ [f]\<rparr>)"

definition ag_OnRaw :: "(bytes \<Rightarrow> 'w call) \<Rightarrow> 'w agent_service \<Rightarrow> 'w agent_service" where
  "ag_OnRaw f t = t"

text \<open>\<open>NewAgentServer\<close> with the options of \<^verbatim>\<open>main.go\<close> applied by the caller; the port's
  parse error is not looked at.\<close>

definition NewAgentServer ::
  "'c api \<Rightarrow> bool \<Rightarrow> string \<Rightarrow> string \<Rightarrow> 'w \<Rightarrow> 'c \<Rightarrow> ('w agent_service \<times> 'c) go" where
  "NewAgentServer api enabled listen lockKey w c =
     (let tcp = (\<lambda>a l. \<lparr>Address = a, enable = enabled, ag_client = NewAgentClient w, sService = l, onLeader = [],
                       ag_leader = False, ag_server = NewServer, onEvent = [], onPos = []\<rparr>)
      in if \<not> enabled then Ret (tcp [] no_leader, c)
         else let strs = split_at (CHR '':'') listen
              in go_bind (at strs 0) (\<lambda>ip. go_bind (at strs 1) (\<lambda>p.
                   let port = fst (ParseInt 32 p);
                       (l, c') = NewLeader api lockKey AgentServiceName ip port c
                   in Ret (tcp listen l, c'))))"

definition onClientMessage ::
  "unmarshal \<Rightarrow> (string \<Rightarrow> bytes \<Rightarrow> 'w call) list \<Rightarrow> (bytes \<Rightarrow> 'w call) list \<Rightarrow> 'w \<Rightarrow> bytes \<Rightarrow> 'w \<times> unit go" where
  "onClientMessage um ev ps w content =
     (case Unpack content of
        Panic p \<Rightarrow> (w, Panic p)
      | Block \<Rightarrow> (w, Block)
      | Ret (cmd, data, err) \<Rightarrow>
          if err \<noteq> None then (w, Ret ())
          else if cmd = agent_CMD_EVENT
          then (case um data of
                  None \<Rightarrow> (w, Ret ())
                | Some raw \<Rightarrow>
                    (case (raw ''database'', raw ''table'') of
                       (Some (JString d), Some (JString t)) \<Rightarrow> calls (map (\<lambda>f. f (d @ ''.'' @ t) data) ev) w
                     | _ \<Rightarrow> (w, Panic TypeAssertion)))
          else if cmd = agent_CMD_POS then calls (map (\<lambda>f. f data) ps) w
          else (w, Ret ()))"

text \<open>A pass of the client's reading goroutine, with the agent's callback.\<close>

definition agent_client_turn :: "growth \<Rightarrow> unmarshal \<Rightarrow> bytes option \<Rightarrow> 'w agent_service \<Rightarrow> 'w agent_service go" where
  "agent_client_turn grow um r t =
     go_bind (aclient_readMessage_turn grow (onClientMessage um (onEvent t) (onPos t)) r (ag_client t))
       (\<lambda>c. Ret (t\<lparr>ag_client := c\<rparr>))"

text \<open>What the goroutine that \<open>Select\<close> starts for a change of role does: it calls back, and
  a follower then asks for the leader until it gets one and connects to it. A pass of that
  loop says whether another one follows; \<open>dial\<close> is whether an address can be dialled.\<close>

definition on_select :: "ServiceMember \<Rightarrow> 'w agent_service \<Rightarrow> 'w agent_service \<times> unit go" where
  "on_select member t =
     (let (w, out) = calls (map (\<lambda>f. f (IsLeader member)) (onLeader t)) (x_st (ag_client t))
      in (t\<lparr>ag_leader := IsLeader member, ag_client := (ag_client t)\<lparr>x_st := w\<rparr>\<rparr>, out))"

definition connect_leader_turn ::
  "'c api \<Rightarrow> (string \<Rightarrow> bool) \<Rightarrow> 'w agent_service \<Rightarrow> 'c \<Rightarrow> ('w agent_service \<times> bool) go \<times> 'c" where
  "connect_leader_turn api dial t c =
     (let (r, c1) = Leader_Get api (sService t) c
      in (go_bind r (\<lambda>(m, err).
            case m of
              Some m' \<Rightarrow>
                if err = None
                then let leaderAddress = mem_ServiceIP m' @ '':'' @ dec_int (mem_Port m')
                     in Ret (t\<lparr>ag_client := snd (client_Connect (dial leaderAddress) (ag_client t))\<rparr>, False)
                else Ret (t, True)
            | None \<Rightarrow> Ret (t, True)), c1))"

text \<open>\<open>Start\<close>: the server's listener, and the first attempt of the campaign; the result begins
  with the members handed to the callback.\<close>

definition agent_Start ::
  "'c api \<Rightarrow> bool \<Rightarrow> 'w agent_service \<Rightarrow> 'c \<Rightarrow> (ServiceMember list \<times> 'w agent_service \<times> 'c) go" where
  "agent_Start api listen_err t c =
     (if \<not> enable t then Ret ([], t, c)
      else go_bind (agent_listen listen_err (ag_server t)) (\<lambda>s.
             let (ms, l, c') = select_first api (sService t) c
             in Ret (ms, t\<lparr>ag_server := s, sService := l\<rparr>, c')))"

definition agent_Close :: "'c api \<Rightarrow> 'w agent_service \<Rightarrow> 'c \<Rightarrow> ('w agent_service \<times> 'c) go" where
  "agent_Close api t c =
     (if \<not> enable t then Ret (t, c)
      else go_bind (Server_Close (ag_server t)) (\<lambda>s.
             let (l, c') = Leader_Free api (sService t) c
             in Ret (t\<lparr>ag_server := s, sService := l\<rparr>, c')))"

definition Sync :: "bytes \<Rightarrow> 'w agent_service \<Rightarrow> 'w agent_service go" where
  "Sync data t =
     (if \<not> enable t then Ret t
      else go_bind (Broadcast 1 data (ag_server t)) (\<lambda>s. Ret (t\<lparr>ag_server := s\<rparr>)))"

text \<open>The table of members; \<open>%-6s\<close> pads on the right.\<close>

definition pad_right :: "nat \<Rightarrow> string \<Rightarrow> string" where
  "pad_right n s = s @ replicate (n - length s) (CHR '' '')"

definition crlf :: string where "crlf = [CHR 0x0D, CHR 0x0A]"

definition show_rule :: "char \<Rightarrow> string" where
  "show_rule ch = replicate 6 ch @ ''+'' @ replicate 45 ch @ ''+'' @ replicate 10 ch @ ''+'' @ replicate 15 ch @ crlf"

definition member_row :: "nat \<Rightarrow> ServiceMember \<Rightarrow> string" where
  "member_row i m =
     pad_right 6 (dec i) @ ''| '' @
     pad_right 43 (''('' @ mem_ServiceIP m @ '':'' @ dec_int (mem_Port m) @ '')'') @ '' | '' @
     pad_right 8 (if IsLeader m then ''leader'' else ''follower'') @ '' | '' @ mem_Status m @ crlf"

definition ShowMembers :: "'c api \<Rightarrow> string option \<Rightarrow> 'w agent_service \<Rightarrow> 'c \<Rightarrow> string go \<times> 'c" where
  "ShowMembers api host t c =
     (if \<not> enable t then (Ret ''agent is not enable'', c)
      else let (r, c') = Leader_GetServices api (sService t) False c
           in (go_bind r (\<lambda>(data, err).
                 case data of
                   None \<Rightarrow> Ret []
                 | Some ms \<Rightarrow>
                     if err \<noteq> None then Ret []
                     else let hostname = (case host of None \<Rightarrow> [] | Some h \<Rightarrow> h)
                          in Ret (''current node: '' @ hostname @ ''('' @ Address t @ '')'' @ crlf @
                                  ''cluster size: '' @ dec (length ms) @ '' node(s)'' @ crlf @
                                  show_rule (CHR ''='') @
                                  pad_right 6 ''index'' @ ''| '' @ pad_right 43 ''node'' @ '' | '' @
                                  pad_right 8 ''role'' @ '' | '' @ ''status'' @ crlf @
                                  show_rule (CHR ''-'') @
                                  concat (map (\<lambda>(i, m). member_row i m) (enumerate 0 ms)) @
                                  show_rule (CHR ''-''))), c'))"

section \<open>The goroutines of a node\<close>

abbreviation connected :: "'w agent_service \<Rightarrow> bool" where
  "connected t \<equiv> has_flag (x_status (ag_client t)) statusConnect"

text \<open>The client's own goroutines.\<close>

inductive client_step :: "'w aclient \<Rightarrow> 'w aclient \<Rightarrow> bool" where
  beat: "keep_heartbeat err c = Ret c' \<Longrightarrow> client_step c c'"
| async: "keep_async err c = Ret c' \<Longrightarrow> client_step c c'"
| clean: "keep_waiters now c = Ret c' \<Longrightarrow> client_step c c'"

text \<open>A node with the callbacks that \<open>Select\<close> has started and that have not run yet, the
  number of loops that look for the leader, and Consul. \<open>env\<close> is what the rest of the
  cluster does to Consul.\<close>

type_synonym ('w, 'c) agent_state = "'w agent_service \<times> ServiceMember list \<times> nat \<times> 'c"

inductive agent_step ::
  "'c api \<Rightarrow> growth \<Rightarrow> unmarshal \<Rightarrow> (string \<Rightarrow> bool) \<Rightarrow> ('c \<Rightarrow> 'c \<Rightarrow> bool) \<Rightarrow>
     ('w, 'c) agent_state \<Rightarrow> ('w, 'c) agent_state \<Rightarrow> bool"
  for api grow um dial env where
  select: "select_turn api (sService t) c = (ms, l, c') \<Longrightarrow>
    agent_step api grow um dial env (t, ps, n, c) (t\<lparr>sService := l\<rparr>, ps @ ms, n, c')"
| callback: "m \<in> set ps \<Longrightarrow> on_select m t = (t', Ret ()) \<Longrightarrow>
    agent_step api grow um dial env (t, ps, n, c) (t', remove1 m ps, if ag_leader t' then n else n + 1, c)"
| connect: "0 < n \<Longrightarrow> connect_leader_turn api dial t c = (Ret (t', again), c') \<Longrightarrow>
    agent_step api grow um dial env (t, ps, n, c) (t', ps, if again then n else n - 1, c')"
| read: "agent_client_turn grow um r t = Ret t' \<Longrightarrow>
    agent_step api grow um dial env (t, ps, n, c) (t', ps, n, c)"
| client: "client_step (ag_client t) x \<Longrightarrow>
    agent_step api grow um dial env (t, ps, n, c) (t\<lparr>ag_client := x\<rparr>, ps, n, c)"
| server: "server_step grow (ag_server t) s \<Longrightarrow>
    agent_step api grow um dial env (t, ps, n, c) (t\<lparr>ag_server := s\<rparr>, ps, n, c)"
| publish: "Sync d t = Ret t' \<Longrightarrow> agent_step api grow um dial env (t, ps, n, c) (t', ps, n, c)"
| others: "env c c' \<Longrightarrow> agent_step api grow um dial env (t, ps, n, c) (t, ps, n, c')"

lemma offline_write:
  assumes "\<not> has_flag (x_status c) statusConnect" and "client_Write err d c = Ret (e, c')"
  shows "c' = c"
  using assms by (simp add: client_Write_def)

lemma expire_keeps:
  "each (expire_one now) es c = Ret c' \<Longrightarrow> x_status c' = x_status c \<and> x_st c' = x_st c"
proof (induction es arbitrary: c)
  case Nil
  then show ?case by simp
next
  case (Cons e es)
  then obtain c1 where "expire_one now e c = Ret c1" "each (expire_one now) es c1 = Ret c'"
    by (auto simp: go_simps)
  moreover from this(1) have "x_status c1 = x_status c \<and> x_st c1 = x_st c"
    by (auto simp: expire_one_def close_waiter_def split: if_splits)
  ultimately show ?case using Cons.IH by simp
qed

lemma offline_client_step:
  assumes "client_step c c'" and "\<not> has_flag (x_status c) statusConnect"
  shows "x_status c' = x_status c \<and> x_st c' = x_st c"
  using assms(1)
proof cases
  case (beat err)
  then show ?thesis
    using assms(2) by (auto simp: keep_heartbeat_def go_simps dest: offline_write)
next
  case (async err)
  then show ?thesis
    using assms(2) by (auto simp: keep_async_def go_simps split: list.splits dest!: offline_write [rotated])
next
  case (clean now)
  then show ?thesis unfolding keep_waiters_def by (rule expire_keeps)
qed

text \<open>A follower without a connection while another node holds the lock.\<close>

definition orphan :: "('c \<Rightarrow> string \<Rightarrow> string option) \<Rightarrow> Leader \<Rightarrow> 'w \<Rightarrow> ('w, 'c) agent_state \<Rightarrow> bool" where
  "orphan holder l w s \<longleftrightarrow>
     (case s of (t, ps, n, c) \<Rightarrow>
        sService t = l \<and> \<not> leader l \<and> ps = [] \<and> n = 0 \<and> \<not> connected t \<and> x_st (ag_client t) = w \<and>
        (\<exists>i. holder c (lock_key l) = Some i \<and> i \<noteq> sid l))"

lemma orphan_step:
  assumes "consul_lock api valid holder" and "orphan holder l w s"
    and "agent_step api grow um dial (\<lambda>_ c'. \<exists>i. holder c' (lock_key l) = Some i \<and> i \<noteq> sid l) s s'"
  shows "orphan holder l w s'"
proof -
  obtain t c i where s: "s = (t, [], 0, c)" and t: "sService t = l" "\<not> leader l" "\<not> connected t"
      "x_st (ag_client t) = w" "holder c (lock_key l) = Some i" "i \<noteq> sid l"
    using assms(2) by (auto simp: orphan_def split: prod.splits)
  obtain c2 where q: "select_turn api l c = ([], l, c2)" "holder c2 (lock_key l) = Some i"
    using consul_lock.follower_turn_quiet [OF assms(1) t(2) t(5) t(6)] by blast
  from assms(3) show ?thesis unfolding s
  proof cases
    case (select ms l' c')
    with t q show ?thesis by (auto simp: orphan_def)
  next
    case (read r t')
    then have "t' = t" using t(3) by (auto simp: agent_client_turn_def aclient_readMessage_turn_def)
    with read t show ?thesis by (auto simp: orphan_def)
  next
    case (client x)
    with offline_client_step [OF client(2) t(3)] t show ?thesis by (auto simp: orphan_def)
  next
    case (publish d t')
    then have "sService t' = sService t" "ag_client t' = ag_client t"
      by (auto simp: Sync_def go_simps split: if_splits)
    with publish t show ?thesis by (auto simp: orphan_def)
  qed (use t in \<open>auto simp: orphan_def\<close>)
qed

lemma orphan_steps:
  assumes "consul_lock api valid holder"
    and "(agent_step api grow um dial (\<lambda>_ c'. \<exists>i. holder c' (lock_key l) = Some i \<and> i \<noteq> sid l))\<^sup>*\<^sup>* s s'"
    and "orphan holder l w s"
  shows "orphan holder l w s'"
  using assms(2,3) by (induction rule: rtranclp_induct) (auto intro: orphan_step [OF assms(1)])

text \<open>
  C33. A follower that has lost its leader stays cut off: once its connection is gone and
  another node holds the lock, no interleaving of the node's goroutines and of whatever the
  rest of the cluster does (as long as the lock is in other hands when the node looks)
  connects it again; what its callbacks keep, positions and events, does not change any more.
  \<open>Select\<close> calls back only when the node's own role changes.
\<close>

theorem orphaned_follower_never_reconnects:
  assumes "consul_lock api valid holder"
    and "(agent_step api grow um dial (\<lambda>_ c'. \<exists>i. holder c' (lock_key (sService t)) = Some i \<and> i \<noteq> sid (sService t)))\<^sup>*\<^sup>*
      (t, [], 0, c) (t', ps, n, c')"
    and "\<not> leader (sService t)" and "\<not> connected t"
    and "holder c (lock_key (sService t)) = Some i" and "i \<noteq> sid (sService t)"
  shows "\<not> connected t' \<and> x_st (ag_client t') = x_st (ag_client t) \<and> ps = [] \<and> n = 0"
proof -
  have "orphan holder (sService t) (x_st (ag_client t)) (t, [], 0, c)"
    using assms(3-6) by (simp add: orphan_def)
  from orphan_steps [OF assms(1,2) this] show ?thesis by (simp add: orphan_def)
qed

definition demo_agent :: "nat agent_service" where
  "demo_agent = \<lparr>Address = ''10.0.0.2:9991'', enable = True, ag_client = NewAgentClient 5, sService = demo_leader 1,
     onLeader = [], ag_leader = False, ag_server = NewServer, onEvent = [], onPos = []\<rparr>"

lemma demo_agent_offline [simp]: "\<not> connected demo_agent"
  by (simp add: demo_agent_def NewAgentClient_def statusConnect_def flag_simps)

lemma demo_agent_simps [simp]: "sService demo_agent = demo_leader 1" "x_st (ag_client demo_agent) = 5"
  by (simp_all add: demo_agent_def NewAgentClient_def)

theorem orphaned_follower_never_reconnects_witness:
  "\<exists>t' ps n c'. select_turn consul_api (sService demo_agent) (demo_consul\<lparr>locks := (\<lambda>_. Some (dec 0))\<rparr>) =
      (ps, sService t', c') \<and>
    \<not> connected t' \<and> x_st (ag_client t') = x_st (ag_client demo_agent) \<and> ps = [] \<and> n = 0"
proof -
  let ?c = "demo_consul\<lparr>locks := (\<lambda>_. Some (dec 0))\<rparr>"
  have held: "locks ?c (lock_key (demo_leader 1)) = Some (dec 0)" "dec 0 \<noteq> sid (demo_leader 1)"
    using dec_inj [of 0 1] by auto
  obtain c' where turn: "select_turn consul_api (demo_leader 1) ?c = ([], demo_leader 1, c')"
    using consul.follower_turn_quiet [OF _ held] by auto
  define R :: "(nat, consul) agent_state \<Rightarrow> (nat, consul) agent_state \<Rightarrow> bool" where "R = agent_step consul_api (\<lambda>_ n. n) (\<lambda>_. None) (\<lambda>_. True)
    (\<lambda>_ c'. \<exists>i. locks c' (lock_key (sService demo_agent)) = Some i \<and> i \<noteq> sid (sService demo_agent))"
  have "R (demo_agent, [], 0, ?c) (demo_agent\<lparr>sService := demo_leader 1\<rparr>, [] @ [], 0, c')"
    unfolding R_def using turn by (intro agent_step.select) simp
  then have "R\<^sup>*\<^sup>* (demo_agent, [], 0, ?c) (demo_agent\<lparr>sService := demo_leader 1\<rparr>, [], 0, c')"
    by (simp add: r_into_rtranclp)
  from orphaned_follower_never_reconnects [OF consul.consul_lock_axioms this [unfolded R_def], of "dec 0"] held turn
  show ?thesis by (intro exI [of _ "demo_agent\<lparr>sService := demo_leader 1\<rparr>"]) auto
qed


section \<open>Reading the leader's messages\<close>

lemma client_handler_status:
  "client_handler cb (c\<lparr>x_status := v\<rparr>) m d = apfst (x_status_update (\<lambda>_. v)) (client_handler cb c m d)"
  by (simp add: client_handler_def Let_def split: option.split prod.split go.split)

lemma onMessage_status:
  assumes "aclient_onMessage grow cb r c = Ret c'"
  shows "x_status c' = x_status c"
proof -
  obtain buf c1 out where loop: "agent_onMessage grow (client_handler cb) r (x_buffer c, c) = (buf, c1, out)"
    by (metis prod.exhaust)
  have "agent_onMessage grow (client_handler cb) r (x_buffer c, c\<lparr>x_status := x_status c\<rparr>) =
      apsnd (apfst (x_status_update (\<lambda>_. x_status c))) (buf, c1, out)"
    unfolding agent_onMessage_def loop [unfolded agent_onMessage_def, symmetric] snd_conv fst_conv
    by (rule loop_commute [where u = "x_status_update (\<lambda>_. x_status c)"]) (rule client_handler_status)
  then have "c1 = c1\<lparr>x_status := x_status c\<rparr>" using loop by simp
  then have "x_status c1 = x_status c" by (metis aclient.select_convs(3) aclient.surjective aclient.update_convs(3))
  with assms loop show ?thesis by (auto simp: aclient_onMessage_def go_simps)
qed

lemma agent_reads:
  assumes "connected t"
  shows "each (\<lambda>r. agent_client_turn grow um (Some r)) cs t =
    go_bind (each (aclient_onMessage grow (onClientMessage um (onEvent t) (onPos t))) cs (ag_client t))
      (\<lambda>c. Ret (t\<lparr>ag_client := c\<rparr>))"
  using assms
proof (induction cs arbitrary: t)
  case Nil
  then show ?case by simp
next
  case (Cons r cs)
  show ?case
  proof (cases "aclient_onMessage grow (onClientMessage um (onEvent t) (onPos t)) r (ag_client t)")
    case (Ret c)
    then have "connected (t\<lparr>ag_client := c\<rparr>)" using Cons.prems by (simp add: onMessage_status)
    from Cons.IH [OF this] Ret Cons.prems show ?thesis
      by (simp add: agent_client_turn_def aclient_readMessage_turn_def)
  qed (use Cons.prems in \<open>simp_all add: agent_client_turn_def aclient_readMessage_turn_def\<close>)
qed

text \<open>What the agent's callback does with a message from the leader.\<close>

lemma onClientMessage_pos:
  assumes "length data + 2 < 2 ^ 32"
  shows "onClientMessage um ev ps w (Pack agent_CMD_POS data) = calls (map (\<lambda>f. f data) ps) w"
  using Unpack_packed [of agent_CMD_POS data "[]"] assms
  by (simp add: onClientMessage_def agent_CMD_POS_def agent_CMD_EVENT_def)

lemma onClientMessage_event:
  assumes "length data + 2 < 2 ^ 32" and "um data = Some raw"
    and "raw ''database'' = Some (JString d)" and "raw ''table'' = Some (JString tb)"
  shows "onClientMessage um ev ps w (Pack agent_CMD_EVENT data) = calls (map (\<lambda>f. f (d @ ''.'' @ tb) data) ev) w"
  using Unpack_packed [of agent_CMD_EVENT data "[]"] assms
  by (simp add: onClientMessage_def agent_CMD_EVENT_def)

lemma Pack_not_heartbeat [simp]: "Pack cmd d \<noteq> heartbeat"
  by (simp add: Pack_def heartbeat_def Let_def)

end
