(* ===== verification/Tcp_Groups.thy ===== *)
theory Tcp_Groups
  imports Wire_Pack Closing_Range
begin

text \<open>
  The subscription server's clients: \<^verbatim>\<open>tcpClientNode\<close> (\<^verbatim>\<open>src/services/service_tcpnode.go\<close>)
  and \<^verbatim>\<open>tcpGroups\<close> (\<^verbatim>\<open>src/services/service_tcpgroups.go\<close>). Nodes are shared by
  reference (the group's slice, the callbacks, the goroutines of a node), so the state is a
  heap of nodes, addressed by numbers from 1 (0 is \<open>nil\<close>), together with the group's
  slice of addresses and the connection counter of the registered service
  (\<^verbatim>\<open>src/services/service.go\<close>). Callbacks are the ones the program installs.
  A connection is what the code does to it: open or closed, and the data of the \<open>Write\<close>
  calls issued on it; what a call returns is a parameter where the code looks at it.
\<close>

section \<open>State\<close>

datatype node_func = GroupsRemove \<comment> \<open>\<open>NodeClose(groups.remove)\<close>\<close>
datatype on_remove_func = SvcDisconnect \<comment> \<open>\<open>SetOnRemove(svc.disconnect)\<close>\<close>

record tcpClientNode =
  conn_open :: bool
  conn_writes :: "bytes list" \<comment> \<open>what was handed to \<open>Write\<close>, also when it failed\<close>
  sendQueue :: "bytes list"
  queue_closed :: bool
  sendFailureTimes :: int64
  topics :: "string list"
  recvBuf :: bytes
  status :: nat
  onclose :: "node_func list"

record svc =
  heap :: "nat \<Rightarrow> tcpClientNode"
  fresh :: nat
  g :: "nat gslice"
  onRemove :: "on_remove_func list"
  connects :: int64

definition tcpNodeOnline :: nat where "tcpNodeOnline = 1"
definition tcpMaxSendQueue :: nat where "tcpMaxSendQueue = 10000000"
definition FlagSetPro :: byte where "FlagSetPro = 0"
definition FlagPing :: byte where "FlagPing = 1"

definition packDataTickOk :: bytes where "packDataTickOk = Pack CMD_TICK (bytes_of ''ok'')"
definition packDataSetPro :: bytes where "packDataSetPro = Pack CMD_SET_PRO (bytes_of ''ok'')"

definition upd_node :: "nat \<Rightarrow> (tcpClientNode \<Rightarrow> tcpClientNode) \<Rightarrow> 'a svc_scheme \<Rightarrow> 'a svc_scheme" where
  "upd_node a f w = w\<lparr>heap := (heap w)(a := f (heap w a))\<rparr>"

abbreviation online :: "tcpClientNode \<Rightarrow> bool" where
  "online n \<equiv> has_flag (status n) tcpNodeOnline"

lemma upd_node_simps [simp]:
  "heap (upd_node a f w) = (heap w)(a := f (heap w a))"
  "fresh (upd_node a f w) = fresh w" "g (upd_node a f w) = g w"
  "onRemove (upd_node a f w) = onRemove w" "connects (upd_node a f w) = connects w"
  "svc.more (upd_node a f w) = svc.more w"
  by (simp_all add: upd_node_def)


section \<open>Operations of a node and of the group\<close>

definition newNode :: "node_func list \<Rightarrow> tcpClientNode" where
  "newNode opts =
     \<lparr>conn_open = True, conn_writes = [], sendQueue = [], queue_closed = False,
      sendFailureTimes = 0, topics = [], recvBuf = [], status = tcpNodeOnline,
      onclose = opts\<rparr>"

definition addTopic :: "(string \<Rightarrow> string) \<Rightarrow> string \<Rightarrow> tcpClientNode \<Rightarrow> tcpClientNode" where
  "addTopic uni topic n =
     (let topic = TrimSpaces topic; topic = ToLower uni topic
      in if topic \<in> set (topics n) then n else n\<lparr>topics := topics n @ [topic]\<rparr>)"

definition svc_newConnect :: "'a svc_scheme \<Rightarrow> 'a svc_scheme" where
  "svc_newConnect w = w\<lparr>connects := connects w + 1\<rparr>"

definition svc_disconnect :: "'a svc_scheme \<Rightarrow> 'a svc_scheme" where
  "svc_disconnect w = w\<lparr>connects := connects w - 1\<rparr>"

fun run_onRemove :: "on_remove_func list \<Rightarrow> 'a svc_scheme \<Rightarrow> 'a svc_scheme" where
  "run_onRemove [] w = w"
| "run_onRemove (SvcDisconnect # fs) w = run_onRemove fs (svc_disconnect w)"

definition groups_remove :: "nat \<Rightarrow> 'a svc_scheme \<Rightarrow> 'a svc_scheme" where
  "groups_remove node w =
     (let w' = (case index_of node (vis (g w)) of
                  Some index \<Rightarrow> w\<lparr>g := gs_delete index (g w)\<rparr>
                | None \<Rightarrow> w)
      in run_onRemove (onRemove w') w')"

fun run_onclose :: "node_func list \<Rightarrow> nat \<Rightarrow> 'a svc_scheme \<Rightarrow> 'a svc_scheme" where
  "run_onclose [] a w = w"
| "run_onclose (GroupsRemove # fs) a w = run_onclose fs a (groups_remove a w)"

definition node_close :: "nat \<Rightarrow> 'a svc_scheme \<Rightarrow> 'a svc_scheme go" where
  "node_close a w =
     (if \<not> online (heap w a) then Ret w
      else if queue_closed (heap w a) then Panic CloseOfClosedChannel
      else Ret (run_onclose (onclose (heap w a)) a
             (upd_node a (\<lambda>n. n\<lparr>status := status n XOR tcpNodeOnline,
                                conn_open := False, queue_closed := True\<rparr>) w)))"

definition node_send :: "nat \<Rightarrow> bytes \<Rightarrow> 'a svc_scheme \<Rightarrow> 'a svc_scheme" where
  "node_send a data w = upd_node a (\<lambda>n. n\<lparr>conn_writes := conn_writes n @ [data]\<rparr>) w"

definition node_asyncSend :: "nat \<Rightarrow> bytes \<Rightarrow> 'a svc_scheme \<Rightarrow> 'a svc_scheme go" where
  "node_asyncSend a data w =
     (if \<not> online (heap w a) then Ret w
      else if tcpMaxSendQueue \<le> length (sendQueue (heap w a)) then Block
      else if queue_closed (heap w a) then Panic SendOnClosedChannel
      else Ret (upd_node a (\<lambda>n. n\<lparr>sendQueue := sendQueue n @ [data]\<rparr>) w))"

text \<open>One turn of \<open>asyncSendService\<close> that receives from the queue; \<open>err\<close> is whether the
  \<open>Write\<close> fails. The result says whether the goroutine goes on.\<close>

definition asyncSendService_turn :: "bool \<Rightarrow> nat \<Rightarrow> 'a svc_scheme \<Rightarrow> ('a svc_scheme \<times> bool) go" where
  "asyncSendService_turn err a w =
     (if \<not> online (heap w a) then Ret (w, False)
      else case sendQueue (heap w a) of
             [] \<Rightarrow> if queue_closed (heap w a) then Ret (w, False) else Block
           | msg # q \<Rightarrow>
               let w' = upd_node a (\<lambda>n. n\<lparr>sendQueue := q, conn_writes := conn_writes n @ [msg]\<rparr>) w
               in if err
                  then go_bind (node_close a
                         (upd_node a (\<lambda>n. n\<lparr>sendFailureTimes := sendFailureTimes n + 1\<rparr>) w'))
                         (\<lambda>w''. Ret (w'', False))
                  else Ret (w', True))"

text \<open>A turn that takes the case of the cancelled context instead: the goroutine ends once the
  queue is empty.\<close>

definition asyncSendService_done :: "nat \<Rightarrow> 'a svc_scheme \<Rightarrow> 'a svc_scheme \<times> bool" where
  "asyncSendService_done a w =
     (if \<not> online (heap w a) then (w, False)
      else (w, \<not> length (sendQueue (heap w a)) \<le> 0))"

definition groups_sendAll :: "matcher \<Rightarrow> string \<Rightarrow> bytes \<Rightarrow> 'a svc_scheme \<Rightarrow> 'a svc_scheme go" where
  "groups_sendAll MatchString table data w =
     range_do g (\<lambda>a w. if MatchFilters MatchString (topics (heap w a)) table
                       then node_asyncSend a data w else Ret w) w"

definition groups_asyncSend :: "bytes \<Rightarrow> 'a svc_scheme \<Rightarrow> 'a svc_scheme go" where
  "groups_asyncSend data w = range_do g (\<lambda>a. node_asyncSend a data) w"

definition groups_close :: "'a svc_scheme \<Rightarrow> 'a svc_scheme go" where
  "groups_close w =
     go_bind (range_do g node_close w) (\<lambda>w'. Ret (w'\<lparr>g := gs_make\<rparr>))"

definition groups_reload :: "'a svc_scheme \<Rightarrow> 'a svc_scheme go" where
  "groups_reload w = groups_close w"

definition groups_onConnect :: "growth \<Rightarrow> 'a svc_scheme \<Rightarrow> 'a svc_scheme" where
  "groups_onConnect grow w =
     w\<lparr>heap := (heap w)(fresh w := newNode [GroupsRemove]), fresh := fresh w + 1,
       g := gs_append grow 0 (g w) [fresh w]\<rparr>"



section \<open>Closing a node\<close>

text \<open>A node that is online has an open connection and an open queue, one that is offline has
  neither; its only close callback is the group's.\<close>

definition node_wf :: "tcpClientNode \<Rightarrow> bool" where
  "node_wf n \<longleftrightarrow>
     conn_open n = online n \<and> queue_closed n = (\<not> online n) \<and> onclose n = [GroupsRemove] \<and>
     length (sendQueue n) \<le> tcpMaxSendQueue"

definition heap_wf :: "'a svc_scheme \<Rightarrow> bool" where
  "heap_wf w \<longleftrightarrow> (\<forall>a. online (heap w a) \<longrightarrow> node_wf (heap w a))"

definition mark_closed :: "nat \<Rightarrow> 'a svc_scheme \<Rightarrow> 'a svc_scheme" where
  "mark_closed a w =
     upd_node a (\<lambda>n. n\<lparr>status := status n XOR tcpNodeOnline, conn_open := False,
                        queue_closed := True\<rparr>) w"

lemma run_onRemove_eq: "run_onRemove fs w = w\<lparr>connects := connects w - of_nat (length fs)\<rparr>"
proof (induction fs arbitrary: w)
  case Nil
  then show ?case by simp
next
  case (Cons f fs)
  then show ?case by (cases f) (simp add: svc_disconnect_def algebra_simps)
qed

lemma groups_remove_eq:
  "groups_remove a w =
     w\<lparr>g := gs_remove a (g w), connects := connects w - of_nat (length (onRemove w))\<rparr>"
  by (cases "index_of a (vis (g w))")
    (simp_all add: groups_remove_def gs_remove_def run_onRemove_eq Let_def del: index_of_None)

lemma node_close_offline [simp]: "\<not> online (heap w a) \<Longrightarrow> node_close a w = Ret w"
  by (simp add: node_close_def)

lemma node_close_online:
  "node_wf (heap w a) \<Longrightarrow> online (heap w a) \<Longrightarrow>
     node_close a w = Ret ((mark_closed a w)\<lparr>g := gs_remove a (g w),
       connects := connects w - of_nat (length (onRemove w))\<rparr>)"
  by (simp add: node_close_def node_wf_def groups_remove_eq mark_closed_def)

lemma offline_mark_closed [simp]:
  "online (heap (mark_closed a w) b) \<longleftrightarrow>
     (if b = a then \<not> online (heap w a) else online (heap w b))"
  by (simp add: mark_closed_def tcpNodeOnline_def flag_simps)

lemma node_wf_mark_closed [simp]:
  "node_wf (heap w b) \<Longrightarrow> (b = a \<Longrightarrow> online (heap w a)) \<Longrightarrow> node_wf (heap (mark_closed a w) b)"
  by (auto simp: mark_closed_def node_wf_def tcpNodeOnline_def flag_simps)

lemma mark_closed_simps [simp]:
  "fresh (mark_closed a w) = fresh w" "g (mark_closed a w) = g w"
  "onRemove (mark_closed a w) = onRemove w" "connects (mark_closed a w) = connects w"
  "recvBuf (heap (mark_closed a w) b) = recvBuf (heap w b)"
  "topics (heap (mark_closed a w) b) = topics (heap w b)"
  "svc.more (mark_closed a w) = svc.more w"
  by (simp_all add: mark_closed_def)

interpretation grp: closing_range g node_close "\<lambda>w a. online (heap w a)" heap_wf
proof
  show "node_close a w = Ret w" if "\<not> online (heap w a)" for w :: "'a svc_scheme" and a
    using that by simp
  show "\<exists>w'. node_close a w = Ret w' \<and> heap_wf w' \<and> g w' = gs_remove a (g w) \<and>
      (\<forall>b. online (heap w' b) \<longleftrightarrow> online (heap w b) \<and> b \<noteq> a)"
    if "heap_wf w" "online (heap w a)" for w :: "'a svc_scheme" and a
    using that by (auto simp: heap_wf_def node_close_online)
qed


text \<open>
  C36. Closing the group leaves clients behind: the loop ranges over the slice from which
  every close removes a node, so the array shifts under it. With three or more connected
  clients the second one is skipped: after \<open>tcpGroups.close\<close> it is still online and its
  connection open, but the group has forgotten it.
\<close>

theorem groups_close_leaks:
  assumes "heap_wf w" and "vis (g w) = a # b # c # ds" and "distinct (vis (g w))"
    and "\<forall>x \<in> set (vis (g w)). online (heap w x)"
  shows "\<exists>w'. groups_close w = Ret w' \<and> online (heap w' b) \<and> conn_open (heap w' b) \<and>
    vis (g w') = []"
proof -
  obtain w' where w': "range_do g node_close w = Ret w'" "heap_wf w'" "online (heap w' b)"
    using grp.close_skips_second [OF assms] by blast
  then have "conn_open (heap w' b)" by (auto simp: heap_wf_def node_wf_def)
  with w' show ?thesis by (simp add: groups_close_def gs_make_def)
qed

definition demo_group :: svc where
  "demo_group = \<lparr>heap = (\<lambda>_. newNode [GroupsRemove]), fresh = 4,
     g = \<lparr>vis = [1, 2, 3], spare = [0]\<rparr>, onRemove = [], connects = 0\<rparr>"

lemma online_newNode [simp]: "online (newNode opts)"
  by (simp add: newNode_def tcpNodeOnline_def flag_simps)

lemma node_wf_newNode [simp]: "node_wf (newNode [GroupsRemove])"
  using online_newNode [of "[GroupsRemove]"] by (simp add: node_wf_def) (simp add: newNode_def)

theorem groups_close_leaks_witness:
  "\<exists>w'. groups_close demo_group = Ret w' \<and> online (heap w' 2) \<and> conn_open (heap w' 2) \<and>
     vis (g w') = []"
  by (rule groups_close_leaks [where a = 1 and c = 3 and ds = "[]"])
    (simp_all add: demo_group_def heap_wf_def)

text \<open>Up to two clients are all closed.\<close>

lemma groups_close_upto_two:
  assumes "heap_wf w" and "length (vis (g w)) \<le> 2" and "distinct (vis (g w))"
    and "\<forall>x \<in> set (vis (g w)). online (heap w x)"
  shows "\<exists>w'. groups_close w = Ret w' \<and> (\<forall>x \<in> set (vis (g w)). \<not> online (heap w' x))"
  using grp.close_upto_two [OF assms] by (auto simp: groups_close_def)

section \<open>The sending goroutine\<close>

text \<open>Turns of \<open>asyncSendService\<close> with writes that succeed.\<close>

fun sends :: "nat \<Rightarrow> nat \<Rightarrow> 'a svc_scheme \<Rightarrow> 'a svc_scheme go" where
  "sends 0 a w = Ret w"
| "sends (Suc n) a w = go_bind (asyncSendService_turn False a w) (\<lambda>(w', goes_on). if goes_on then sends n a w' else Ret w')"

lemma sends_queue:
  assumes "online (heap w a)"
  shows "sends (length (sendQueue (heap w a))) a w =
    Ret (upd_node a (\<lambda>n. n\<lparr>sendQueue := [], conn_writes := conn_writes n @ sendQueue n\<rparr>) w)"
  using assms
proof (induction "sendQueue (heap w a)" arbitrary: w)
  case Nil
  then show ?case by (simp add: upd_node_def fun_upd_idem)
next
  case (Cons msg q)
  define w1 where "w1 = upd_node a (\<lambda>n. n\<lparr>sendQueue := q, conn_writes := conn_writes n @ [msg]\<rparr>) w"
  have "asyncSendService_turn False a w = Ret (w1, True)"
    using Cons.hyps(2) [symmetric] Cons.prems by (simp add: asyncSendService_turn_def w1_def)
  moreover have "sendQueue (heap w1 a) = q" "online (heap w1 a)"
    using Cons.prems by (simp_all add: w1_def upd_node_def)
  moreover have "upd_node a (\<lambda>n. n\<lparr>sendQueue := [], conn_writes := conn_writes n @ sendQueue n\<rparr>) w1 =
      upd_node a (\<lambda>n. n\<lparr>sendQueue := [], conn_writes := conn_writes n @ sendQueue n\<rparr>) w"
    using Cons.hyps(2) [symmetric] by (simp add: w1_def upd_node_def)
  ultimately show ?case using Cons.hyps(1) [of w1] Cons.hyps(2) [symmetric] by simp
qed

text \<open>
  C12. What is queued for a client is written to it: as many turns of the sending goroutine as
  there are frames in the queue write exactly these frames, in order, leave the queue empty
  and touch no other client; after that the goroutine waits, or ends when the context is
  cancelled.
\<close>

theorem queue_is_written:
  assumes "online (heap w a)" and "\<not> queue_closed (heap w a)"
  shows "\<exists>w'. sends (length (sendQueue (heap w a))) a w = Ret w' \<and>
    w' = upd_node a (\<lambda>n. n\<lparr>sendQueue := [], conn_writes := conn_writes n @ sendQueue n\<rparr>) w \<and>
    asyncSendService_turn err a w' = Block \<and> asyncSendService_done a w' = (w', False)"
  using sends_queue [OF assms(1)] assms
  by (simp add: asyncSendService_turn_def asyncSendService_done_def)

theorem queue_is_written_witness:
  "\<exists>w'. sends 2 1 (upd_node 1 (\<lambda>n. n\<lparr>sendQueue := [[7], [8]]\<rparr>) demo_group) = Ret w' \<and>
     conn_writes (heap w' 1) = [[7], [8]] \<and> sendQueue (heap w' 1) = []"
proof -
  let ?w = "upd_node 1 (\<lambda>n. n\<lparr>sendQueue := [[7], [8]]\<rparr>) demo_group"
  have h: "heap demo_group b = newNode [GroupsRemove]" for b by (simp add: demo_group_def)
  have n: "heap ?w 1 = (newNode [GroupsRemove])\<lparr>sendQueue := [[7], [8]]\<rparr>"
    by (simp add: upd_node_def demo_group_def)
  have "online (heap ?w 1)" "\<not> queue_closed (heap ?w 1)" unfolding n by simp_all (simp add: newNode_def)
  from queue_is_written [OF this, of False] n show ?thesis
    by (auto simp: numeral_2_eq_2 newNode_def upd_node_def h)
qed

end
