(* ===== verification/Tcp_Node_Reader.thy ===== *)
theory Tcp_Node_Reader
  imports Tcp_Groups
begin

text \<open>
  The receiving side of a subscription client's connection: \<^verbatim>\<open>onMessage\<close>,
  \<^verbatim>\<open>onSetProEvent\<close> and \<^verbatim>\<open>onSetPro\<close> of \<^verbatim>\<open>src/services/service_tcpnode.go\<close>.
  \<open>node_feed\<close> is the loop of \<^verbatim>\<open>onConnect\<close> over the data of successful reads. The
  results: a stream of subscriptions and heartbeats is served frame by frame whatever the
  cuts, and which frames crash the process.
\<close>

section \<open>Serving a frame\<close>

abbreviation set_recvBuf :: "nat \<Rightarrow> bytes \<Rightarrow> 'a svc_scheme \<Rightarrow> 'a svc_scheme" where
  "set_recvBuf a b \<equiv> upd_node a (\<lambda>n. n\<lparr>recvBuf := b\<rparr>)"

definition onSetPro :: "(string \<Rightarrow> string) \<Rightarrow> nat \<Rightarrow> string \<Rightarrow> 'a svc_scheme \<Rightarrow> 'a svc_scheme" where
  "onSetPro uni a groupName w = upd_node a (addTopic uni groupName) (node_send a packDataSetPro w)"

definition onSetProEvent :: "(string \<Rightarrow> string) \<Rightarrow> nat \<Rightarrow> bytes \<Rightarrow> 'a svc_scheme \<Rightarrow> 'a svc_scheme go" where
  "onSetProEvent uni a data w =
     go_bind (at data 0) (\<lambda>flag.
       let content = string_of (drop 1 data)
       in if flag = FlagSetPro then Ret (onSetPro uni a content w)
          else if flag = FlagPing then node_close a (node_send a packDataSetPro w)
          else node_close a w)"

definition unsupported :: "nat \<Rightarrow> bytes" where
  "unsupported cmd = Pack CMD_ERROR (bytes_of (''tcp service does not support cmd: '' @ dec cmd))"

text \<open>No operation of a frame touches the receive buffers.\<close>

lemma recvBuf_run_onclose [simp]:
  "recvBuf (heap (run_onclose fs a w) b) = recvBuf (heap w b)"
proof (induction fs arbitrary: w)
  case Nil
  then show ?case by simp
next
  case (Cons f fs)
  then show ?case by (cases f) (simp add: groups_remove_eq)
qed

lemma recvBuf_node_close: "node_close a w = Ret w' \<Longrightarrow> recvBuf (heap w' b) = recvBuf (heap w b)"
  by (auto simp: node_close_def split: if_splits)

lemma recvBuf_node_send [simp]: "recvBuf (heap (node_send a d w) b) = recvBuf (heap w b)"
  by (simp add: node_send_def)

lemma recvBuf_node_asyncSend:
  "node_asyncSend a d w = Ret w' \<Longrightarrow> recvBuf (heap w' b) = recvBuf (heap w b)"
  by (auto simp: node_asyncSend_def split: if_splits)

lemma recvBuf_onSetProEvent:
  "onSetProEvent uni a d w = Ret w' \<Longrightarrow> recvBuf (heap w' b) = recvBuf (heap w b)"
  by (auto simp: onSetProEvent_def onSetPro_def addTopic_def Let_def recvBuf_node_close
      elim!: go_bind_RetE split: if_splits)

function node_loop :: "(string \<Rightarrow> string) \<Rightarrow> nat \<Rightarrow> 'a svc_scheme \<Rightarrow> 'a svc_scheme go" where
  "node_loop uni a w =
     (let buf = recvBuf (heap w a); size = length buf
      in if size < 6 then Ret w
         else let clen = get32 (buf ! 0) (buf ! 1) (buf ! 2) (buf ! 3)
         in if length buf < clen + 4 then Ret w
         else let cmd = get16 (buf ! 4) (buf ! 5)
         in if \<not> hasCmd cmd then Ret (set_recvBuf a [] w)
         else go_bind (sub buf 6 (clen + 4)) (\<lambda>content.
           if cmd = CMD_SET_PRO then
             go_bind (onSetProEvent uni a content w) (\<lambda>w'.
               node_loop uni a (set_recvBuf a (drop (clen + 4) (recvBuf (heap w' a))) w'))
           else if cmd = CMD_TICK then
             go_bind (node_asyncSend a packDataTickOk w) (\<lambda>w'.
               node_loop uni a (set_recvBuf a (drop (clen + 4) (recvBuf (heap w' a))) w'))
           else
             go_bind (node_asyncSend a (unsupported cmd) w) (\<lambda>w'.
               Ret (set_recvBuf a [] w'))))"
  by pat_completeness auto
termination
  by (relation "measure (\<lambda>(uni, a, w). length (recvBuf (heap w a)))")
    (auto simp: recvBuf_onSetProEvent recvBuf_node_asyncSend)

declare node_loop.simps [simp del]

definition node_onMessage :: "(string \<Rightarrow> string) \<Rightarrow> nat \<Rightarrow> bytes \<Rightarrow> 'a svc_scheme \<Rightarrow> 'a svc_scheme go" where
  "node_onMessage uni a msg w = node_loop uni a (set_recvBuf a (recvBuf (heap w a) @ msg) w)"

fun node_feed :: "(string \<Rightarrow> string) \<Rightarrow> nat \<Rightarrow> bytes list \<Rightarrow> 'a svc_scheme \<Rightarrow> 'a svc_scheme go" where
  "node_feed uni a [] w = Ret w"
| "node_feed uni a (c # cs) w = go_bind (node_onMessage uni a c w) (node_feed uni a cs)"


section \<open>Streams of frames\<close>

text \<open>What the server is meant to do with one frame, and the frames it serves.\<close>

definition serve :: "(string \<Rightarrow> string) \<Rightarrow> nat \<Rightarrow> nat \<times> bytes \<Rightarrow> 'a svc_scheme \<Rightarrow> 'a svc_scheme go" where
  "serve uni a f w =
     (if fst f = CMD_SET_PRO then onSetProEvent uni a (snd f) w
      else node_asyncSend a packDataTickOk w)"

definition servable :: "nat \<times> bytes \<Rightarrow> bool" where
  "servable f \<longleftrightarrow> wire_ok f \<and> (fst f = CMD_SET_PRO \<or> fst f = CMD_TICK)"

lemma set_recvBuf_same: "recvBuf (heap w a) = b \<Longrightarrow> set_recvBuf a b w = w"
proof -
  assume "recvBuf (heap w a) = b"
  then have "(heap w a)\<lparr>recvBuf := b\<rparr> = heap w a" by (cases "heap w a") simp
  then show ?thesis by (simp add: upd_node_def)
qed

lemma set_recvBuf_twice [simp]: "set_recvBuf a b (set_recvBuf a b' w) = set_recvBuf a b w"
  by (simp add: upd_node_def)

lemma upd_node_set_recvBuf:
  "(\<And>n. f (n\<lparr>recvBuf := b\<rparr>) = (f n)\<lparr>recvBuf := b\<rparr>) \<Longrightarrow>
     upd_node a f (set_recvBuf a b w) = set_recvBuf a b (upd_node a f w)"
  by (simp add: upd_node_def)

lemma run_onclose_set_recvBuf:
  "run_onclose fs a (set_recvBuf c b w) = set_recvBuf c b (run_onclose fs a w)"
proof (induction fs arbitrary: w)
  case Nil
  then show ?case by simp
next
  case (Cons f fs)
  have "groups_remove a (set_recvBuf c b w) = set_recvBuf c b (groups_remove a w)"
    by (simp add: groups_remove_eq upd_node_def)
  with Cons show ?case by (cases f) simp
qed

lemma node_close_set_recvBuf:
  "node_close a (set_recvBuf a b w) = go_bind (node_close a w) (\<lambda>v. Ret (set_recvBuf a b v))"
  by (simp add: node_close_def upd_node_set_recvBuf run_onclose_set_recvBuf)

lemma node_send_set_recvBuf: "node_send a d (set_recvBuf a b w) = set_recvBuf a b (node_send a d w)"
  by (simp add: node_send_def upd_node_set_recvBuf)

lemma node_asyncSend_set_recvBuf:
  "node_asyncSend a d (set_recvBuf a b w) = go_bind (node_asyncSend a d w) (\<lambda>v. Ret (set_recvBuf a b v))"
  by (simp add: node_asyncSend_def upd_node_set_recvBuf)

lemma serve_set_recvBuf:
  "serve uni a f (set_recvBuf a b w) = go_bind (serve uni a f w) (\<lambda>v. Ret (set_recvBuf a b v))"
  by (cases "at (snd f) 0")
    (simp_all add: serve_def onSetProEvent_def onSetPro_def Let_def node_send_set_recvBuf
      node_close_set_recvBuf node_asyncSend_set_recvBuf upd_node_set_recvBuf addTopic_def)

lemma each_serve_set_recvBuf:
  "each (serve uni a) fs (set_recvBuf a b w) =
     go_bind (each (serve uni a) fs w) (\<lambda>v. Ret (set_recvBuf a b v))"
proof (induction fs arbitrary: w)
  case Nil
  then show ?case by simp
next
  case (Cons f fs)
  then show ?case by (cases "serve uni a f w") (simp_all add: serve_set_recvBuf)
qed

lemma recvBuf_serve: "serve uni a f w = Ret w' \<Longrightarrow> recvBuf (heap w' b) = recvBuf (heap w b)"
  by (auto simp: serve_def recvBuf_onSetProEvent recvBuf_node_asyncSend split: if_splits)

text \<open>One turn of the loop on a complete frame that is served.\<close>

lemma node_loop_step:
  assumes "wire_next (recvBuf (heap w a)) = Some (f, n)" and "fst f = CMD_SET_PRO \<or> fst f = CMD_TICK"
  shows "node_loop uni a w =
    go_bind (serve uni a f w) (\<lambda>w'. node_loop uni a (set_recvBuf a (drop n (recvBuf (heap w a))) w'))"
proof -
  let ?buf = "recvBuf (heap w a)"
  from wire_next_SomeD [OF assms(1)]
  have n: "6 \<le> n" "n \<le> length ?buf" "le_nat (take 4 ?buf) = n - 4"
    and f: "f = (le_nat (take 2 (drop 4 ?buf)), take (n - 6) (drop 6 ?buf))"
    by auto
  have len: "6 \<le> length ?buf" using n by linarith
  have clen: "get32 (?buf ! 0) (?buf ! 1) (?buf ! 2) (?buf ! 3) = n - 4"
    using get32_take [of ?buf] len n(3) by simp
  have cmd: "get16 (?buf ! 4) (?buf ! 5) = fst f"
    using get16_take [of 4 ?buf] len f by simp
  have content: "sub ?buf 6 (n - 4 + 4) = Ret (snd f)"
    using n f by simp
  have has: "hasCmd (fst f)" using assms(2) by (auto simp: hasCmd_def)
  have tick: "fst f \<noteq> CMD_SET_PRO \<Longrightarrow> fst f = CMD_TICK" using assms(2) by simp
  show ?thesis
    unfolding node_loop.simps [of uni a w] Let_def clen cmd content
    using n len has tick
    by (auto simp: serve_def recvBuf_onSetProEvent recvBuf_node_asyncSend intro!: go_bind_cong)
qed

lemma node_loop_wait: "wire_next (recvBuf (heap w a)) = None \<Longrightarrow>
    length (recvBuf (heap w a)) < 6 \<or> length (recvBuf (heap w a)) < le_nat (take 4 (recvBuf (heap w a))) + 4 \<Longrightarrow>
    node_loop uni a w = Ret w"
  using get32_take [of "recvBuf (heap w a)"]
  by (subst node_loop.simps) (auto simp: Let_def)

lemma node_loop_drain:
  fixes w :: "'a svc_scheme"
  assumes "\<forall>f \<in> set (fst (drain wire_next (recvBuf (heap w a)))). fst f = CMD_SET_PRO \<or> fst f = CMD_TICK"
    and "incomplete (snd (drain wire_next (recvBuf (heap w a))))"
  shows "node_loop uni a w =
    go_bind (each (serve uni a) (fst (drain wire_next (recvBuf (heap w a)))) w)
      (\<lambda>w'. Ret (set_recvBuf a (snd (drain wire_next (recvBuf (heap w a)))) w'))"
  using assms
proof (induction "length (recvBuf (heap w a))" arbitrary: w rule: less_induct)
  case less
  let ?buf = "recvBuf (heap w a)"
  show ?case
  proof (cases "wire_next ?buf")
    case None
    then show ?thesis
      using less.prems(2) by (simp add: node_loop_wait incomplete_def set_recvBuf_same)
  next
    case (Some fn)
    then obtain f n where nx: "wire_next ?buf = Some (f, n)" by (cases fn) auto
    note d = wire.drain_unfold [OF nx]
    have n: "0 < n" "n \<le> length ?buf" using wire.nxt_bounds [OF nx] by simp_all
    let ?rest = "drop n ?buf" and ?fs = "fst (drain wire_next (drop n ?buf))"
      and ?r = "snd (drain wire_next (drop n ?buf))"
    have "node_loop uni a (set_recvBuf a ?rest w') =
        go_bind (each (serve uni a) ?fs w') (\<lambda>w''. Ret (set_recvBuf a ?r w''))" for w' :: "'a svc_scheme"
      using less.hyps [of "set_recvBuf a ?rest w'"] less.prems n d
      by (simp add: each_serve_set_recvBuf go_bind_assoc)
    then show ?thesis
      using node_loop_step [OF nx] less.prems(1) d by (simp add: go_bind_assoc)
  qed
qed

lemma node_feed_stream:
  fixes w :: "'a svc_scheme"
  assumes "\<forall>f \<in> set fs. servable f" and "recvBuf (heap w a) @ concat cs = concat (map wire_enc fs)"
    and "wire_next (recvBuf (heap w a)) = None"
  shows "node_feed uni a cs w =
    go_bind (each (serve uni a) fs w) (\<lambda>w'. Ret (set_recvBuf a [] w'))"
  using assms
proof (induction cs arbitrary: w fs)
  case Nil
  have "fs = []"
  proof (cases fs)
    case (Cons f fs')
    have "wire_next (wire_enc f @ concat (map wire_enc fs')) = Some (f, length (wire_enc f))"
      using Nil.prems(1) Cons by (intro wire.nxt_enc) (simp add: servable_def)
    with Nil.prems(2,3) Cons show ?thesis by simp
  qed
  with Nil.prems(2) show ?case by (simp add: set_recvBuf_same)
next
  case (Cons c cs)
  let ?buf = "recvBuf (heap w a) @ c"
  let ?r = "snd (drain wire_next ?buf)"
  have ok: "\<forall>f \<in> set fs. wire_ok f" using Cons.prems(1) by (simp add: servable_def)
  have "?buf @ concat cs = concat (map wire_enc fs)" using Cons.prems(2) by simp
  from wire.drain_prefix [OF ok this] obtain fs1 fs2 where fs: "fs = fs1 @ fs2"
    "fst (drain wire_next ?buf) = fs1" "?r @ concat cs = concat (map wire_enc fs2)"
    by blast
  have none: "wire_next ?r = None" by (rule wire.drain_residue)
  have "incomplete ?r"
    by (rule wire_residue_incomplete [OF _ fs(3) none]) (use ok fs(1) in auto)
  then have "node_onMessage uni a c w =
      go_bind (each (serve uni a) fs1 w) (\<lambda>w'. Ret (set_recvBuf a ?r w'))"
    using node_loop_drain [of "set_recvBuf a ?buf w" a uni] Cons.prems(1) fs(1,2)
    by (simp add: node_onMessage_def servable_def each_serve_set_recvBuf go_bind_assoc)
  moreover have "node_feed uni a cs (set_recvBuf a ?r w') =
      go_bind (each (serve uni a) fs2 w') (\<lambda>w''. Ret (set_recvBuf a [] w''))" for w' :: "'a svc_scheme"
    using Cons.IH [of fs2 "set_recvBuf a ?r w'"] Cons.prems(1) fs none
    by (simp add: each_serve_set_recvBuf go_bind_assoc)
  ultimately show ?case
    using fs(1) by (simp add: go_bind_assoc each_append)
qed



text \<open>\<open>onConnect\<close>: the loop of reads until the one that fails.\<close>

definition node_onConnect :: "(string \<Rightarrow> string) \<Rightarrow> nat \<Rightarrow> bytes list \<Rightarrow> 'a svc_scheme \<Rightarrow> 'a svc_scheme go" where
  "node_onConnect uni a reads w = go_bind (node_feed uni a reads w) (node_close a)"


section \<open>Frames that crash the process\<close>

text \<open>
  Two kinds of frames end the whole process, since nothing recovers a panic of
  \<open>onMessage\<close>: a frame with a known command whose length field is 0 or 1 (the content
  slice runs backwards), and a subscription frame without content (its flag is read
  unchecked).
\<close>

theorem malformed_frame_crashes:
  assumes "recvBuf (heap w a) = []" and "l < 2" and "hasCmd c"
  shows "node_onMessage uni a (le_bytes 4 l @ le_bytes 2 c) w = Panic SliceOutOfRange \<and>
    node_onMessage uni a (Pack CMD_SET_PRO []) w = Panic IndexOutOfRange"
proof (rule conjI)
  have c: "c < 10" using assms(3) by (auto simp: hasCmd_def cmd_defs)
  let ?b = "le_bytes 4 l @ le_bytes 2 c"
  have "get32 (?b ! 0) (?b ! 1) (?b ! 2) (?b ! 3) = l"
    using get32_take [of ?b] assms(2) by simp
  moreover have "get16 (?b ! 4) (?b ! 5) = c"
    using get16_take [of 4 ?b] c by simp
  ultimately show "node_onMessage uni a ?b w = Panic SliceOutOfRange"
    unfolding node_onMessage_def node_loop.simps [of _ _ "set_recvBuf a (recvBuf (heap w a) @ ?b) w"]
    using assms by (simp add: Let_def sub_def)
  let ?p = "Pack CMD_SET_PRO []"
  have p: "?p = le_bytes 4 2 @ le_bytes 2 0" by (simp add: Pack_eq cmd_defs numeral_2_eq_2)
  have "get32 (?p ! 0) (?p ! 1) (?p ! 2) (?p ! 3) = 2"
    using get32_take [of ?p] by (simp add: p)
  moreover have "get16 (?p ! 4) (?p ! 5) = CMD_SET_PRO"
    using get16_take [of 4 ?p] unfolding p by (simp add: cmd_defs)
  moreover have "length ?p = 6" by (simp add: p)
  ultimately show "node_onMessage uni a ?p w = Panic IndexOutOfRange"
    unfolding node_onMessage_def node_loop.simps [of _ _ "set_recvBuf a (recvBuf (heap w a) @ ?p) w"]
    using assms(1) by (simp add: Let_def onSetProEvent_def at_def hasCmd_def)
qed

theorem malformed_frame_crashes_witness:
  "node_onMessage id 1 [1, 0, 0, 0, 3, 0] demo_group = Panic SliceOutOfRange \<and>
   node_onMessage id 1 (Pack CMD_SET_PRO []) demo_group = Panic IndexOutOfRange"
  using malformed_frame_crashes [of demo_group 1 1 CMD_TICK id]
  by (simp add: demo_group_def newNode_def hasCmd_def cmd_defs le_bytes_2 le_bytes_4)

end
