(* ===== verification/Tcp_Service.thy ===== *)
theory Tcp_Service
  imports Tcp_Node_Reader Sub_Service
begin

text \<open>
  The subscription server, \<^verbatim>\<open>TCPService\<close> of \<^verbatim>\<open>src/services/service_tcp.go\<close>, on
  top of its clients (\<open>Tcp_Groups\<close>, \<open>Tcp_Node_Reader\<close>) and its registration
  (\<open>Sub_Service\<close>). The state extends that of the clients. \<open>serving\<close> is the step relation
  of the goroutines of a running server (accepting, each client's reader and sender, events,
  heartbeats), \<open>tcp_step\<close> adds closing. Callbacks run one per step. Results: what the
  fields of a client say about each other, that the group lists exactly the live clients
  until the server is closed, that the published counter is the number of live clients, and
  who receives an event.
\<close>

section \<open>The service\<close>

datatype send_all_func = GroupsSendAll
datatype send_raw_func = GroupsAsyncSend
datatype on_connect_func = GroupsOnConnect | SvcNewConnect
datatype close_func = GroupsClose | SvcClose
datatype reload_func = GroupsReload

record 'c tcp_service = svc +
  t_status :: nat
  t_listen :: string
  t_listener :: "bool option" \<comment> \<open>nil, or whether it is open\<close>
  t_sendAll :: "send_all_func list"
  t_sendRaw :: "send_raw_func list"
  t_onConnect :: "on_connect_func list"
  t_onClose :: "close_func list"
  t_onKeepalive :: "send_raw_func list"
  t_reload :: "reload_func list"
  t_service :: "SubService option"
  t_consul :: 'c
  t_accepting :: "on_connect_func list" \<comment> \<open>callbacks still to run for the connection just accepted\<close>

definition serviceEnable :: nat where "serviceEnable = 1"
definition serviceClosed :: nat where "serviceClosed = 2"

lemmas service_flags = serviceEnable_def serviceClosed_def

text \<open>A node that is not there, for the addresses not handed out yet.\<close>

definition no_node :: tcpClientNode where
  "no_node = \<lparr>conn_open = False, conn_writes = [], sendQueue = [], queue_closed = True, sendFailureTimes = 0,
     topics = [], recvBuf = [], status = 0, onclose = []\<rparr>"

definition newTCPService :: "string \<Rightarrow> 'c \<Rightarrow> 'c tcp_service" where
  "newTCPService listen c =
     \<lparr>heap = (\<lambda>_. no_node), fresh = 1, g = gs_make, onRemove = [], connects = 0,
      t_status = 0 OR serviceEnable, t_listen = listen, t_listener = None,
      t_sendAll = [GroupsSendAll], t_sendRaw = [GroupsAsyncSend], t_onConnect = [GroupsOnConnect],
      t_onClose = [GroupsClose], t_onKeepalive = [GroupsAsyncSend], t_reload = [GroupsReload],
      t_service = None, t_consul = c, t_accepting = []\<rparr>"

definition NewTCPService :: "'c api \<Rightarrow> string \<Rightarrow> string \<Rightarrow> bool \<Rightarrow> string \<Rightarrow> 'c \<Rightarrow> 'c tcp_service go" where
  "NewTCPService api hostname listen consul_enabled consul_addr c =
     (let t = newTCPService listen c
      in if consul_enabled \<and> consul_addr \<noteq> []
         then let temp = split_at (CHR '':'') listen
              in go_bind (at temp 0) (\<lambda>host. go_bind (at temp 1) (\<lambda>p.
                 go_bind (NewSubService host (fst (ParseInt 32 p)) []) (\<lambda>s.
                   let (_, s', c') = SubService_Register api hostname s c
                   in Ret (t\<lparr>t_service := Some s', t_consul := c', t_onClose := t_onClose t @ [SvcClose],
                             t_onConnect := t_onConnect t @ [SvcNewConnect], onRemove := onRemove t @ [SvcDisconnect]\<rparr>))))
         else Ret t)"

fun run_sendAll :: "matcher \<Rightarrow> send_all_func \<Rightarrow> string \<Rightarrow> bytes \<Rightarrow> 'a svc_scheme \<Rightarrow> 'a svc_scheme go" where
  "run_sendAll m GroupsSendAll table data t = groups_sendAll m table data t"

fun run_sendRaw :: "send_raw_func \<Rightarrow> bytes \<Rightarrow> 'a svc_scheme \<Rightarrow> 'a svc_scheme go" where
  "run_sendRaw GroupsAsyncSend msg t = groups_asyncSend msg t"

fun run_onConnect :: "growth \<Rightarrow> on_connect_func \<Rightarrow> 'a svc_scheme \<Rightarrow> 'a svc_scheme" where
  "run_onConnect grow GroupsOnConnect t = groups_onConnect grow t"
| "run_onConnect grow SvcNewConnect t = svc_newConnect t"

definition SendAll :: "matcher \<Rightarrow> string \<Rightarrow> bytes \<Rightarrow> 'c tcp_service \<Rightarrow> ('c tcp_service \<times> bool) go" where
  "SendAll m table data t =
     (if \<not> has_flag (t_status t) serviceEnable then Ret (t, False)
      else let packData = Pack CMD_EVENT data
           in go_bind (each (\<lambda>f. run_sendAll m f table packData) (t_sendAll t) t) (\<lambda>t'. Ret (t', True)))"

definition SendRaw :: "bytes \<Rightarrow> 'c tcp_service \<Rightarrow> ('c tcp_service \<times> bool) go" where
  "SendRaw msg t =
     (if \<not> has_flag (t_status t) serviceEnable then Ret (t, False)
      else go_bind (each (\<lambda>f. run_sendRaw f msg) (t_sendRaw t) t) (\<lambda>t'. Ret (t', True)))"

text \<open>\<open>Start\<close>: the synchronous part, the goroutine's \<open>Listen\<close> (which may fail), and what an
  accepted connection starts.\<close>

definition tcp_Start :: "'c tcp_service \<Rightarrow> 'c tcp_service" where
  "tcp_Start t =
     (if \<not> has_flag (t_status t) serviceEnable then t
      else if has_flag (t_status t) serviceClosed then t\<lparr>t_status := t_status t XOR serviceClosed\<rparr> else t)"

definition tcp_listen :: "bool \<Rightarrow> 'c tcp_service \<Rightarrow> 'c tcp_service" where
  "tcp_listen err t = (if err then t else t\<lparr>t_listener := Some True\<rparr>)"

text \<open>What follows \<open>Accept\<close>: \<open>ctx_done\<close> and \<open>err\<close> as the loop finds them. The result
  says whether the loop goes on.\<close>

definition accept_turn :: "bool \<Rightarrow> bool \<Rightarrow> 'c tcp_service \<Rightarrow> 'c tcp_service \<times> bool" where
  "accept_turn ctx_done err t =
     (if ctx_done then (t, False)
      else if has_flag (t_status t) serviceClosed then (t, False)
      else if err then (t, True)
      else (t\<lparr>t_accepting := t_onConnect t\<rparr>, True))"

definition run_onClose :: "'c api \<Rightarrow> close_func \<Rightarrow> 'c tcp_service \<Rightarrow> 'c tcp_service go" where
  "run_onClose api f t =
     (case f of
        GroupsClose \<Rightarrow> groups_close t
      | SvcClose \<Rightarrow> (case t_service t of
          None \<Rightarrow> Panic NilDereference
        | Some s \<Rightarrow> Ret (t\<lparr>t_consul := SubService_Close api s (t_consul t)\<rparr>)))"

definition tcp_Close :: "'c api \<Rightarrow> 'c tcp_service \<Rightarrow> 'c tcp_service go" where
  "tcp_Close api t =
     (if has_flag (t_status t) serviceClosed then Ret t
      else let t1 = (if t_listener t \<noteq> None then t\<lparr>t_listener := Some False\<rparr> else t)
           in go_bind (each (run_onClose api) (t_onClose t1) t1) (\<lambda>t2.
                Ret (if has_flag (t_status t2) serviceClosed then t2
                     else t2\<lparr>t_status := t_status t2 OR serviceClosed\<rparr>)))"

text \<open>\<open>keepalive\<close>: a pass of its loop (the status is looked at before the first one), and
  whether the loop goes on.\<close>

definition tcp_keepalive :: "bool \<Rightarrow> 'c tcp_service \<Rightarrow> ('c tcp_service \<times> bool) go" where
  "tcp_keepalive ctx_done t =
     (if \<not> has_flag (t_status t) serviceEnable then Ret (t, False)
      else if ctx_done then Ret (t, False)
      else go_bind (each (\<lambda>f. run_sendRaw f packDataTickOk) (t_onKeepalive t) t) (\<lambda>t'. Ret (t', True)))"

text \<open>
  With Consul enabled the server cannot listen on all interfaces: \<open>NewTCPService\<close> passes
  no service address, and \<open>NewService\<close> insists on one for the host \<open>0.0.0.0\<close>, the
  host of the configuration the repository ships.
\<close>

theorem wildcard_listen_panics:
  assumes "consul_addr \<noteq> []" and "CHR '':'' \<notin> set port"
  shows "NewTCPService api hostname (''0.0.0.0:'' @ port) True consul_addr c = Panic ExplicitPanic"
proof -
  have "split_at (CHR '':'') (''0.0.0.0'' @ CHR '':'' # port) = [''0.0.0.0'', port]"
    using assms(2) by (intro split_at_address) simp_all
  then show ?thesis
    using assms(1) by (simp add: NewTCPService_def NewSubService_def Let_def)
qed

theorem wildcard_listen_panics_witness:
  "NewTCPService consul_api ''h'' (''0.0.0.0:'' @ ''9990'') True ''127.0.0.1:8500'' no_consul = Panic ExplicitPanic"
  by (rule wildcard_listen_panics) simp_all

section \<open>What the operations do to the clients\<close>

text \<open>Everything an operation does to existing clients is a sequence of two kinds of moves:
  quiet ones, which leave who is online alone, and closing a client.\<close>

definition quiet :: "'a svc_scheme \<Rightarrow> 'a svc_scheme \<Rightarrow> bool" where
  "quiet w w' \<longleftrightarrow>
     g w' = g w \<and> fresh w' = fresh w \<and> onRemove w' = onRemove w \<and> connects w' = connects w \<and>
     svc.more w' = svc.more w \<and>
     (\<forall>a. status (heap w' a) = status (heap w a) \<and> (node_wf (heap w a) \<longrightarrow> node_wf (heap w' a)))"

inductive moves :: "'a svc_scheme \<Rightarrow> 'a svc_scheme \<Rightarrow> bool" where
  refl: "moves w w"
| quiet: "moves w w' \<Longrightarrow> quiet w' w'' \<Longrightarrow> moves w w''"
| close: "moves w w' \<Longrightarrow> node_close a w' = Ret w'' \<Longrightarrow> moves w w''"

lemma moves_quiet: "quiet w w' \<Longrightarrow> moves w w'"
  by (rule moves.quiet [OF moves.refl])

lemma moves_close: "node_close a w = Ret w' \<Longrightarrow> moves w w'"
  by (rule moves.close [OF moves.refl])

lemma moves_trans: "moves v w \<Longrightarrow> moves u v \<Longrightarrow> moves u w"
  by (induction rule: moves.induct) (blast intro: moves.intros)+

text \<open>The operations as moves.\<close>

lemma quiet_upd_node:
  "(\<And>n. status (f n) = status n) \<Longrightarrow> (\<And>n. node_wf n \<Longrightarrow> node_wf (f n)) \<Longrightarrow> quiet w (upd_node a f w)"
  by (simp add: quiet_def)

lemma node_wf_upd [simp]:
  "node_wf n \<Longrightarrow> node_wf (n\<lparr>recvBuf := b\<rparr>)" "node_wf n \<Longrightarrow> node_wf (n\<lparr>topics := ts\<rparr>)"
  "node_wf n \<Longrightarrow> node_wf (n\<lparr>conn_writes := ws\<rparr>)" "node_wf n \<Longrightarrow> node_wf (n\<lparr>sendFailureTimes := k\<rparr>)"
  by (simp_all add: node_wf_def)

lemma moves_set_recvBuf: "moves w (set_recvBuf a b w)"
  by (intro moves_quiet quiet_upd_node) simp_all

lemma moves_send: "moves w (node_send a d w)"
  unfolding node_send_def by (intro moves_quiet quiet_upd_node) simp_all

lemma moves_asyncSend: "node_asyncSend a d w = Ret w' \<Longrightarrow> moves w w'"
  by (auto simp: node_asyncSend_def quiet_def node_wf_def split: if_splits
      intro!: moves_quiet moves.refl)

lemma moves_onSetPro: "moves w (onSetPro uni a gn w)"
  unfolding onSetPro_def
  by (rule moves_trans [OF moves_quiet [OF quiet_upd_node] moves_send])
    (simp_all add: addTopic_def Let_def)

lemma moves_onSetProEvent: "onSetProEvent uni a d w = Ret w' \<Longrightarrow> moves w w'"
  by (auto simp: onSetProEvent_def Let_def split: if_splits elim!: go_bind_RetE
      intro: moves_onSetPro moves_close moves_trans [OF moves_close moves_send])

text \<open>A turn of the reading loop: it waits, drops the buffer, or goes on with the rest.\<close>

lemma node_loop_Ret:
  assumes "node_loop uni a w = Ret w'"
  shows "w' = w \<or> w' = set_recvBuf a [] w \<or>
    (\<exists>v c. node_asyncSend a (unsupported c) w = Ret v \<and> w' = set_recvBuf a [] v) \<or>
    (\<exists>v d n. (onSetProEvent uni a d w = Ret v \<or> node_asyncSend a packDataTickOk w = Ret v) \<and>
       4 \<le> n \<and> 6 \<le> length (recvBuf (heap w a)) \<and>
       node_loop uni a (set_recvBuf a (drop n (recvBuf (heap v a))) v) = Ret w')"
proof -
  define buf where "buf = recvBuf (heap w a)"
  define clen where "clen = get32 (buf ! 0) (buf ! 1) (buf ! 2) (buf ! 3)"
  define cmd where "cmd = get16 (buf ! 4) (buf ! 5)"
  note eq = node_loop.simps [of uni a w, unfolded Let_def, folded buf_def, folded clen_def cmd_def]
  consider "length buf < 6 \<or> length buf < clen + 4" | "\<not> hasCmd cmd"
    | (go) "(length buf < 6) = False" "(length buf < clen + 4) = False" "hasCmd cmd = True"
    by auto
  then show ?thesis
  proof cases
    case go
    note e = trans [OF sym [OF eq] assms, unfolded go if_False not_True_eq_False]
    have n: "6 \<le> length buf" "4 \<le> clen + 4" using go(1) by auto
    from e obtain content where c: "(if cmd = CMD_SET_PRO then
        go_bind (onSetProEvent uni a content w) (\<lambda>w'.
          node_loop uni a (set_recvBuf a (drop (clen + 4) (recvBuf (heap w' a))) w'))
      else if cmd = CMD_TICK then
        go_bind (node_asyncSend a packDataTickOk w) (\<lambda>w'.
          node_loop uni a (set_recvBuf a (drop (clen + 4) (recvBuf (heap w' a))) w'))
      else go_bind (node_asyncSend a (unsupported cmd) w) (\<lambda>w'. Ret (set_recvBuf a [] w'))) = Ret w'"
      by (rule go_bind_RetE) (rule that)
    show ?thesis
    proof (cases "cmd = CMD_SET_PRO \<or> cmd = CMD_TICK")
      case True
      with c obtain v where "onSetProEvent uni a content w = Ret v \<or> node_asyncSend a packDataTickOk w = Ret v"
        "node_loop uni a (set_recvBuf a (drop (clen + 4) (recvBuf (heap v a))) v) = Ret w'"
        by (auto split: if_splits elim!: go_bind_RetE)
      with n show ?thesis unfolding buf_def by blast
    next
      case False
      with c show ?thesis by (auto elim!: go_bind_RetE)
    qed
  qed (use assms eq in \<open>auto split: if_splits\<close>)
qed

lemma moves_node_loop: "node_loop uni a w = Ret w' \<Longrightarrow> moves w w'"
proof (induction "length (recvBuf (heap w a))" arbitrary: w rule: less_induct)
  case less
  from node_loop_Ret [OF less.prems] consider "w' = w" | "w' = set_recvBuf a [] w"
    | v c where "node_asyncSend a (unsupported c) w = Ret v" "w' = set_recvBuf a [] v"
    | (more) v d n where "onSetProEvent uni a d w = Ret v \<or> node_asyncSend a packDataTickOk w = Ret v"
        "4 \<le> n" "6 \<le> length (recvBuf (heap w a))"
        "node_loop uni a (set_recvBuf a (drop n (recvBuf (heap v a))) v) = Ret w'"
    by blast
  then show ?case
  proof cases
    case more
    from more(1) have v: "moves w v" "recvBuf (heap v a) = recvBuf (heap w a)"
      by (auto intro: moves_onSetProEvent moves_asyncSend simp: recvBuf_onSetProEvent recvBuf_node_asyncSend)
    with more(2,3) have "length (recvBuf (heap (set_recvBuf a (drop n (recvBuf (heap v a))) v) a)) <
        length (recvBuf (heap w a))"
      by simp
    from less.hyps [OF this more(4)] show ?thesis
      by (rule moves_trans) (rule moves_trans [OF moves_set_recvBuf v(1)])
  qed (auto intro: moves.refl moves_set_recvBuf moves_trans [OF moves_set_recvBuf moves_asyncSend])
qed

lemma moves_onMessage: "node_onMessage uni a d w = Ret w' \<Longrightarrow> moves w w'"
  unfolding node_onMessage_def by (rule moves_trans [OF moves_node_loop moves_set_recvBuf])

lemma moves_sender:
  assumes "asyncSendService_turn err a w = Ret (w', go)"
  shows "moves w w'"
proof -
  have pop: "quiet w (upd_node a (\<lambda>n. n\<lparr>sendQueue := q, conn_writes := conn_writes n @ [m]\<rparr>) w)"
    if "sendQueue (heap w a) = m # q" for m q
    using that by (auto simp: quiet_def node_wf_def)
  have fail: "quiet v (upd_node a (\<lambda>n. n\<lparr>sendFailureTimes := sendFailureTimes n + 1\<rparr>) v)" for v :: "'a svc_scheme"
    by (intro quiet_upd_node) simp_all
  show ?thesis
    using assms
    by (auto simp: asyncSendService_turn_def Let_def split: if_splits list.splits elim!: go_bind_RetE
        intro: moves.refl moves_quiet pop moves.close [OF moves.quiet [OF moves_quiet [OF pop] fail]])
qed

lemma moves_range:
  assumes "\<And>x w w'. f x w = Ret w' \<Longrightarrow> moves w w'" and "range_from sl f i k w = Ret w'"
  shows "moves w w'"
  using assms(2)
  by (rule range_from_keeps [where P = "moves w" and f = f, rotated 2]) (blast intro: moves.refl moves_trans assms(1))+

lemma moves_sendAll: "groups_sendAll m table d w = Ret w' \<Longrightarrow> moves w w'"
  unfolding groups_sendAll_def range_do_def
  by (erule moves_range [rotated]) (auto split: if_splits intro: moves_asyncSend moves.refl)

lemma moves_groups_asyncSend: "groups_asyncSend d w = Ret w' \<Longrightarrow> moves w w'"
  unfolding groups_asyncSend_def range_do_def by (erule moves_range [rotated]) (rule moves_asyncSend)

lemma moves_range_close: "range_do g node_close w = Ret w' \<Longrightarrow> moves w w'"
  unfolding range_do_def by (erule moves_range [rotated]) (rule moves_close)

section \<open>Invariants of the clients\<close>

definition live :: "'a svc_scheme \<Rightarrow> nat set" where
  "live w = {a. online (heap w a)}"

text \<open>Clients online are allocated and well formed, and the group lists clients online, none
  twice.\<close>

definition clients_ok :: "'a svc_scheme \<Rightarrow> bool" where
  "clients_ok w \<longleftrightarrow>
     heap_wf w \<and> live w \<subseteq> {1..<fresh w} \<and> distinct (vis (g w)) \<and> set (vis (g w)) \<subseteq> live w"

lemma finite_live: "clients_ok w \<Longrightarrow> finite (live w)"
  unfolding clients_ok_def by (meson finite_atLeastLessThan finite_subset)

lemma live_quiet [simp]: "quiet w w' \<Longrightarrow> live w' = live w"
  by (simp add: quiet_def live_def)

lemma clients_ok_quiet: "quiet w w' \<Longrightarrow> clients_ok w \<Longrightarrow> clients_ok w'"
proof -
  assume q: "quiet w w'" and ok: "clients_ok w"
  from q have "heap_wf w \<Longrightarrow> heap_wf w'" by (simp add: quiet_def heap_wf_def)
  moreover have "g w' = g w" "fresh w' = fresh w" using q by (simp_all add: quiet_def)
  ultimately show "clients_ok w'" using ok live_quiet [OF q] by (simp add: clients_ok_def)
qed

lemma close_effect:
  assumes "clients_ok w" and "node_close a w = Ret w'"
  shows "live w' = live w - {a}" and "clients_ok w'" and "vis (g w') = remove1 a (vis (g w))"
    and "connects w' = connects w - (if a \<in> live w then of_nat (length (onRemove w)) else 0)"
    and "fresh w' = fresh w" and "onRemove w' = onRemove w" and "svc.more w' = svc.more w"
proof -
  have "live w' = live w - {a} \<and> clients_ok w' \<and> vis (g w') = remove1 a (vis (g w)) \<and>
    connects w' = connects w - (if a \<in> live w then of_nat (length (onRemove w)) else 0) \<and>
    fresh w' = fresh w \<and> onRemove w' = onRemove w \<and> svc.more w' = svc.more w"
  proof (cases "a \<in> live w")
    case False
    then have "w' = w" using assms(2) by (simp add: live_def)
    moreover have "a \<notin> set (vis (g w))" using False assms(1) by (auto simp: clients_ok_def)
    ultimately show ?thesis using False assms(1) by (simp add: remove1_idem)
  next
    case True
    then have on: "online (heap w a)" by (simp add: live_def)
    moreover from on assms(1) have "node_wf (heap w a)" by (simp add: clients_ok_def heap_wf_def)
    ultimately have w': "w' = (mark_closed a w)\<lparr>g := gs_remove a (g w),
       connects := connects w - of_nat (length (onRemove w))\<rparr>"
      using assms(2) node_close_online [of w a] by simp
    then have l: "live w' = live w - {a}" using on by (auto simp: live_def)
    have "heap_wf w'" using assms(1) on by (auto simp: w' clients_ok_def heap_wf_def)
    then have "clients_ok w'"
      using assms(1) l by (auto simp: clients_ok_def w' dest: notin_set_remove1)
    with l True show ?thesis by (simp add: w')
  qed
  then show "live w' = live w - {a}" and "clients_ok w'" and "vis (g w') = remove1 a (vis (g w))"
    and "connects w' = connects w - (if a \<in> live w then of_nat (length (onRemove w)) else 0)"
    and "fresh w' = fresh w" and "onRemove w' = onRemove w" and "svc.more w' = svc.more w"
    by blast+
qed

text \<open>What moves keep: the invariant, the difference of counter and clients when the counter
  is maintained, and completeness of the group's list.\<close>

lemma moves_keep:
  assumes "moves w w'" and "clients_ok w"
  shows "clients_ok w' \<and> live w' \<subseteq> live w \<and> fresh w' = fresh w \<and> onRemove w' = onRemove w \<and>
    svc.more w' = svc.more w \<and>
    (set (vis (g w)) = live w \<longrightarrow> set (vis (g w')) = live w') \<and>
    (length (onRemove w) = 1 \<longrightarrow>
       connects w' - of_nat (card (live w')) = connects w - of_nat (card (live w)))"
  using assms
proof (induction rule: moves.induct)
  case (refl w)
  then show ?case by simp
next
  case (quiet w w' w'')
  then show ?case using clients_ok_quiet [of w' w''] by (simp add: quiet_def live_def)
next
  case (close w w' a w'')
  then have ok: "clients_ok w'" by blast
  note eff = close_effect [OF ok close.hyps(2)]
  have "card (live w'' ) = card (live w') - (if a \<in> live w' then 1 else 0)"
    using eff(1) finite_live [OF ok] by simp
  moreover have "a \<in> live w' \<Longrightarrow> card (live w') > 0" using finite_live [OF ok] by (auto simp: card_gt_0_iff)
  ultimately have "length (onRemove w') = 1 \<Longrightarrow>
      connects w'' - of_nat (card (live w'')) = connects w' - of_nat (card (live w'))"
    using eff(4) by (auto simp: of_nat_diff)
  moreover have "set (vis (g w')) = live w' \<Longrightarrow> set (vis (g w'')) = live w''"
    using eff(1,3) ok by (simp add: clients_ok_def)
  ultimately show ?case using close.IH close.prems eff by auto
qed

section \<open>The running server\<close>

text \<open>The steps of the goroutines of a server that is not being closed: the accept loop (one
  callback per step), a client's reads, its failing read, its sender, an event, a raw message,
  a heartbeat. A step is an operation that returns; the others are reported by the theorems on
  panics.\<close>

inductive serving :: "(string \<Rightarrow> string) \<Rightarrow> matcher \<Rightarrow> growth \<Rightarrow> 'c tcp_service \<Rightarrow> 'c tcp_service \<Rightarrow> bool"
  for uni m grow where
  accept: "t_accepting t = [] \<Longrightarrow> accept_turn d err t = (t', go) \<Longrightarrow> serving uni m grow t t'"
| callback: "t_accepting t = f # fs \<Longrightarrow> serving uni m grow t (run_onConnect grow f (t\<lparr>t_accepting := fs\<rparr>))"
| "read": "node_onMessage uni a d t = Ret t' \<Longrightarrow> serving uni m grow t t'"
| disconnect: "node_close a t = Ret t' \<Longrightarrow> serving uni m grow t t'"
| sender: "asyncSendService_turn err a t = Ret (t', go) \<Longrightarrow> serving uni m grow t t'"
| event: "SendAll m table data t = Ret (t', b) \<Longrightarrow> serving uni m grow t t'"
| raw: "SendRaw msg t = Ret (t', b) \<Longrightarrow> serving uni m grow t t'"
| heartbeat: "tcp_keepalive d t = Ret (t', go) \<Longrightarrow> serving uni m grow t t'"
| start: "serving uni m grow t (tcp_listen err (tcp_Start t))"

inductive tcp_step :: "(string \<Rightarrow> string) \<Rightarrow> matcher \<Rightarrow> growth \<Rightarrow> 'c api \<Rightarrow> 'c tcp_service \<Rightarrow> 'c tcp_service \<Rightarrow> bool"
  for uni m grow api where
  serve: "serving uni m grow t t' \<Longrightarrow> tcp_step uni m grow api t t'"
| shut: "tcp_Close api t = Ret t' \<Longrightarrow> tcp_step uni m grow api t t'"

text \<open>The callbacks are those the constructor installed, and the clients are in order; with
  Consul the counter trails the clients by a connection whose second callback is due.\<close>

definition due :: "'c tcp_service \<Rightarrow> 64 word" where
  "due t = (if t_accepting t = [SvcNewConnect] then 1 else 0)"

definition wired :: "'c tcp_service \<Rightarrow> bool" where
  "wired t \<longleftrightarrow>
     t_sendAll t = [GroupsSendAll] \<and> t_sendRaw t = [GroupsAsyncSend] \<and> t_onKeepalive t = [GroupsAsyncSend] \<and>
     has_flag (t_status t) serviceEnable \<and>
     (if t_service t = None
      then t_onConnect t = [GroupsOnConnect] \<and> onRemove t = [] \<and> t_onClose t = [GroupsClose] \<and>
           t_accepting t \<in> {[], [GroupsOnConnect]}
      else t_onConnect t = [GroupsOnConnect, SvcNewConnect] \<and> onRemove t = [SvcDisconnect] \<and>
           t_onClose t = [GroupsClose, SvcClose] \<and>
           t_accepting t \<in> {[], [GroupsOnConnect, SvcNewConnect], [SvcNewConnect]} \<and>
           connects t + due t = of_nat (card (live t)))"

definition tcp_inv :: "'c tcp_service \<Rightarrow> bool" where
  "tcp_inv t \<longleftrightarrow> clients_ok t \<and> 0 < fresh t \<and> wired t"

lemma more_eq:
  assumes "svc.more w' = svc.more w"
  shows "t_sendAll w' = t_sendAll w" "t_sendRaw w' = t_sendRaw w" "t_onKeepalive w' = t_onKeepalive w"
    "t_status w' = t_status w" "t_service w' = t_service w" "t_onConnect w' = t_onConnect w"
    "t_onClose w' = t_onClose w" "t_accepting w' = t_accepting w" "t_listener w' = t_listener w"
  using assms by (cases w; cases w'; simp)+

lemma inv_moves:
  assumes "moves t t'" and "tcp_inv t"
  shows "tcp_inv t'"
proof -
  note k = moves_keep [OF assms(1)]
  have ok: "clients_ok t" using assms(2) by (simp add: tcp_inv_def)
  from k [OF ok] have more: "svc.more t' = svc.more t" by blast
  have "connects t' + due t' = of_nat (card (live t'))"
    if "connects t + due t = of_nat (card (live t))" "onRemove t = [SvcDisconnect]"
  proof -
    have "connects t' - of_nat (card (live t')) = connects t - of_nat (card (live t))"
      using k [OF ok] that(2) by simp
    then have "connects t' = connects t - of_nat (card (live t)) + of_nat (card (live t'))"
      by (simp only: diff_eq_eq)
    moreover have "connects t = of_nat (card (live t)) - due t" using that(1) by (simp only: eq_diff_eq)
    moreover have "due t' = due t" using more_eq(8) [OF more] by (simp add: due_def)
    ultimately show ?thesis by simp
  qed
  with k [OF ok] more_eq [OF more] assms(2) show ?thesis
    unfolding tcp_inv_def wired_def by auto
qed

lemma moves_each1: "each f [x] w = Ret w' \<Longrightarrow> (f x w = Ret w' \<Longrightarrow> moves w w') \<Longrightarrow> moves w w'"
  by (auto elim!: go_bind_RetE)

lemma moves_events:
  assumes "wired t"
  shows "SendAll m table data t = Ret (t', b) \<Longrightarrow> moves t t'"
    and "SendRaw msg t = Ret (t', b) \<Longrightarrow> moves t t'" and "tcp_keepalive d t = Ret (t', go) \<Longrightarrow> moves t t'"
  using assms
  by (auto simp: SendAll_def SendRaw_def tcp_keepalive_def wired_def Let_def
      elim!: go_bind_RetE intro: moves_sendAll moves_groups_asyncSend moves.refl split: if_split_asm)

lemma onConnect_effect:
  assumes "clients_ok w" and "0 < fresh w" and "w' = groups_onConnect grow w"
  shows "clients_ok w'" and "live w' = insert (fresh w) (live w)" and "fresh w \<notin> live w"
    and "vis (g w') = vis (g w) @ [fresh w]" and "card (live w') = card (live w) + 1"
    and "connects w' = connects w" and "onRemove w' = onRemove w" and "svc.more w' = svc.more w"
    and "fresh w' = fresh w + 1"
proof -
  show simps: "vis (g w') = vis (g w) @ [fresh w]" "connects w' = connects w" "onRemove w' = onRemove w"
    "svc.more w' = svc.more w" "fresh w' = fresh w + 1"
    by (simp_all add: assms(3) groups_onConnect_def)
  show l: "live w' = insert (fresh w) (live w)" by (auto simp: assms(3) groups_onConnect_def live_def)
  show n: "fresh w \<notin> live w" using assms(1) by (auto simp: clients_ok_def)
  then show "card (live w') = card (live w) + 1" using l finite_live [OF assms(1)] by simp
  have "heap_wf w'" using assms(1) by (simp add: clients_ok_def heap_wf_def assms(3) groups_onConnect_def)
  then show "clients_ok w'"
    using assms(1,2) l n simps by (auto simp: clients_ok_def)
qed

lemma inv_callback:
  assumes "tcp_inv t" and "t_accepting t = f # fs"
  shows "tcp_inv (run_onConnect grow f (t\<lparr>t_accepting := fs\<rparr>))"
proof -
  define u where "u = t\<lparr>t_accepting := fs\<rparr>"
  have u: "clients_ok u" "0 < fresh u" "live u = live t" "connects u = connects t" "onRemove u = onRemove t"
    using assms(1) by (simp_all add: u_def tcp_inv_def clients_ok_def heap_wf_def live_def)
  show ?thesis
  proof (cases f)
    case GroupsOnConnect
    define t' where "t' = groups_onConnect grow u"
    note e = onConnect_effect [OF u(1,2) t'_def]
    have "wired t'"
      using assms e(5-7) u more_eq [OF e(8)] GroupsOnConnect
      by (auto simp: tcp_inv_def wired_def due_def u_def split: if_splits)
    with e show ?thesis by (simp add: GroupsOnConnect tcp_inv_def t'_def u_def)
  next
    case SvcNewConnect
    have "svc_newConnect u = u\<lparr>connects := connects t + 1\<rparr>" by (simp add: svc_newConnect_def u(4))
    then show ?thesis
      using assms u(1,2) SvcNewConnect
      by (auto simp: tcp_inv_def wired_def due_def u_def clients_ok_def heap_wf_def live_def split: if_splits)
  qed
qed

lemma inv_accept: "tcp_inv t \<Longrightarrow> t_accepting t = [] \<Longrightarrow> accept_turn d err t = (t', go) \<Longrightarrow> tcp_inv t'"
  by (auto simp: accept_turn_def tcp_inv_def wired_def due_def clients_ok_def heap_wf_def live_def
      split: if_splits)

lemma inv_start: "tcp_inv t \<Longrightarrow> tcp_inv (tcp_listen err (tcp_Start t))"
  by (auto simp: tcp_listen_def tcp_Start_def tcp_inv_def wired_def due_def clients_ok_def heap_wf_def
      live_def service_flags flag_simps split: if_splits)

text \<open>A step of a serving server is a sequence of moves, or a step of the accept loop.\<close>

lemma serving_cases:
  assumes "serving uni m grow t t'" and "tcp_inv t"
  obtains "moves t t'" | d err go where "t_accepting t = []" "accept_turn d err t = (t', go)"
    | f fs where "t_accepting t = f # fs" "t' = run_onConnect grow f (t\<lparr>t_accepting := fs\<rparr>)"
    | err where "t' = tcp_listen err (tcp_Start t)"
proof -
  have w: "wired t" using assms(2) by (simp add: tcp_inv_def)
  show thesis
    using assms(1)
    by cases (rule that; use moves_events [OF w] in \<open>auto intro: moves_onMessage moves_close moves_sender\<close>)+
qed

lemma inv_serving:
  assumes "serving uni m grow t t'" and "tcp_inv t"
  shows "tcp_inv t'"
  using assms by (rule serving_cases) (use assms(2) in \<open>auto intro: inv_moves inv_accept inv_callback inv_start\<close>)

text \<open>Closing.\<close>

lemma inv_groups_close:
  assumes "groups_close t = Ret t'" and "tcp_inv t"
  shows "tcp_inv t'"
proof -
  obtain w where w: "range_do g node_close t = Ret w" "t' = w\<lparr>g := gs_make\<rparr>"
    using assms(1) by (auto simp: groups_close_def elim: go_bind_RetE)
  then have "tcp_inv w" using assms(2) by (blast intro: inv_moves moves_range_close)
  then show ?thesis
    by (auto simp: w(2) tcp_inv_def wired_def due_def clients_ok_def heap_wf_def live_def gs_make_def)
qed

lemma inv_close:
  assumes "tcp_Close api t = Ret t'" and "tcp_inv t"
  shows "tcp_inv t'"
proof -
  have cl: "run_onClose api f u = Ret u' \<Longrightarrow> tcp_inv u \<Longrightarrow> tcp_inv u'" for f u u'
    by (auto simp: run_onClose_def split: close_func.splits option.splits intro: inv_groups_close)
      (auto simp: tcp_inv_def wired_def due_def clients_ok_def heap_wf_def live_def)
  have all: "each (run_onClose api) fs u = Ret u' \<Longrightarrow> tcp_inv u \<Longrightarrow> tcp_inv u'" for fs u u'
    using each_invariant [of fs "run_onClose api" tcp_inv u u'] cl by blast
  have "tcp_inv (t\<lparr>t_listener := l\<rparr>)" for l
    using assms(2) by (auto simp: tcp_inv_def wired_def due_def clients_ok_def heap_wf_def live_def)
  moreover have "tcp_inv u \<Longrightarrow> tcp_inv (u\<lparr>t_status := t_status u OR serviceClosed\<rparr>)" for u :: "'a tcp_service"
    by (auto simp: tcp_inv_def wired_def due_def clients_ok_def heap_wf_def live_def service_flags flag_simps)
  ultimately show ?thesis
    using assms all by (auto simp: tcp_Close_def Let_def split: if_splits elim!: go_bind_RetE)
qed

text \<open>Closing a server comes to its end.\<close>

lemma tcp_Close_returns:
  assumes "tcp_inv t"
  shows "\<exists>t'. tcp_Close api t = Ret t' \<and> has_flag (t_status t') serviceClosed"
proof (cases "has_flag (t_status t) serviceClosed")
  case True
  then show ?thesis by (simp add: tcp_Close_def)
next
  case False
  define t1 where "t1 = (if t_listener t \<noteq> None then t\<lparr>t_listener := Some False\<rparr> else t)"
  have t1: "heap_wf t1" "t_onClose t1 = t_onClose t" "t_service t1 = t_service t"
    using assms by (simp_all add: t1_def tcp_inv_def clients_ok_def heap_wf_def)
  obtain w where "range_do g node_close t1 = Ret w" using grp.close_all_returns [OF t1(1)] by blast
  then have w: "groups_close t1 = Ret (w\<lparr>g := gs_make\<rparr>)" by (simp add: groups_close_def)
  have "svc.more w = svc.more t1"
    using moves_keep [OF moves_range_close [OF \<open>range_do g node_close t1 = Ret w\<close>]] assms
    by (auto simp: t1_def tcp_inv_def clients_ok_def heap_wf_def live_def)
  then have srv: "t_service (w\<lparr>g := gs_make\<rparr>) = t_service t" using more_eq(5) [of w t1] t1(3) by simp
  have cl: "t_onClose t = (if t_service t = None then [GroupsClose] else [GroupsClose, SvcClose])"
    using assms by (auto simp: tcp_inv_def wired_def)
  obtain t2 where "each (run_onClose api) (t_onClose t1) t1 = Ret t2"
    using w srv t1(2) cl by (cases "t_service t") (auto simp: run_onClose_def)
  then show ?thesis
    using False unfolding tcp_Close_def t1_def [symmetric]
    by (auto simp: Let_def service_flags flag_simps)
qed

lemma inv_new:
  assumes "NewTCPService api hostname listen en addr c = Ret t"
  shows "tcp_inv t \<and> live t = {} \<and> vis (g t) = []"
  using assms
  by (auto simp: NewTCPService_def newTCPService_def tcp_inv_def wired_def due_def clients_ok_def heap_wf_def
      live_def no_node_def gs_make_def service_flags tcpNodeOnline_def flag_simps Let_def
      split: if_splits prod.splits elim!: go_bind_RetE)

lemma inv_reachable:
  assumes "(tcp_step uni m grow api)\<^sup>*\<^sup>* t0 t" and "tcp_inv t0"
  shows "tcp_inv t"
  using assms
proof (induction rule: rtranclp_induct)
  case (step u v)
  from step.hyps(2) step.IH [OF step.prems] show ?case
    by cases (auto intro: inv_serving inv_close)
qed

section \<open>Properties of the server\<close>

text \<open>
  C9. In every state the server reaches, closed or not, its clients are consistent: a client
  online has an open connection, an open queue within its bound and the group's close callback;
  and the group lists only clients online, none twice. Operations count as atomic here.
\<close>

theorem server_clients_consistent:
  assumes "NewTCPService api hostname listen en addr c = Ret t0" and "(tcp_step uni m grow api)\<^sup>*\<^sup>* t0 t"
  shows "(\<forall>a. online (heap t a) \<longrightarrow> node_wf (heap t a) \<and> 0 < a \<and> a < fresh t) \<and> distinct (vis (g t)) \<and>
    (\<forall>a \<in> set (vis (g t)). online (heap t a))"
  using inv_reachable [OF assms(2)] inv_new [OF assms(1)]
  by (auto simp: tcp_inv_def clients_ok_def heap_wf_def live_def)

text \<open>The state after a first client has connected, and its steps.\<close>

definition demo_new :: "consul tcp_service" where
  "demo_new = newTCPService ''10.0.0.1:9990'' no_consul"

definition demo_one :: "consul tcp_service" where
  "demo_one = groups_onConnect (\<lambda>_ _. 0) demo_new"

lemma demo_new: "NewTCPService consul_api ''h'' ''10.0.0.1:9990'' False [] no_consul = Ret demo_new"
  by (simp add: NewTCPService_def demo_new_def)

lemma demo_serving: "(serving id m (\<lambda>_ _. 0))\<^sup>*\<^sup>* demo_new demo_one"
proof -
  let ?t = "demo_new\<lparr>t_accepting := [GroupsOnConnect]\<rparr>"
  have "accept_turn False False demo_new = (?t, True)"
    by (simp add: accept_turn_def demo_new_def newTCPService_def service_flags flag_simps)
  then have "serving id m (\<lambda>_ _. 0) demo_new ?t"
    by (rule serving.accept [rotated]) (simp add: demo_new_def newTCPService_def)
  moreover have "serving id m (\<lambda>_ _. 0) ?t (run_onConnect (\<lambda>_ _. 0) GroupsOnConnect (?t\<lparr>t_accepting := []\<rparr>))"
    by (rule serving.callback) simp
  moreover have "?t\<lparr>t_accepting := []\<rparr> = demo_new" by (simp add: demo_new_def newTCPService_def)
  ultimately show ?thesis by (simp add: demo_one_def)
qed

lemma demo_reachable: "(tcp_step id m (\<lambda>_ _. 0) consul_api)\<^sup>*\<^sup>* demo_new demo_one"
  using demo_serving by (rule rtranclp_mono [THEN predicate2D, rotated]) (blast intro: tcp_step.serve)

lemma demo_one_simps [simp]:
  "heap demo_one = (\<lambda>a. if a = 1 then newNode [GroupsRemove] else no_node)" "vis (g demo_one) = [1]"
  "fresh demo_one = 2"
  by (auto simp: demo_one_def groups_onConnect_def demo_new_def newTCPService_def gs_make_def)

lemma online_no_node [simp]: "\<not> online no_node"
  by (simp add: no_node_def tcpNodeOnline_def flag_simps)

theorem server_clients_consistent_witness:
  "online (heap demo_one 1) \<and> node_wf (heap demo_one 1) \<and> 1 < fresh demo_one \<and> distinct (vis (g demo_one))"
proof -
  have "online (heap demo_one 1)" by simp
  with server_clients_consistent [OF demo_new demo_reachable] show ?thesis by blast
qed


lemma demo_registered:
  "\<exists>t0. NewTCPService consul_api ''h'' ''10.0.0.1:9990'' True ''c:8500'' no_consul = Ret t0 \<and> t_service t0 \<noteq> None \<and>
    t_accepting t0 = []"
proof -
  have "split_at (CHR '':'') (''10.0.0.1'' @ CHR '':'' # ''9990'') = [''10.0.0.1'', ''9990'']"
    by (rule split_at_address) simp_all
  then show ?thesis
    by (simp add: NewTCPService_def NewSubService_def newTCPService_def Let_def split: prod.split)
qed


lemma complete_serving:
  assumes "serving uni m grow t t'" and "tcp_inv t" and "set (vis (g t)) = live t"
  shows "set (vis (g t')) = live t'"
  using assms(1,2)
proof (rule serving_cases)
  assume "moves t t'"
  then show ?thesis using moves_keep [of t t'] assms(2,3) by (auto simp: tcp_inv_def)
next
  fix f fs assume f: "t_accepting t = f # fs" "t' = run_onConnect grow f (t\<lparr>t_accepting := fs\<rparr>)"
  show ?thesis using assms(3)
    by (cases f) (auto simp: f groups_onConnect_def svc_newConnect_def live_def)
qed (use assms(3) in \<open>auto simp: accept_turn_def tcp_listen_def tcp_Start_def live_def split: if_splits\<close>)

lemma complete_reachable:
  assumes "(serving uni m grow)\<^sup>*\<^sup>* t0 t" and "tcp_inv t0" and "set (vis (g t0)) = live t0"
  shows "tcp_inv t \<and> set (vis (g t)) = live t"
  using assms
proof (induction rule: rtranclp_induct)
  case (step u v)
  then show ?case using complete_serving [OF step.hyps(2)] inv_serving [OF step.hyps(2)] by blast
qed simp

lemma each_asyncSend:
  assumes "distinct as" and "\<forall>a \<in> set as. online (heap w a) \<and> \<not> queue_closed (heap w a) \<and>
      length (sendQueue (heap w a)) < tcpMaxSendQueue"
  shows "each (\<lambda>a w. if sel (topics (heap w a)) then node_asyncSend a d w else Ret w) as w =
    Ret (w\<lparr>heap := \<lambda>b. if b \<in> set as \<and> sel (topics (heap w b))
      then (heap w b)\<lparr>sendQueue := sendQueue (heap w b) @ [d]\<rparr> else heap w b\<rparr>)"
  using assms
proof (induction as arbitrary: w)
  case Nil
  then show ?case by simp
next
  case (Cons a as)
  define w1 where "w1 = (if sel (topics (heap w a))
    then upd_node a (\<lambda>n. n\<lparr>sendQueue := sendQueue n @ [d]\<rparr>) w else w)"
  have "(if sel (topics (heap w a)) then node_asyncSend a d w else Ret w) = Ret w1"
    using Cons.prems by (simp add: node_asyncSend_def w1_def)
  moreover have same: "heap w1 b = heap w b" if "b \<in> set as" for b
    using that Cons.prems(1) by (auto simp: w1_def)
  then have "each (\<lambda>a w. if sel (topics (heap w a)) then node_asyncSend a d w else Ret w) as w1 =
      Ret (w1\<lparr>heap := \<lambda>b. if b \<in> set as \<and> sel (topics (heap w1 b))
        then (heap w1 b)\<lparr>sendQueue := sendQueue (heap w1 b) @ [d]\<rparr> else heap w1 b\<rparr>)"
    using Cons.prems by (intro Cons.IH) simp_all
  moreover have "w1\<lparr>heap := \<lambda>b. if b \<in> set as \<and> sel (topics (heap w1 b))
        then (heap w1 b)\<lparr>sendQueue := sendQueue (heap w1 b) @ [d]\<rparr> else heap w1 b\<rparr> =
      w\<lparr>heap := \<lambda>b. if b \<in> set (a # as) \<and> sel (topics (heap w b))
        then (heap w b)\<lparr>sendQueue := sendQueue (heap w b) @ [d]\<rparr> else heap w b\<rparr>"
    using Cons.prems(1) by (auto simp: w1_def upd_node_def fun_eq_iff)
  ultimately show ?case by simp
qed

lemma groups_sendAll_eq:
  assumes "clients_ok w" and "\<forall>a \<in> set (vis (g w)). length (sendQueue (heap w a)) < tcpMaxSendQueue"
  shows "groups_sendAll m table d w =
    Ret (w\<lparr>heap := \<lambda>b. if b \<in> set (vis (g w)) \<and> MatchFilters m (topics (heap w b)) table
      then (heap w b)\<lparr>sendQueue := sendQueue (heap w b) @ [d]\<rparr> else heap w b\<rparr>)"
proof -
  have g: "(if MatchFilters m (topics (heap v x)) table then node_asyncSend x d v else Ret v) = Ret v' \<Longrightarrow> g v' = g v"
    for x and v v' :: "'a svc_scheme"
    by (auto simp: node_asyncSend_def split: if_splits)
  have "\<forall>a \<in> set (vis (g w)). online (heap w a) \<and> \<not> queue_closed (heap w a)"
    using assms(1) by (auto simp: clients_ok_def heap_wf_def node_wf_def live_def)
  moreover have "groups_sendAll m table d w =
      each (\<lambda>a w. if MatchFilters m (topics (heap w a)) table then node_asyncSend a d w else Ret w) (vis (g w)) w"
    unfolding groups_sendAll_def by (rule range_do_each) (rule g)
  ultimately show ?thesis
    using assms each_asyncSend [of "vis (g w)" w "\<lambda>ts. MatchFilters m ts table" d]
    by (simp add: clients_ok_def)
qed

text \<open>A send to all on a server whose group lists all clients online.\<close>

definition pushed :: "matcher \<Rightarrow> string \<Rightarrow> bytes \<Rightarrow> 'c tcp_service \<Rightarrow> 'c tcp_service" where
  "pushed m table data t =
     t\<lparr>heap := \<lambda>a. if online (heap t a) \<and> MatchFilters m (topics (heap t a)) table
       then (heap t a)\<lparr>sendQueue := sendQueue (heap t a) @ [Pack CMD_EVENT data]\<rparr> else heap t a\<rparr>"

definition listed :: "nat \<Rightarrow> 'c tcp_service \<Rightarrow> bool" where
  "listed n t \<longleftrightarrow> tcp_inv t \<and> set (vis (g t)) = live t \<and>
     (\<forall>a. online (heap t a) \<longrightarrow> length (sendQueue (heap t a)) + n \<le> tcpMaxSendQueue)"

lemma SendAll_pushed:
  assumes "listed (Suc n) t"
  shows "SendAll m table data t = Ret (pushed m table data t, True)"
proof -
  have t: "tcp_inv t" "set (vis (g t)) = live t" using assms by (simp_all add: listed_def)
  then have ok: "clients_ok t" by (simp add: tcp_inv_def)
  have q: "\<forall>a \<in> set (vis (g t)). length (sendQueue (heap t a)) < tcpMaxSendQueue"
    using assms t(2) by (fastforce simp: live_def listed_def)
  have "\<And>a. a \<in> set (vis (g t)) \<longleftrightarrow> online (heap t a)" using t(2) by (simp add: live_def)
  then show ?thesis
    using t(1) groups_sendAll_eq [OF ok q, of m table "Pack CMD_EVENT data"]
    by (simp add: SendAll_def Let_def tcp_inv_def wired_def pushed_def)
qed



section \<open>The send that is not atomic\<close>

text \<open>\<open>asyncSend\<close> tests the status under the node's lock, gives the lock back and only then
  sends: the two halves, and the operation as their composition.\<close>

definition asyncSend_check :: "nat \<Rightarrow> 'a svc_scheme \<Rightarrow> bool" where
  "asyncSend_check a w \<longleftrightarrow> online (heap w a)"

definition asyncSend_push :: "nat \<Rightarrow> bytes \<Rightarrow> 'a svc_scheme \<Rightarrow> 'a svc_scheme go" where
  "asyncSend_push a data w =
     (if tcpMaxSendQueue \<le> length (sendQueue (heap w a)) then Block
      else if queue_closed (heap w a) then Panic SendOnClosedChannel
      else Ret (upd_node a (\<lambda>n. n\<lparr>sendQueue := sendQueue n @ [data]\<rparr>) w))"

lemma node_asyncSend_split:
  "node_asyncSend a d w = (if asyncSend_check a w then asyncSend_push a d w else Ret w)"
  by (simp add: node_asyncSend_def asyncSend_check_def asyncSend_push_def)

text \<open>
  C37. A client that is closed between the two halves of \<open>asyncSend\<close> takes the process down:
  from every reachable state with a client online and room in its queue, the test succeeds, the
  close succeeds, and the send that follows panics on the closed queue. (The lock that would
  prevent it is released before the send.)
\<close>

theorem asyncSend_close_race:
  assumes "NewTCPService api hostname listen en addr c = Ret t0" and "(tcp_step uni m grow api)\<^sup>*\<^sup>* t0 t"
    and "online (heap t a)" and "length (sendQueue (heap t a)) < tcpMaxSendQueue"
  shows "\<exists>t'. asyncSend_check a t \<and> node_close a t = Ret t' \<and> asyncSend_push a d t' = Panic SendOnClosedChannel"
proof -
  have "tcp_inv t" using inv_reachable [OF assms(2)] inv_new [OF assms(1)] by blast
  then have "node_wf (heap t a)" using assms(3) by (simp add: tcp_inv_def clients_ok_def heap_wf_def)
  note cl = node_close_online [OF this assms(3)]
  show ?thesis
    using assms(3,4) unfolding cl
    by (simp add: asyncSend_check_def asyncSend_push_def mark_closed_def)
qed

theorem asyncSend_close_race_witness:
  "\<exists>t'. asyncSend_check 1 demo_one \<and> node_close 1 demo_one = Ret t' \<and>
    asyncSend_push 1 [0] t' = Panic SendOnClosedChannel"
proof (rule asyncSend_close_race [OF demo_new demo_reachable])
  show "length (sendQueue (heap demo_one 1)) < tcpMaxSendQueue"
    by (simp add: newNode_def tcpMaxSendQueue_def)
qed simp

end
