(* ===== verification/Pos_Cache.thy ===== *)
theory Pos_Cache
  imports Go_Prelude
begin

text \<open>
  The saved replication position: \<open>packPos\<close> and \<open>unpackPos\<close> of
  \<^verbatim>\<open>src/binlog/binlog_util.go\<close> and the cache file they are written to and read from
  (\<^verbatim>\<open>src/binlog/binlog_handler.go\<close>). The file is a byte string; a write at offset 0 keeps
  what an older, longer record left behind it, and a read takes at most
  \<open>bytes.MinRead\<close> = 512 bytes into a zeroed buffer. The record carries its own length, which
  is what the round trip rests on.
\<close>

section \<open>Packing\<close>

text \<open>\<open>byte(x >> (8 * i))\<close> of an \<open>int64\<close>: the shift is arithmetic.\<close>

definition byte_at :: "int64 \<Rightarrow> nat \<Rightarrow> byte" where
  "byte_at x i = ucast (signed_drop_bit (8 * i) x)"

definition packPos :: "string \<Rightarrow> int64 \<Rightarrow> int64 \<Rightarrow> bytes" where
  "packPos binFile pos eventIndex =
     (let res = bytes_of binFile; l = 16 + length res
      in [word_of_nat l, word_of_nat (drop_bit 8 l),
          byte_at pos 0, byte_at pos 1, byte_at pos 2, byte_at pos 3,
          byte_at pos 4, byte_at pos 5, byte_at pos 6, byte_at pos 7,
          byte_at eventIndex 0, byte_at eventIndex 1, byte_at eventIndex 2, byte_at eventIndex 3,
          byte_at eventIndex 4, byte_at eventIndex 5, byte_at eventIndex 6, byte_at eventIndex 7] @ res)"

text \<open>\<open>int64(b[0]) | int64(b[1])<<8 | ...\<close>, the first byte shifted by \<open>k\<close>.\<close>

fun or_bytes :: "nat \<Rightarrow> bytes \<Rightarrow> int64" where
  "or_bytes k [] = 0"
| "or_bytes k (b # bs) = push_bit k (ucast b) OR or_bytes (k + 8) bs"

definition unpackPos :: "bytes \<Rightarrow> (string \<times> int64 \<times> int64) go" where
  "unpackPos data =
     (if length data < 18 then Panic IndexOutOfRange
      else let dl = get16 (data ! 0) (data ! 1);
               pos = or_bytes 0 (take 8 (drop 2 data));
               eventIndex = or_bytes 0 (take 8 (drop 10 data))
           in if dl + 2 < 18 \<or> length data - 2 < dl then Ret ([], 0, 0)
              else go_bind (sub data 18 (dl + 2)) (\<lambda>f. Ret (string_of f, pos, eventIndex)))"

lemma or_bytes_eq: "or_bytes k bs = push_bit k (word_of_nat (le_nat bs))"
proof (induction bs arbitrary: k)
  case Nil
  then show ?case by simp
next
  case (Cons b bs)
  have "unat b < 2 ^ 8" by simp
  then have "le_nat (b # bs) = unat b OR push_bit 8 (le_nat bs)"
    by (subst or_push_bit_eq_add) simp_all
  then have "(word_of_nat (le_nat (b # bs)) :: int64) = ucast b OR push_bit 8 (word_of_nat (le_nat bs))"
    by (simp only: of_nat_or_eq push_bit_of_nat of_nat_unat)
  then show ?case
    by (simp only: or_bytes.simps Cons push_bit_or push_bit_push_bit)
qed

lemma byte_at_le_bytes: "map (byte_at x) [0..<8] = le_bytes 8 (unat x)"
proof -
  have "byte_at x i = word_of_nat (drop_bit (8 * i) (unat x))" if "i < 8" for i
  proof (rule bit_word_eqI)
    fix n assume "n < LENGTH(8)"
    then have "n + 8 * i < 64" using that by simp
    then show "bit (byte_at x i) n \<longleftrightarrow> bit (word_of_nat (drop_bit (8 * i) (unat x)) :: byte) n"
      by (auto simp: byte_at_def bit_simps min_def ac_simps)
  qed
  then show ?thesis by (simp add: le_bytes_shifts)
qed

lemma packPos_eq:
  "packPos f p i = le_bytes 2 (16 + length f) @ le_bytes 8 (unat p) @ le_bytes 8 (unat i) @ bytes_of f"
proof -
  have "[0..<8] = [0, 1, 2, 3, 4, 5, 6, 7 :: nat]" by (simp add: upt_rec)
  then show ?thesis
    by (simp only: packPos_def Let_def le_bytes_2 length_bytes_of flip: byte_at_le_bytes) simp
qed

lemma length_packPos [simp]: "length (packPos f p i) = 18 + length f"
  by (simp add: packPos_eq)

lemma word_of_nat_unat_64 [simp]: "(word_of_nat (unat x mod 18446744073709551616) :: int64) = x"
proof -
  have "unat x < 18446744073709551616" using unsigned_less [of x] by simp
  then show ?thesis by simp
qed

text \<open>Unpacking a record that is followed by anything.\<close>

lemma unpackPos_packPos:
  assumes "16 + length f < 2 ^ 16"
  shows "unpackPos (packPos f p i @ rest) = Ret (f, p, i)"
proof -
  let ?d = "packPos f p i @ rest"
  have "get16 (?d ! 0) (?d ! 1) = 16 + length f"
    using get16_take [of 0 ?d] assms by (simp add: packPos_eq)
  moreover have "or_bytes 0 (take 8 (drop 2 ?d)) = p" "or_bytes 0 (take 8 (drop 10 ?d)) = i"
    by (simp_all add: packPos_eq or_bytes_eq)
  moreover have "sub ?d 18 (16 + length f + 2) = Ret (bytes_of f)" by (simp add: packPos_eq)
  ultimately show ?thesis by (simp add: unpackPos_def Let_def)
qed

text \<open>A record that a buffer cuts off.\<close>

lemma unpackPos_truncated:
  assumes "16 + length f < 2 ^ 16" and "18 \<le> n" and "n < 18 + length f"
  shows "unpackPos (take n (packPos f p i)) = Ret ([], 0, 0)"
proof -
  let ?d = "take n (packPos f p i)"
  have len: "length ?d = n" using assms(3) by simp
  have "take 2 (drop 0 ?d) = le_bytes 2 (16 + length f)"
    using assms(2) by (simp add: packPos_eq min_def)
  then have "get16 (?d ! 0) (?d ! 1) = 16 + length f"
    using get16_take [of 0 ?d] len assms by simp
  moreover have "n - 2 < 16 + length f" using assms(2,3) by linarith
  ultimately show ?thesis using len assms(2) by (simp add: unpackPos_def Let_def)
qed


section \<open>The cache file\<close>

definition MinRead :: nat where "MinRead = 512"

text \<open>\<open>WriteAt(r, 0)\<close> on a file with some contents, and a \<open>Read\<close> of the start of the file
  into a fresh buffer of \<open>MinRead\<close> bytes: the number of bytes read and the buffer.\<close>

definition write_at_0 :: "bytes \<Rightarrow> bytes \<Rightarrow> bytes" where
  "write_at_0 r file = r @ drop (length r) file"

definition read_buffer :: "bytes \<Rightarrow> nat \<times> bytes" where
  "read_buffer file =
     (let n = min MinRead (length file) in (n, take n file @ replicate (MinRead - n) 0))"

text \<open>\<open>getBinlogPositionCache\<close> on an open file.\<close>

definition read_cache :: "bytes \<Rightarrow> (string \<times> int64 \<times> int64) go" where
  "read_cache file =
     (let (n, data) = read_buffer file in if n = 0 then Ret ([], 0, 0) else unpackPos data)"

text \<open>Every read of the cache returns: the buffer is never too short.\<close>

lemma read_cache_returns: "\<exists>r. read_cache file = Ret r"
proof -
  have len: "length (snd (read_buffer file)) = 512"
    by (simp add: read_buffer_def Let_def MinRead_def min_def)
  have "\<exists>r. unpackPos d = Ret r" if "length d = 512" for d
  proof -
    have "dl + 2 < 18 \<or> length d - 2 < dl \<or> (\<exists>f. sub d 18 (dl + 2) = Ret f)" for dl
      using that by (auto simp: sub_def)
    then show ?thesis using that by (auto simp: unpackPos_def Let_def)
  qed
  with len show ?thesis by (simp add: read_cache_def case_prod_beta)
qed

lemma read_cache_write:
  assumes "length f \<le> 494"
  shows "read_cache (write_at_0 (packPos f p i) old) = Ret (f, p, i)"
proof -
  let ?file = "write_at_0 (packPos f p i) old"
  define n where "n = min MinRead (length ?file)"
  have "18 + length f \<le> length ?file" by (simp add: write_at_0_def)
  then have n: "18 + length f \<le> n" using assms by (simp add: n_def MinRead_def)
  then have "take n ?file = packPos f p i @ take (n - (18 + length f)) (drop (18 + length f) old)"
    by (simp add: write_at_0_def)
  with n show ?thesis
    using unpackPos_packPos [of f p i] assms by (simp add: read_cache_def read_buffer_def Let_def flip: n_def)
qed

text \<open>
  C23. The saved position survives a restart: what \<open>getBinlogPositionCache\<close> reads is the
  binlog file, the position and the event index last saved, whatever longer or shorter record
  was in the file before, for file names up to 494 bytes.
\<close>

theorem position_cache_roundtrip:
  assumes "length f \<le> 494"
  shows "read_cache (write_at_0 (packPos f p i) old) = Ret (f, p, i)"
  using assms by (rule read_cache_write)

theorem position_cache_roundtrip_witness:
  "read_cache (write_at_0 (packPos ''mysql-bin.000001'' 4 (-1)) (replicate 100 7)) = Ret (''mysql-bin.000001'', 4, -1)"
  by (rule position_cache_roundtrip) simp

text \<open>
  A longer file name does not survive: the read buffer cuts the record off and the
  position is reported as none, so that replication starts over from the master's current
  position.
\<close>

theorem position_cache_long_name_lost:
  assumes "494 < length f" and "16 + length f < 2 ^ 16"
  shows "read_cache (write_at_0 (packPos f p i) old) = Ret ([], 0, 0)"
proof -
  have "take 512 (write_at_0 (packPos f p i) old) = take 512 (packPos f p i)"
    using assms(1) by (simp add: write_at_0_def)
  moreover have "min MinRead (length (write_at_0 (packPos f p i) old)) = 512"
    using assms(1) by (simp add: write_at_0_def MinRead_def)
  ultimately show ?thesis
    using unpackPos_truncated [OF assms(2), of 512 p i] assms(1)
    by (simp add: read_cache_def read_buffer_def Let_def MinRead_def)
qed

theorem position_cache_long_name_lost_witness:
  "read_cache (write_at_0 (packPos (replicate 500 (CHR ''x'')) 4 1) []) = Ret ([], 0, 0)"
  by (rule position_cache_long_name_lost) simp_all

end
