(* ===== verification/Field_Decode.thy ===== *)
theory Field_Decode
  imports Go_Prelude
begin

text \<open>
  \<open>fieldDecode\<close> of \<^verbatim>\<open>src/binlog/binlog_util.go\<close>: the value of a column as the replication
  library delivers it, turned into the value that is published. The library hands out integers
  as signed words of the column's width, enumerations as the index of the value and sets as a
  bit mask. Floating-point values pass through; their type is a parameter.
\<close>

section \<open>Values and columns\<close>

datatype ('f, 'd) edata =
    VString string
  | VBytes bytes
  | VInt "64 word"
  | VInt8 "8 word"
  | VInt16 "16 word"
  | VInt32 "32 word"
  | VInt64 "64 word"
  | VUint "64 word"
  | VUint8 "8 word"
  | VUint16 "16 word"
  | VUint32 "32 word"
  | VUint64 "64 word"
  | VFloat64 'f
  | VFloat32 'd
  | VNil
  | VOther string

record TableColumn =
  col_Name :: string
  RawType :: string
  IsUnsigned :: bool
  EnumValues :: "string list"
  SetValues :: "string list"


section \<open>Decoding\<close>

text \<open>The loop over the values of a set, from index \<open>i\<close>; \<open>1 << i\<close> is 0 from bit 64 on.\<close>

fun set_loop :: "64 word \<Rightarrow> nat \<Rightarrow> string list \<Rightarrow> string \<Rightarrow> string" where
  "set_loop v i [] res = res"
| "set_loop v i (s # ss) res =
     set_loop v (Suc i) ss
       (if v AND push_bit i 1 > 0 then (if res \<noteq> [] then res @ '','' @ s else res @ s) else res)"

text \<open>\<open>string([]byte(column.RawType)[0:3])\<close>; \<open>k\<close> is the spare capacity of the converted
  slice.\<close>

definition raw_prefix :: "nat \<Rightarrow> string \<Rightarrow> string go" where
  "raw_prefix k raw =
     go_bind (gs_slice \<lparr>vis = bytes_of raw, spare = replicate k 0\<rparr> 0 3) (\<lambda>t. Ret (string_of (vis t)))"

definition decode_int64 :: "64 word \<Rightarrow> TableColumn \<Rightarrow> ('f, 'd) edata go" where
  "decode_int64 e column =
     (if length (RawType column) > 4 \<and> take 4 (RawType column) = ''enum'' then
        let i = sint e - 1
        in if 0 \<le> i \<and> nat i < length (EnumValues column) then Ret (VString (EnumValues column ! nat i))
           else Panic IndexOutOfRange
      else if length (RawType column) > 3 \<and> take 3 (RawType column) = ''set'' then
        Ret (VString (set_loop e 0 (SetValues column) []))
      else if IsUnsigned column then Ret (VUint64 e)
      else Ret (VInt64 e))"

definition fieldDecode :: "nat \<Rightarrow> ('f, 'd) edata \<Rightarrow> TableColumn \<Rightarrow> ('f, 'd) edata go" where
  "fieldDecode k edata column =
     (case edata of
        VInt8 e \<Rightarrow>
          let r = scast e in Ret (VInt64 (if IsUnsigned column \<and> r <s 0 then 256 + scast e else r))
      | VInt16 e \<Rightarrow>
          let r = scast e in Ret (VInt64 (if IsUnsigned column \<and> r <s 0 then 65536 + scast e else r))
      | VInt32 e \<Rightarrow>
          let r = scast e
          in if IsUnsigned column \<and> r <s 0
             then go_bind (raw_prefix k (RawType column)) (\<lambda>t.
               Ret (VInt64 (if t \<noteq> ''int'' then push_bit 24 1 + scast e else 4294967296 + scast e)))
             else Ret (VInt64 r)
      | VInt64 e \<Rightarrow> decode_int64 e column
      | _ \<Rightarrow> Ret edata)"

section \<open>Integers\<close>

lemma uint_of_sint:
  "uint e = (if sint e < 0 then sint e + 2 ^ LENGTH('a) else sint e)" for e :: "'a::len word"
proof -
  have lo: "- (2 ^ (LENGTH('a) - 1)) \<le> sint e" by (rule sint_ge)
  have hi: "sint e < 2 ^ (LENGTH('a) - 1)" by (rule sint_lt)
  have p: "(2::int) ^ LENGTH('a) = 2 * 2 ^ (LENGTH('a) - 1)"
    by (metis len_gt_0 power_eq_if not_gr_zero)
  have u: "uint e = sint e mod 2 ^ LENGTH('a)" by (simp add: uint_sint take_bit_eq_mod)
  show ?thesis
  proof (cases "sint e < 0")
    case True
    have "sint e mod 2 ^ LENGTH('a) = (sint e + 2 ^ LENGTH('a)) mod 2 ^ LENGTH('a)" by simp
    also have "\<dots> = sint e + 2 ^ LENGTH('a)"
      using True lo by (intro mod_pos_pos_trivial) (simp_all add: p)
    finally show ?thesis using u True by simp
  next
    case False
    then show ?thesis using u hi by (simp add: p)
  qed
qed

lemma sint_scast_64: "LENGTH('a) \<le> 64 \<Longrightarrow> sint (scast e :: 64 word) = sint e" for e :: "'a::len word"
proof -
  assume "LENGTH('a) \<le> 64"
  then have "(2::int) ^ (LENGTH('a) - 1) \<le> 2 ^ 63" by (intro power_increasing) simp_all
  then have "signed_take_bit 63 (sint e) = sint e"
    using sint_ge [of e] sint_lt [of e] by (intro signed_take_bit_int_eq_self) linarith+
  then show ?thesis by (simp add: signed_scast_eq)
qed

text \<open>The correction of a negative value of an unsigned column is its unsigned value.\<close>

lemma unsigned_correction:
  fixes e :: "'a::len word"
  assumes "LENGTH('a) \<le> 64"
  shows "(if u \<and> (scast e :: 64 word) <s 0 then 2 ^ LENGTH('a) + scast e else scast e) =
    (word_of_int (if u then uint e else sint e) :: 64 word)"
proof -
  have "((scast e :: 64 word) <s 0) = (sint e < 0)"
    using sint_scast_64 [OF assms, of e] by (simp add: word_sless_alt)
  then show ?thesis
    by (cases "u \<and> sint e < 0") (simp_all add: uint_of_sint [of e] add.commute)
qed


definition demo_col :: "string \<Rightarrow> bool \<Rightarrow> TableColumn" where
  "demo_col t u = \<lparr>col_Name = ''c'', RawType = t, IsUnsigned = u, EnumValues = [''a'', ''b''], SetValues = [''x'', ''y'', ''z'']\<rparr>"


text \<open>Three-byte columns arrive as sign-extended four-byte words.\<close>

lemma mediumint_decodes:
  assumes "3 \<le> length (RawType col)" and "take 3 (RawType col) \<noteq> ''int''"
  shows "fieldDecode k (VInt32 (scast (e :: 24 word))) col =
    Ret (VInt64 (word_of_int (if IsUnsigned col then uint e else sint e)))"
proof -
  have "signed_take_bit 31 (sint e) = sint e"
    using sint_ge [of e] sint_lt [of e] by (intro signed_take_bit_int_eq_self) simp_all
  then have s: "sint (scast e :: 32 word) = sint e" by (simp add: signed_scast_eq)
  have sc: "(scast (scast e :: 32 word) :: 64 word) = scast e"
    using s by (metis of_int_sint)
  have "raw_prefix k (RawType col) = Ret (take 3 (RawType col))"
    using assms(1) by (simp add: raw_prefix_def bytes_of_def string_of_def take_map comp_def)
  then show ?thesis
    using unsigned_correction [of "IsUnsigned col" e] assms(2)
    by (auto simp: fieldDecode_def Let_def sc push_bit_eq_mult)
qed

section \<open>Enumerations and sets\<close>

text \<open>
  An enumeration's index is turned into its value, counted from 1; every other index
  panics, also 0, which MySQL stores for an invalid value of the column.
\<close>

theorem enum_decodes:
  assumes "take 4 (RawType col) = ''enum''" and "4 < length (RawType col)"
  shows "fieldDecode k (VInt64 e) col =
    (if 1 \<le> sint e \<and> sint e \<le> int (length (EnumValues col))
     then Ret (VString (EnumValues col ! nat (sint e - 1))) else Panic IndexOutOfRange)"
  using assms by (auto simp: fieldDecode_def decode_int64_def Let_def)

theorem enum_decodes_witness:
  "fieldDecode 0 (VInt64 0) (demo_col ''enum(1,2)'' False) = Panic IndexOutOfRange"
  by (subst enum_decodes) (simp_all add: demo_col_def)

fun join_comma :: "string list \<Rightarrow> string" where
  "join_comma [] = []"
| "join_comma [s] = s"
| "join_comma (s # ss) = s @ '','' @ join_comma ss"

lemma join_comma_append: "xs \<noteq> [] \<Longrightarrow> join_comma (join_comma xs # ys) = join_comma (xs @ ys)"
proof (induction xs rule: join_comma.induct)
  case (3 s x xs)
  then show ?case by (cases ys) simp_all
qed simp_all

lemma join_comma_Nil: "[] \<notin> set xs \<Longrightarrow> join_comma xs = [] \<longleftrightarrow> xs = []"
  by (induction xs rule: join_comma.induct) auto

definition selected :: "64 word \<Rightarrow> nat \<Rightarrow> string list \<Rightarrow> string list" where
  "selected v i ss = map snd (filter (\<lambda>(j, s). bit v j) (zip [i..<i + length ss] ss))"

lemma selected_simps [simp]:
  "selected v i [] = []"
  "selected v i (s # ss) = (if bit v i then s # selected v (Suc i) ss else selected v (Suc i) ss)"
  by (simp_all add: selected_def upt_conv_Cons del: upt_Suc)

lemma mask_bit: "(v AND push_bit i 1 > 0) = bit v i" for v :: "64 word"
  using and_exp_eq_0_iff_not_bit [of v i] by (simp add: push_bit_eq_mult word_gt_0)

lemma set_loop_join:
  assumes "[] \<notin> set ss" and "[] \<notin> set acc"
  shows "set_loop v i ss (join_comma acc) = join_comma (acc @ selected v i ss)"
  using assms
proof (induction ss arbitrary: i acc)
  case Nil
  then show ?case by simp
next
  case (Cons s ss)
  have step: "(if join_comma acc \<noteq> [] then join_comma acc @ '','' @ s else join_comma acc @ s) = join_comma (acc @ [s])"
  proof (cases "acc = []")
    case False
    then have "join_comma [join_comma acc, s] = join_comma (acc @ [s])" by (rule join_comma_append)
    with False Cons.prems show ?thesis by (simp add: join_comma_Nil)
  qed simp
  show ?case
  proof (cases "bit v i")
    case True
    then have "set_loop v i (s # ss) (join_comma acc) = set_loop v (Suc i) ss (join_comma (acc @ [s]))"
      by (simp only: set_loop.simps mask_bit True if_True step)
    with Cons True show ?thesis by simp
  next
    case False
    then have "set_loop v i (s # ss) (join_comma acc) = set_loop v (Suc i) ss (join_comma acc)"
      by (simp only: set_loop.simps mask_bit if_False)
    with Cons False show ?thesis by simp
  qed
qed

text \<open>
  A set column is published as the comma-separated list of exactly the values whose bit is
  set, in the order of the column's definition (no value of which is the empty string).
\<close>

theorem set_decodes:
  assumes "take 3 (RawType col) = ''set''" and "3 < length (RawType col)" and "[] \<notin> set (SetValues col)"
  shows "fieldDecode k (VInt64 e) col =
    Ret (VString (join_comma (map snd (filter (\<lambda>(j, s). bit e j)
      (zip [0..<length (SetValues col)] (SetValues col))))))"
proof -
  have "take 1 (take 3 (RawType col)) = ''s''" by (simp add: assms(1))
  then have t1: "take 1 (RawType col) = ''s''" by simp
  have "take 4 (RawType col) \<noteq> ''enum''"
  proof
    assume "take 4 (RawType col) = ''enum''"
    then have "take 1 (take 4 (RawType col)) = ''e''" by simp
    with t1 show False by simp
  qed
  then show ?thesis
    using assms set_loop_join [of "SetValues col" "[]" e 0]
    by (simp add: fieldDecode_def decode_int64_def selected_def)
qed

theorem set_decodes_witness:
  "fieldDecode 0 (VInt64 5) (demo_col ''set(x)'' False) = Ret (VString ''x,z'')"
  by (subst set_decodes) (simp_all add: demo_col_def)

end
