(* ===== verification/Config.thy ===== *)
theory Config
  imports Go_Text
begin

text \<open>
  The configuration and the node's key: \<^verbatim>\<open>src/g/cfg.go\<close> (which file is read, and reading it
  again) and \<open>GetKey\<close> of \<^verbatim>\<open>src/g/app.go\<close>. The file system is a parameter: whether a path
  exists, and the trimmed text of a file (the calls of \<^verbatim>\<open>github.com/toolkits/file\<close>);
  \<open>json.Unmarshal\<close> of a configuration is a function from text to the record. A
  \<open>log.Fatalf\<close> ends the process.
\<close>

section \<open>Data\<close>

record LogConfig =
  Level :: string

record AdminConfig =
  adm_Enabled :: bool
  adm_Listen :: string

record DatabaseConfig =
  db_Host :: string
  db_Port :: "16 word"
  db_User :: string
  db_Password :: string
  db_Charset :: string
  db_ServerID :: "32 word"
  db_Flavor :: string
  db_HeartbeatPeriod :: "64 word"
  db_ReadTimeout :: "32 word"
  db_BinlogFile :: string
  db_BinlogPos :: "32 word"

record AgentConfig =
  agc_Enabled :: bool
  agc_Lock :: string
  agc_Listen :: string
  agc_Consul :: string

record ConsulConfig =
  cc_Enabled :: bool
  cc_Addr :: string

record GlobalConfig =
  cfg_Log :: "LogConfig option"
  cfg_Admin :: "AdminConfig option"
  TimeZone :: string
  cfg_Database :: "DatabaseConfig option"
  cfg_Listen :: string
  cfg_Consul :: "ConsulConfig option"
  cfg_Agent :: "AgentConfig option"

record cfg_state =
  ConfigFile :: string
  cfg_config :: "GlobalConfig option"

text \<open>The calls of the file package, on a file system of any type.\<close>

record 'f files =
  Stat :: "string \<Rightarrow> 'f \<Rightarrow> bool"
  ToTrimString :: "string \<Rightarrow> 'f \<Rightarrow> string option"
  WriteString :: "string \<Rightarrow> string \<Rightarrow> 'f \<Rightarrow> nat \<times> 'f"

datatype 'a run = Done 'a | Fatal


section \<open>Reading the configuration\<close>

text \<open>\<open>filepath.Dir\<close> and \<open>filepath.Join\<close> on a clean absolute path, which is what
  \<open>os.Executable\<close> returns.\<close>

definition path_dir :: "string \<Rightarrow> string" where
  "path_dir p =
     (let d = rev (tl (dropWhile (\<lambda>ch. ch \<noteq> CHR ''/'') (rev p))) in if d = [] then ''/'' else d)"

definition path_join :: "string \<Rightarrow> string list \<Rightarrow> string" where
  "path_join base xs = (if base = ''/'' then [] else base) @ concat (map (\<lambda>x. ''/'' @ x) xs)"

definition config_paths :: "string \<Rightarrow> string \<Rightarrow> string list" where
  "config_paths exe cfg =
     (if TrimSpace cfg = []
      then let baseDir = path_dir exe
           in [''/etc/copycat/cfg.json'', path_join baseDir [''etc'', ''cfg.json''], path_join baseDir [''cfg.json'']]
      else [cfg])"

text \<open>The loop over the paths leaves the error of its last \<open>Stat\<close>.\<close>

fun first_config :: "'f files \<Rightarrow> 'f \<Rightarrow> string list \<Rightarrow> string option" where
  "first_config fs f [] = None"
| "first_config fs f (config # configs) = (if Stat fs config f then Some config else first_config fs f configs)"

definition ParseConfig ::
  "'f files \<Rightarrow> (string \<Rightarrow> GlobalConfig option) \<Rightarrow> string \<Rightarrow> string \<Rightarrow> 'f \<Rightarrow> cfg_state \<Rightarrow> (GlobalConfig \<times> cfg_state) run" where
  "ParseConfig fs um exe cfg f st =
     (case first_config fs f (config_paths exe cfg) of
        None \<Rightarrow> Fatal
      | Some path \<Rightarrow>
          let st1 = st\<lparr>ConfigFile := path\<rparr>
          in (case ToTrimString fs path f of
                None \<Rightarrow> Fatal
              | Some content \<Rightarrow>
                  (case um content of
                     None \<Rightarrow> Fatal
                   | Some c \<Rightarrow> Done (c, st1\<lparr>cfg_config := Some c\<rparr>))))"

definition Reload ::
  "'f files \<Rightarrow> (string \<Rightarrow> GlobalConfig option) \<Rightarrow> string \<Rightarrow> 'f \<Rightarrow> cfg_state \<Rightarrow> (GlobalConfig \<times> cfg_state) run" where
  "Reload fs um exe f st = ParseConfig fs um exe (ConfigFile st) f st"

definition get_Config :: "cfg_state \<Rightarrow> GlobalConfig option" where
  "get_Config st = cfg_config st"

lemma first_config_SomeD: "first_config fs f ps = Some p \<Longrightarrow> p \<in> set ps \<and> Stat fs p f"
  by (induction ps) (auto split: if_splits)

lemma TrimSpace_nonempty:
  assumes "s \<noteq> []" and "\<not> is_space (hd s)"
  shows "TrimSpace s \<noteq> []"
proof -
  have "dropWhile is_space s = s" using assms by (cases s) simp_all
  moreover have "hd s \<in> set (rev s)" using assms(1) by simp
  then have "dropWhile is_space (rev s) \<noteq> []" using assms(2) by (auto simp: dropWhile_eq_Nil_conv)
  ultimately show ?thesis by (simp add: TrimSpace_def)
qed

lemma path_dir_absolute:
  assumes "exe \<noteq> []" and "hd exe = CHR ''/''"
  shows "path_dir exe \<noteq> [] \<and> hd (path_dir exe) = CHR ''/''"
proof -
  define d where "d = rev (tl (dropWhile (\<lambda>ch. ch \<noteq> CHR ''/'') (rev exe)))"
  have "d = take (length exe - Suc (length (takeWhile (\<lambda>ch. ch \<noteq> CHR ''/'') (rev exe)))) exe"
    by (simp only: d_def dropWhile_eq_drop tl_drop drop_Suc [symmetric] rev_drop rev_rev_ident length_rev)
  then have "d \<noteq> [] \<Longrightarrow> hd d = hd exe" by (metis hd_take take_eq_Nil gr0I)
  then show ?thesis using assms(2) by (auto simp: path_dir_def d_def [symmetric] Let_def)
qed

lemma config_path_trimmed:
  assumes "p \<in> set (config_paths exe cfg)" and "exe \<noteq> []" and "hd exe = CHR ''/''"
  shows "TrimSpace p \<noteq> []"
proof (cases "TrimSpace cfg = []")
  case True
  have "path_join (path_dir exe) (x # xs) \<noteq> [] \<and> hd (path_join (path_dir exe) (x # xs)) = CHR ''/''" for x xs
    using path_dir_absolute [OF assms(2,3)] by (auto simp: path_join_def)
  then have "p \<noteq> [] \<and> hd p = CHR ''/''" using True assms(1) by (auto simp: config_paths_def Let_def)
  then show ?thesis by (intro TrimSpace_nonempty) (simp_all add: is_space_def)
next
  case False
  with assms(1) show ?thesis by (simp add: config_paths_def)
qed

text \<open>
  A reload reads the file that was chosen at start: whatever has changed in the file system,
  also when a file with a higher priority has appeared, \<open>Reload\<close> takes the current text of
  that same file; if it parses, its content is the new configuration.
\<close>

theorem Reload_same_file:
  assumes "ParseConfig fs um exe cfg f st = Done (c, st1)" and "exe \<noteq> []" and "hd exe = CHR ''/''"
    and "Stat fs (ConfigFile st1) f'" and "ToTrimString fs (ConfigFile st1) f' = Some content" and "um content = Some c2"
  shows "ConfigFile st1 \<in> set (config_paths exe cfg) \<and> Stat fs (ConfigFile st1) f \<and>
    Reload fs um exe f' st1 = Done (c2, st1\<lparr>cfg_config := Some c2\<rparr>)"
proof -
  obtain p where p: "first_config fs f (config_paths exe cfg) = Some p" "ConfigFile st1 = p"
    using assms(1) unfolding ParseConfig_def Let_def
    by (cases "first_config fs f (config_paths exe cfg)"; cases "ToTrimString fs (the (first_config fs f (config_paths exe cfg))) f";
        cases "um (the (ToTrimString fs (the (first_config fs f (config_paths exe cfg))) f))") auto
  note sel = first_config_SomeD [OF p(1)]
  have "config_paths exe p = [p]"
    using config_path_trimmed [OF sel [THEN conjunct1] assms(2,3)] by (simp add: config_paths_def)
  with assms(4-6) sel p(2) show ?thesis by (simp add: Reload_def ParseConfig_def)
qed

text \<open>A file system that is a map from paths to texts.\<close>

definition map_files :: "(string \<rightharpoonup> string) files" where
  "map_files = \<lparr>Stat = (\<lambda>p f. f p \<noteq> None), ToTrimString = (\<lambda>p f. map_option TrimSpace (f p)),
     WriteString = (\<lambda>p s f. (length s, f(p \<mapsto> s)))\<rparr>"

definition no_config :: GlobalConfig where
  "no_config = \<lparr>cfg_Log = None, cfg_Admin = None, TimeZone = [], cfg_Database = None, cfg_Listen = [],
     cfg_Consul = None, cfg_Agent = None\<rparr>"

theorem Reload_same_file_witness:
  "Reload map_files (\<lambda>t. Some (no_config\<lparr>cfg_Listen := t\<rparr>)) ''/opt/copycat''
     [''/opt/cfg.json'' \<mapsto> ''b'', ''/etc/copycat/cfg.json'' \<mapsto> ''z''] \<lparr>ConfigFile = ''/opt/cfg.json'', cfg_config = Some (no_config\<lparr>cfg_Listen := ''a''\<rparr>)\<rparr> =
   Done (no_config\<lparr>cfg_Listen := ''b''\<rparr>,
     \<lparr>ConfigFile = ''/opt/cfg.json'', cfg_config = Some (no_config\<lparr>cfg_Listen := ''b''\<rparr>)\<rparr>)"
proof -
  let ?um = "\<lambda>t. Some (no_config\<lparr>cfg_Listen := t\<rparr>)"
  let ?st = "\<lparr>ConfigFile = ''/opt/cfg.json'', cfg_config = Some (no_config\<lparr>cfg_Listen := ''a''\<rparr>)\<rparr>"
  have ts: "TrimSpace ''a'' = ''a''" "TrimSpace ''b'' = ''b''" "TrimSpace [] = []"
    by (simp_all add: TrimSpace_def is_space_def)
  have "ParseConfig map_files ?um ''/opt/copycat'' [] [''/opt/cfg.json'' \<mapsto> ''a''] \<lparr>ConfigFile = [], cfg_config = None\<rparr> =
      Done (no_config\<lparr>cfg_Listen := ''a''\<rparr>, ?st)"
    by (simp add: ParseConfig_def config_paths_def ts path_join_def path_dir_def map_files_def Let_def)
  from Reload_same_file [OF this, of "[''/opt/cfg.json'' \<mapsto> ''b'', ''/etc/copycat/cfg.json'' \<mapsto> ''z'']" "''b''"]
  show ?thesis by (simp add: map_files_def ts)
qed


section \<open>The node's key\<close>

definition alphabet :: string where
  "alphabet = ''0123456789abcdefghijklmnopqrstuvwxyzABCDEFGHIJKLMNOPQRSTUVWXYZ''"

text \<open>\<open>Intn(n)\<close> on a stream of random numbers is below \<open>n\<close>.\<close>

definition randString :: "(nat \<Rightarrow> nat) \<Rightarrow> nat \<Rightarrow> string" where
  "randString r slen = map (\<lambda>i. alphabet ! (r i mod length alphabet)) [0..<slen]"

definition GetKey :: "'f files \<Rightarrow> int \<Rightarrow> (nat \<Rightarrow> nat) \<Rightarrow> string \<Rightarrow> 'f \<Rightarrow> string \<times> 'f" where
  "GetKey fs now r sessionFile f =
     (let data = (if Stat fs sessionFile f then (case ToTrimString fs sessionFile f of None \<Rightarrow> [] | Some d \<Rightarrow> d) else [])
      in if data \<noteq> [] then (data, f)
         else let key = dec_int now @ ''-'' @ randString r 64;
                  (n, f') = WriteString fs sessionFile key f
              in (if n \<noteq> length key then [] else key, f'))"

lemma dropWhile_none: "\<forall>x \<in> set xs. \<not> P x \<Longrightarrow> dropWhile P xs = xs"
  by (cases xs) simp_all

lemma TrimSpace_id: "\<forall>ch \<in> set s. \<not> is_space ch \<Longrightarrow> TrimSpace s = s"
  by (simp add: TrimSpace_def dropWhile_none)

lemma alphabet_no_space: "\<forall>ch \<in> set alphabet. \<not> is_space ch"
  by (simp add: alphabet_def is_space_def)

lemma set_randString: "ch \<in> set (randString r n) \<Longrightarrow> \<not> is_space ch"
proof -
  assume "ch \<in> set (randString r n)"
  then obtain i where "ch = alphabet ! (r i mod length alphabet)" by (auto simp: randString_def)
  moreover have "r i mod length alphabet < length alphabet" by (simp add: alphabet_def)
  ultimately have "ch \<in> set alphabet" by simp
  then show ?thesis using alphabet_no_space by blast
qed

lemma set_dec_int: "ch \<in> set (dec_int i) \<Longrightarrow> \<not> is_space ch"
proof -
  assume "ch \<in> set (dec_int i)"
  then consider "ch = CHR ''-''" | n where "ch \<in> set (dec n)"
    by (auto simp: dec_int_def split: if_splits)
  then show ?thesis
  proof cases
    case (2 n)
    from set_dec [OF this] show ?thesis by (auto simp: is_space_def Let_def)
  qed (simp add: is_space_def)
qed

text \<open>
  A node keeps its key: once \<open>GetKey\<close> has returned a key, every later call on the
  file system it leaves returns the same one, whatever the clock and the random source say.
  (What is assumed of the file package: a complete write is what a read finds, trimmed.)
\<close>

theorem GetKey_stable:
  assumes "\<forall>s f f'. WriteString fs path s f = (length s, f') \<longrightarrow>
      Stat fs path f' \<and> ToTrimString fs path f' = Some (TrimSpace s)"
    and "GetKey fs now r path f = (key, f')" and "key \<noteq> []"
  shows "GetKey fs now' r' path f' = (key, f')"
proof (cases "Stat fs path f \<and> (\<exists>d. ToTrimString fs path f = Some d \<and> d \<noteq> [])")
  case True
  with assms(2) have "f' = f" "ToTrimString fs path f = Some key" by (auto simp: GetKey_def)
  with True assms(3) show ?thesis by (simp add: GetKey_def)
next
  case False
  let ?k = "dec_int now @ ''-'' @ randString r 64"
  from False have "GetKey fs now r path f =
      (if fst (WriteString fs path ?k f) \<noteq> length ?k then [] else ?k, snd (WriteString fs path ?k f))"
    by (auto simp: GetKey_def Let_def case_prod_beta split: option.splits)
  with assms(2,3) have w: "WriteString fs path ?k f = (length ?k, f')" and key: "key = ?k"
    by (auto simp: prod_eq_iff split: if_splits)
  have "TrimSpace ?k = ?k"
    by (rule TrimSpace_id) (auto dest: set_dec_int set_randString simp: is_space_def)
  then have "Stat fs path f' \<and> ToTrimString fs path f' = Some ?k" using assms(1) w by metis
  then show ?thesis by (simp add: GetKey_def key)
qed

theorem GetKey_stable_witness:
  "\<exists>key f'. GetKey map_files 5 (\<lambda>i. i) ''/s'' Map.empty = (key, f') \<and> GetKey map_files 9 (\<lambda>_. 3) ''/s'' f' = (key, f')"
proof -
  obtain key f' where k: "GetKey map_files 5 (\<lambda>i. i) ''/s'' Map.empty = (key, f')" by (metis prod.exhaust)
  then have "key \<noteq> []" by (auto simp: GetKey_def map_files_def Let_def)
  with k GetKey_stable [of map_files "''/s''" 5 "\<lambda>i. i" Map.empty key f' 9 "\<lambda>_. 3"] show ?thesis
    by (auto simp: map_files_def)
qed

end
