(* ===== verification/Binlog_State.thy ===== *)
theory Binlog_State
  imports Pos_Cache Field_Decode Config
begin

text \<open>
  The replication component, \<^verbatim>\<open>src/binlog/binlog.go\<close> and
  \<^verbatim>\<open>src/binlog/binlog_handler.go\<close>: initialisation from the position cache
  (\<open>handlerInit\<close>), the handlers of the replication library (\<open>OnRow\<close>, \<open>OnPosSynced\<close>),
  the position received from the leader (\<open>SaveBinlogPosition\<close>), and the goroutines that
  start and stop replication. Writing the
  cache file succeeds (the code only logs an error). Parameters: \<open>json.Marshal\<close>, the answers of the library
  \<open>canal\<close> (current master position, errors, which positions its \<open>Close\<close> reports), and
  the clock. The calls the component makes are recorded: \<open>b_out\<close> holds the table and data
  handed to every service and \<open>onEvent\<close> callback, \<open>b_synced\<close> the records handed to the
  \<open>onPosChanges\<close> callbacks. \<open>b_locked\<close> says whether \<open>statusLock\<close> is held.
\<close>

section \<open>State\<close>

definition binlogIsRunning :: nat where "binlogIsRunning = 1"
definition binlogIsExit :: nat where "binlogIsExit = 2"
definition cacheHandlerIsOpened :: nat where "cacheHandlerIsOpened = 4"

lemmas binlog_flags = binlogIsRunning_def binlogIsExit_def cacheHandlerIsOpened_def

record Position =
  pos_Name :: string
  pos_Pos :: "32 word"

text \<open>The settings \<open>setHandler\<close> hands to the library; \<open>time.Duration\<close> is an \<open>int64\<close>.\<close>

record CanalConfig =
  can_Addr :: string
  can_User :: string
  can_Password :: string
  can_Charset :: string
  can_ServerID :: "32 word"
  can_Flavor :: string
  can_HeartbeatPeriod :: int64
  can_ReadTimeout :: int64
  can_Silence :: bool

record Binlog =
  b_status :: nat
  b_locked :: bool
  EventIndex :: int64
  lastPos :: "32 word"
  lastBinFile :: string
  b_cache :: bytes
  startServiceChan :: nat
  stopServiceChan :: "bool list"
  b_handlers :: "CanalConfig list" \<comment> \<open>of the handlers created so far; the last one is in use\<close>
  b_starting :: nat \<comment> \<open>goroutines of \<open>lookStartService\<close> that have not called \<open>RunFrom\<close> yet\<close>
  b_runs :: "Position list" \<comment> \<open>the positions replication was started from\<close>
  b_out :: "(string \<times> bytes) list"
  b_synced :: "bytes list"

definition chan_cap :: nat where "chan_cap = 100"

definition new_binlog :: "bytes \<Rightarrow> Binlog" where
  "new_binlog file =
     \<lparr>b_status = 0, b_locked = False, EventIndex = 0, lastPos = 0, lastBinFile = [], b_cache = file,
      startServiceChan = 0, stopServiceChan = [], b_handlers = [], b_starting = 0, b_runs = [], b_out = [], b_synced = []\<rparr>"


section \<open>The position\<close>

text \<open>\<open>saveBinlogPositionCache\<close> takes \<open>statusLock\<close> first.\<close>

definition saveBinlogPositionCache :: "bytes \<Rightarrow> Binlog \<Rightarrow> Binlog go" where
  "saveBinlogPositionCache r h =
     (if b_locked h then Block
      else if has_flag (b_status h) binlogIsExit then Ret h
      else let h1 = (if has_flag (b_status h) cacheHandlerIsOpened
                     then h\<lparr>b_cache := write_at_0 r (b_cache h)\<rparr> else h)
           in Ret (h1\<lparr>b_synced := b_synced h1 @ [r]\<rparr>))"

definition getBinlogPositionCache :: "Binlog \<Rightarrow> (string \<times> int64 \<times> int64) go" where
  "getBinlogPositionCache h =
     (if \<not> has_flag (b_status h) cacheHandlerIsOpened then Ret ([], 0, 0) else read_cache (b_cache h))"

definition OnPosSynced :: "Position \<Rightarrow> Binlog \<Rightarrow> Binlog go" where
  "OnPosSynced p h =
     (let data = packPos (pos_Name p) (ucast (pos_Pos p)) (EventIndex h)
      in go_bind (saveBinlogPositionCache data h) (\<lambda>h'.
           Ret (h'\<lparr>lastBinFile := pos_Name p, lastPos := pos_Pos p\<rparr>)))"

definition SaveBinlogPosition :: "bytes \<Rightarrow> Binlog \<Rightarrow> Binlog go" where
  "SaveBinlogPosition r h =
     go_bind (unpackPos r) (\<lambda>(file, pos, index).
       saveBinlogPositionCache r (h\<lparr>lastBinFile := file, lastPos := ucast pos, EventIndex := index\<rparr>))"

text \<open>\<open>setHandler\<close>; \<open>NewCanal\<close> says whether the library accepts the settings.\<close>

definition canal_config :: "DatabaseConfig \<Rightarrow> CanalConfig" where
  "canal_config db =
     \<lparr>can_Addr = db_Host db @ '':'' @ dec (unat (db_Port db)), can_User = db_User db,
      can_Password = db_Password db, can_Charset = db_Charset db, can_ServerID = db_ServerID db,
      can_Flavor = db_Flavor db, can_HeartbeatPeriod = db_HeartbeatPeriod db,
      can_ReadTimeout = ucast (db_ReadTimeout db), can_Silence = True\<rparr>"

definition setHandler :: "(CanalConfig \<Rightarrow> bool) \<Rightarrow> DatabaseConfig option \<Rightarrow> Binlog \<Rightarrow> Binlog go" where
  "setHandler NewCanal database h =
     go_bind (deref database) (\<lambda>db.
       let cfg = canal_config db
       in if NewCanal cfg then Ret (h\<lparr>b_handlers := b_handlers h @ [cfg]\<rparr>) else Panic ExplicitPanic)"

text \<open>\<open>handlerInit\<close>; \<open>opened\<close> is whether the cache file can be opened, \<open>master\<close> the answer of \<open>GetMasterPos\<close>, \<open>None\<close> an error.\<close>

definition start_position :: "string \<Rightarrow> int64 \<Rightarrow> Position \<Rightarrow> string \<times> 32 word" where
  "start_position f p currentPos =
     (if f \<noteq> [] \<and> 0 <s p
      then (let BinlogPos = ucast p
            in (f, if f = pos_Name currentPos \<and> pos_Pos currentPos < BinlogPos then pos_Pos currentPos else BinlogPos))
      else (pos_Name currentPos, pos_Pos currentPos))"

definition handlerInit ::
  "bool \<Rightarrow> (CanalConfig \<Rightarrow> bool) \<Rightarrow> DatabaseConfig option \<Rightarrow> Position option \<Rightarrow> Binlog \<Rightarrow> Binlog go" where
  "handlerInit opened NewCanal database master h =
     (if \<not> opened then Panic ExplicitPanic
      else let h1 = h\<lparr>b_status := b_status h OR cacheHandlerIsOpened\<rparr>
      in go_bind (getBinlogPositionCache h1) (\<lambda>(f, p, index).
         go_bind (setHandler NewCanal database (h1\<lparr>EventIndex := index\<rparr>)) (\<lambda>h2.
           case master of
             None \<Rightarrow> Panic ExplicitPanic
           | Some currentPos \<Rightarrow>
               let (f', p') = start_position f p currentPos
               in Ret (h2\<lparr>lastBinFile := f', lastPos := p'\<rparr>))))"

definition NewBinlog ::
  "bytes \<Rightarrow> bool \<Rightarrow> (CanalConfig \<Rightarrow> bool) \<Rightarrow> DatabaseConfig option \<Rightarrow> Position option \<Rightarrow> Binlog go" where
  "NewBinlog file opened NewCanal database master = handlerInit opened NewCanal database master (new_binlog file)"


section \<open>Row events\<close>

datatype ('f, 'd) event_data =
    Row "string \<Rightarrow> ('f, 'd) edata option"
  | Update "string \<Rightarrow> ('f, 'd) edata option" "string \<Rightarrow> ('f, 'd) edata option"

record ('f, 'd) rowData =
  rd_database :: string
  rd_event_type :: string
  rd_time :: int64
  rd_table :: string
  rd_event_index :: int64
  rd_event :: "('f, 'd) event_data"

record ('f, 'd) RowsEvent =
  e_Schema :: string
  e_Name :: string
  e_Columns :: "TableColumn list"
  e_Action :: string
  e_Rows :: "('f, 'd) edata list list"

type_synonym ('f, 'd) marshal = "('f, 'd) rowData \<Rightarrow> bytes + g_error"

definition notify :: "('f, 'd) marshal \<Rightarrow> ('f, 'd) rowData \<Rightarrow> Binlog \<Rightarrow> Binlog" where
  "notify Marshal d h =
     (case Marshal d of
        Inr e \<Rightarrow> h
      | Inl jsonData \<Rightarrow> h\<lparr>b_out := b_out h @ [(rd_database d @ ''.'' @ rd_table d, jsonData)]\<rparr>)"

text \<open>The loop over the columns from index \<open>k\<close>, filling the map of a row.\<close>

fun fill_row :: "nat \<Rightarrow> ('f, 'd) edata list \<Rightarrow> nat \<Rightarrow> TableColumn list \<Rightarrow>
    (string \<Rightarrow> ('f, 'd) edata option) \<Rightarrow> (string \<Rightarrow> ('f, 'd) edata option) go" where
  "fill_row sp row k [] m = Ret m"
| "fill_row sp row k (col # cols) m =
     (if k < length row
      then go_bind (fieldDecode sp (row ! k) col) (\<lambda>v. fill_row sp row (Suc k) cols (m(col_Name col \<mapsto> v)))
      else fill_row sp row (Suc k) cols (m(col_Name col \<mapsto> VNil)))"

text \<open>The loops over the rows; \<open>sp\<close> is the spare capacity of converted slices, \<open>now\<close> the
  time of the event. The map \<open>data\<close> of inserted or deleted rows is shared by all of them.\<close>

fun update_rows :: "nat \<Rightarrow> int64 \<Rightarrow> ('f, 'd) marshal \<Rightarrow> ('f, 'd) RowsEvent \<Rightarrow>
    ('f, 'd) edata list list \<Rightarrow> Binlog \<Rightarrow> Binlog go" where
  "update_rows sp now Marshal e [] h = Ret h"
| "update_rows sp now Marshal e [old] h =
     go_bind (fill_row sp old 0 (e_Columns e) (\<lambda>_. None)) (\<lambda>_. Panic IndexOutOfRange)"
| "update_rows sp now Marshal e (old # new # rows) h =
     (let h1 = h\<lparr>EventIndex := EventIndex h + 1\<rparr>
      in go_bind (fill_row sp old 0 (e_Columns e) (\<lambda>_. None)) (\<lambda>oldData.
         go_bind (fill_row sp new 0 (e_Columns e) (\<lambda>_. None)) (\<lambda>newData.
           update_rows sp now Marshal e rows (notify Marshal
             \<lparr>rd_database = e_Schema e, rd_event_type = e_Action e, rd_time = now, rd_table = e_Name e,
              rd_event_index = EventIndex h1, rd_event = Update oldData newData\<rparr> h1))))"

fun plain_rows :: "nat \<Rightarrow> int64 \<Rightarrow> ('f, 'd) marshal \<Rightarrow> ('f, 'd) RowsEvent \<Rightarrow>
    ('f, 'd) edata list list \<Rightarrow> (string \<Rightarrow> ('f, 'd) edata option) \<Rightarrow> Binlog \<Rightarrow> Binlog go" where
  "plain_rows sp now Marshal e [] data h = Ret h"
| "plain_rows sp now Marshal e (row # rows) data h =
     (let h1 = h\<lparr>EventIndex := EventIndex h + 1\<rparr>
      in go_bind (fill_row sp row 0 (e_Columns e) data) (\<lambda>data'.
           plain_rows sp now Marshal e rows data' (notify Marshal
             \<lparr>rd_database = e_Schema e, rd_event_type = e_Action e, rd_time = now, rd_table = e_Name e,
              rd_event_index = EventIndex h1, rd_event = Row data'\<rparr> h1)))"

definition OnRow :: "nat \<Rightarrow> int64 \<Rightarrow> ('f, 'd) marshal \<Rightarrow> ('f, 'd) RowsEvent \<Rightarrow> Binlog \<Rightarrow> Binlog go" where
  "OnRow sp now Marshal e h =
     (if has_flag (b_status h) binlogIsExit then Ret h
      else if e_Action e = ''update'' then update_rows sp now Marshal e (e_Rows e) h
      else plain_rows sp now Marshal e (e_Rows e) (\<lambda>_. None) h)"


section \<open>Starting and stopping\<close>

definition StopService :: "bool \<Rightarrow> Binlog \<Rightarrow> Binlog go" where
  "StopService exit h =
     (if length (stopServiceChan h) < chan_cap
      then Ret (h\<lparr>stopServiceChan := stopServiceChan h @ [exit]\<rparr>) else Block)"

definition StartService :: "Binlog \<Rightarrow> Binlog go" where
  "StartService h =
     (if startServiceChan h < chan_cap then Ret (h\<lparr>startServiceChan := startServiceChan h + 1\<rparr>) else Block)"

definition OnLeader :: "bool \<Rightarrow> Binlog \<Rightarrow> Binlog go" where
  "OnLeader isLeader h = (if isLeader then StartService h else StopService False h)"

text \<open>What \<open>lookStartService\<close> does with a signal: unless replication runs already, it starts a
  goroutine. A pass of that goroutine waits for the name of the binlog file, at most three
  seconds (\<open>waited\<close>), and then runs replication from the position the component has;
  \<open>run_fails\<close> is the end of the goroutine with an error.\<close>

definition lookStart_turn :: "Binlog \<Rightarrow> Binlog" where
  "lookStart_turn h =
     (let h1 = h\<lparr>startServiceChan := startServiceChan h - 1\<rparr>
      in if has_flag (b_status h1) binlogIsRunning then h1
         else h1\<lparr>b_status := b_status h1 OR binlogIsRunning, b_starting := b_starting h1 + 1\<rparr>)"

definition start_pass :: "int \<Rightarrow> Binlog \<Rightarrow> Binlog go" where
  "start_pass waited h =
     (if lastBinFile h = [] then (if waited > 3 then Panic ExplicitPanic else Ret h)
      else let startPos = \<lparr>pos_Name = lastBinFile h, pos_Pos = lastPos h\<rparr>
           in if b_handlers h = [] then Block
              else Ret (h\<lparr>b_starting := b_starting h - 1, b_runs := b_runs h @ [startPos]\<rparr>))"

definition run_fails :: "Binlog \<Rightarrow> Binlog" where
  "run_fails h = h\<lparr>b_status := b_status h XOR binlogIsRunning\<rparr>"

text \<open>What \<open>lookStopService\<close> does with a signal; \<open>reports\<close> are the positions the
  library's \<open>Close\<close> hands to \<open>OnPosSynced\<close> before it returns.\<close>

definition lookStop_turn ::
  "(CanalConfig \<Rightarrow> bool) \<Rightarrow> DatabaseConfig option \<Rightarrow> Position list \<Rightarrow> bool \<Rightarrow> Binlog \<Rightarrow> Binlog go" where
  "lookStop_turn NewCanal database reports exit h =
     go_bind (if has_flag (b_status h) binlogIsRunning \<and> \<not> exit
              then go_bind (each OnPosSynced reports (h\<lparr>b_locked := True\<rparr>)) (\<lambda>h1.
                     go_bind (setHandler NewCanal database h1) (\<lambda>h2. Ret (h2\<lparr>b_locked := False\<rparr>)))
              else Ret h) (\<lambda>h3.
     go_bind (if exit
              then go_bind (saveBinlogPositionCache
                       (packPos (lastBinFile h3) (ucast (lastPos h3)) (EventIndex h3)) h3) (\<lambda>h4.
                     Ret (if has_flag (b_status h4) cacheHandlerIsOpened
                          then h4\<lparr>b_status := b_status h4 XOR cacheHandlerIsOpened\<rparr> else h4))
              else Ret h3) (\<lambda>h5.
       Ret (if has_flag (b_status h5) binlogIsRunning
            then h5\<lparr>b_status := b_status h5 XOR binlogIsRunning\<rparr> else h5)))"

text \<open>The part of \<open>Close\<close> before it waits for the goroutines.\<close>

definition binlog_Close :: "Binlog \<Rightarrow> Binlog go" where
  "binlog_Close h =
     (if has_flag (b_status h) binlogIsExit then Ret h
      else StopService True (h\<lparr>b_status := b_status h OR binlogIsExit\<rparr>))"

section \<open>Saving and resuming\<close>

lemma ucast_32_64 [simp]: "ucast (ucast p :: int64) = p" for p :: "32 word"
  by (rule bit_word_eqI) (simp add: bit_simps)

lemma ucast_positive: "0 <s (ucast p :: int64) \<longleftrightarrow> 0 < p" for p :: "32 word"
proof -
  have lt: "uint p < 2 ^ 32" using unsigned_less [of p] by simp
  then have "uint (ucast p :: int64) = uint p" by (simp add: unsigned_ucast_eq take_bit_int_eq_self)
  moreover have "signed_take_bit 63 (uint p) = uint p"
    using lt order_trans [OF _ uint_ge_0 [of p], of "- (2 ^ 63)"]
    by (intro signed_take_bit_int_eq_self) simp_all
  with calculation have "sint (ucast p :: int64) = uint (ucast p :: int64)" by (simp add: sint_uint)
  ultimately show ?thesis by (simp add: word_sless_alt word_less_def)
qed

lemma NewBinlog_cache:
  assumes "read_cache file = Ret (f, p, i)" and "NewCanal (canal_config db)"
  shows "NewBinlog file True NewCanal (Some db) (Some cur) =
    (let (f', p') = start_position f p cur in
     Ret ((new_binlog file)\<lparr>b_status := cacheHandlerIsOpened, EventIndex := i, b_handlers := [canal_config db],
       lastBinFile := f', lastPos := p'\<rparr>))"
  using assms
  by (simp add: NewBinlog_def handlerInit_def getBinlogPositionCache_def setHandler_def Let_def
      new_binlog_def binlog_flags flag_simps split: prod.split)

lemma save_open:
  assumes "\<not> b_locked h" and "\<not> has_flag (b_status h) binlogIsExit" and "has_flag (b_status h) cacheHandlerIsOpened"
  shows "saveBinlogPositionCache r h =
    Ret (h\<lparr>b_cache := write_at_0 r (b_cache h), b_synced := b_synced h @ [r]\<rparr>)"
  using assms by (simp add: saveBinlogPositionCache_def)

text \<open>
  C20. Replication resumes where it was: once \<open>OnPosSynced\<close> has recorded a position, a
  process that starts on the cache file it leaves takes up that binlog file, that position
  and the event counter; only a position beyond the master's end of the same file is cut down
  to the master's.
\<close>

theorem restart_resumes_at_synced_position:
  assumes "\<not> b_locked h" and "\<not> has_flag (b_status h) binlogIsExit" and "has_flag (b_status h) cacheHandlerIsOpened"
    and "pos_Name p \<noteq> []" and "length (pos_Name p) \<le> 494" and "0 < pos_Pos p" and "NewCanal (canal_config db)"
  shows "\<exists>h' h2. OnPosSynced p h = Ret h' \<and> NewBinlog (b_cache h') True NewCanal (Some db) (Some cur) = Ret h2 \<and>
    lastBinFile h2 = pos_Name p \<and> EventIndex h2 = EventIndex h \<and>
    lastPos h2 = (if pos_Name p = pos_Name cur then min (pos_Pos p) (pos_Pos cur) else pos_Pos p)"
proof -
  let ?r = "packPos (pos_Name p) (ucast (pos_Pos p)) (EventIndex h)"
  have "read_cache (write_at_0 ?r (b_cache h)) = Ret (pos_Name p, ucast (pos_Pos p), EventIndex h)"
    by (rule read_cache_write) (rule assms(5))
  note new = NewBinlog_cache [where NewCanal = NewCanal and db = db, OF this assms(7), of cur]
  have "start_position (pos_Name p) (ucast (pos_Pos p)) cur =
      (pos_Name p, if pos_Name p = pos_Name cur then min (pos_Pos p) (pos_Pos cur) else pos_Pos p)"
    using assms(4,6) by (auto simp: start_position_def ucast_positive Let_def min_def)
  then show ?thesis
    using new by (simp add: OnPosSynced_def save_open [OF assms(1-3)] Let_def)
qed

definition demo_db :: DatabaseConfig where
  "demo_db = \<lparr>db_Host = ''127.0.0.1'', db_Port = 3306, db_User = ''root'', db_Password = [], db_Charset = ''utf8'',
     db_ServerID = 1, db_Flavor = ''mysql'', db_HeartbeatPeriod = 0, db_ReadTimeout = 0, db_BinlogFile = [], db_BinlogPos = 0\<rparr>"

definition demo_binlog :: Binlog where
  "demo_binlog = (new_binlog [])\<lparr>b_status := cacheHandlerIsOpened OR binlogIsRunning, EventIndex := 7,
     b_handlers := [canal_config demo_db]\<rparr>"

lemma demo_binlog_flags [simp]:
  "has_flag (b_status demo_binlog) binlogIsRunning" "\<not> has_flag (b_status demo_binlog) binlogIsExit"
  "has_flag (b_status demo_binlog) cacheHandlerIsOpened" "\<not> b_locked demo_binlog" "b_handlers demo_binlog \<noteq> []"
  by (simp_all add: demo_binlog_def binlog_flags flag_simps new_binlog_def)

theorem restart_resumes_at_synced_position_witness:
  "\<exists>h' h2. OnPosSynced \<lparr>pos_Name = ''bin.1'', pos_Pos = 500\<rparr> demo_binlog = Ret h' \<and>
    NewBinlog (b_cache h') True (\<lambda>_. True) (Some demo_db) (Some \<lparr>pos_Name = ''bin.2'', pos_Pos = 4\<rparr>) = Ret h2 \<and>
    lastBinFile h2 = ''bin.1'' \<and> EventIndex h2 = EventIndex demo_binlog \<and> lastPos h2 = 500"
  using restart_resumes_at_synced_position [of demo_binlog "\<lparr>pos_Name = ''bin.1'', pos_Pos = 500\<rparr>"
      "\<lambda>_. True" demo_db "\<lparr>pos_Name = ''bin.2'', pos_Pos = 4\<rparr>"]
  by simp

text \<open>What a record does to a component that has been initialised and not been closed.\<close>

definition binlog_open :: "Binlog \<Rightarrow> bool" where
  "binlog_open h \<longleftrightarrow>
     \<not> b_locked h \<and> \<not> has_flag (b_status h) binlogIsExit \<and> has_flag (b_status h) cacheHandlerIsOpened \<and> b_handlers h \<noteq> []"

definition adopt :: "string \<times> int64 \<times> int64 \<Rightarrow> Binlog \<Rightarrow> Binlog" where
  "adopt r h = (case r of (f, p, i) \<Rightarrow>
     h\<lparr>lastBinFile := f, lastPos := ucast p, EventIndex := i,
       b_cache := write_at_0 (packPos f p i) (b_cache h), b_synced := b_synced h @ [packPos f p i]\<rparr>)"

lemma binlog_open_adopt [simp]: "binlog_open (adopt r h) = binlog_open h"
  by (simp add: binlog_open_def adopt_def split: prod.split)

lemma SaveBinlogPosition_adopt:
  assumes "binlog_open h" and "length f \<le> 494"
  shows "SaveBinlogPosition (packPos f p i) h = Ret (adopt (f, p, i) h)"
proof -
  have "unpackPos (packPos f p i) = Ret (f, p, i)"
    using unpackPos_packPos [of f p i "[]"] assms(2) by simp
  then show ?thesis
    using assms(1) by (simp add: SaveBinlogPosition_def saveBinlogPositionCache_def binlog_open_def adopt_def)
qed

text \<open>
  The position is not saved on exit: \<open>Close\<close> sets the exit flag before it sends the stop
  signal, and the save that \<open>lookStopService\<close> makes for that signal returns at once because
  of this very flag. The file keeps what it had.
\<close>

theorem exit_does_not_save_position:
  assumes "\<not> b_locked h" and "\<not> has_flag (b_status h) binlogIsExit" and "stopServiceChan h = []"
  shows "\<exists>h1 h2. binlog_Close h = Ret h1 \<and> stopServiceChan h1 = [True] \<and>
    lookStop_turn NewCanal database reports True h1 = Ret h2 \<and> b_cache h2 = b_cache h \<and> b_synced h2 = b_synced h"
proof -
  define h1 where "h1 = h\<lparr>b_status := b_status h OR binlogIsExit, stopServiceChan := [True]\<rparr>"
  have "binlog_Close h = Ret h1"
    using assms by (simp add: binlog_Close_def StopService_def h1_def chan_cap_def)
  moreover have "has_flag (b_status h1) binlogIsExit" by (simp add: h1_def binlog_flags flag_simps)
  ultimately show ?thesis
    using assms(1) by (auto simp: lookStop_turn_def saveBinlogPositionCache_def h1_def)
qed

theorem exit_does_not_save_position_witness:
  "\<exists>h1 h2. binlog_Close (demo_binlog\<lparr>lastBinFile := ''bin.3''\<rparr>) = Ret h1 \<and> stopServiceChan h1 = [True] \<and>
    lookStop_turn (\<lambda>_. True) (Some demo_db) [] True h1 = Ret h2 \<and> b_cache h2 = b_cache (demo_binlog\<lparr>lastBinFile := ''bin.3''\<rparr>) \<and>
    b_synced h2 = b_synced (demo_binlog\<lparr>lastBinFile := ''bin.3''\<rparr>)"
  by (rule exit_does_not_save_position) (simp_all add: demo_binlog_def new_binlog_def binlog_flags flag_simps)


section \<open>Stopping\<close>

text \<open>
  Losing the leadership can hang the process: if the library's \<open>Close\<close> reports a last
  position through \<open>OnPosSynced\<close>, the goroutine that stops replication waits for
  \<open>statusLock\<close>, which it holds itself. If it reports none, the stop goes through and a fresh
  handler is in place.
\<close>

theorem stop_deadlocks_on_reported_position:
  assumes "\<not> b_locked h" and "has_flag (b_status h) binlogIsRunning" and "NewCanal (canal_config db)"
  shows "lookStop_turn NewCanal (Some db) reports False h =
    (if reports = [] then Ret (h\<lparr>b_status := b_status h XOR binlogIsRunning, b_handlers := b_handlers h @ [canal_config db]\<rparr>)
     else Block)"
proof (cases reports)
  case Nil
  have "h\<lparr>b_locked := False\<rparr> = h" using assms(1) by (cases h) simp
  then have "h\<lparr>b_locked := False, b_handlers := b_handlers h @ [canal_config db]\<rparr> = h\<lparr>b_handlers := b_handlers h @ [canal_config db]\<rparr>"
    by (cases h) simp
  with Nil assms show ?thesis by (cases h) (simp add: lookStop_turn_def setHandler_def)
next
  case (Cons p ps)
  with assms show ?thesis
    by (simp add: lookStop_turn_def OnPosSynced_def saveBinlogPositionCache_def Let_def)
qed

theorem stop_deadlocks_on_reported_position_witness:
  "lookStop_turn (\<lambda>_. True) (Some demo_db) [\<lparr>pos_Name = ''bin.1'', pos_Pos = 9\<rparr>] False demo_binlog = Block"
  by (subst stop_deadlocks_on_reported_position) simp_all

text \<open>
  A stopped replication that ends with an error cannot be started again: stopping clears
  the running flag, and the end of the replication goroutine toggles it instead of clearing
  it. The flag is set again with nothing running, and every later start is ignored.
\<close>

theorem stop_then_error_wedges:
  assumes "\<not> b_locked h" and "has_flag (b_status h) binlogIsRunning" and "NewCanal (canal_config db)"
  shows "\<exists>h1. lookStop_turn NewCanal (Some db) [] False h = Ret h1 \<and> \<not> has_flag (b_status h1) binlogIsRunning \<and>
    has_flag (b_status (run_fails h1)) binlogIsRunning \<and>
    b_starting (lookStart_turn (run_fails h1)) = b_starting h \<and>
    b_status (lookStart_turn (run_fails h1)) = b_status (run_fails h1)"
proof -
  define h1 where "h1 = h\<lparr>b_status := b_status h XOR binlogIsRunning, b_handlers := b_handlers h @ [canal_config db]\<rparr>"
  have "lookStop_turn NewCanal (Some db) [] False h = Ret h1"
    using assms by (cases h) (simp add: h1_def lookStop_turn_def setHandler_def)
  moreover have "has_flag (b_status (run_fails h1)) binlogIsRunning" "\<not> has_flag (b_status h1) binlogIsRunning"
    using assms(2) by (simp_all add: h1_def run_fails_def binlog_flags flag_simps)
  ultimately show ?thesis by (simp add: lookStart_turn_def Let_def) (simp add: run_fails_def h1_def)
qed

theorem stop_then_error_wedges_witness:
  "\<exists>h1. lookStop_turn (\<lambda>_. True) (Some demo_db) [] False demo_binlog = Ret h1 \<and> \<not> has_flag (b_status h1) binlogIsRunning \<and>
    has_flag (b_status (run_fails h1)) binlogIsRunning \<and>
    b_starting (lookStart_turn (run_fails h1)) = b_starting demo_binlog \<and>
    b_status (lookStart_turn (run_fails h1)) = b_status (run_fails h1)"
  by (rule stop_then_error_wedges) simp_all

text \<open>A start signal in an idle component runs replication from the component's position; with
  no binlog file for more than three seconds the process ends.\<close>

lemma start_runs:
  assumes "binlog_open h" and "\<not> has_flag (b_status h) binlogIsRunning" and "lastBinFile h \<noteq> []"
  shows "\<exists>h'. start_pass waited (lookStart_turn h) = Ret h' \<and> has_flag (b_status h') binlogIsRunning \<and>
    b_runs h' = b_runs h @ [\<lparr>pos_Name = lastBinFile h, pos_Pos = lastPos h\<rparr>]"
  using assms by (simp add: lookStart_turn_def start_pass_def binlog_open_def Let_def binlog_flags flag_simps)

lemma start_without_file: "lastBinFile h = [] \<Longrightarrow> 3 < waited \<Longrightarrow> start_pass waited h = Panic ExplicitPanic"
  by (simp add: start_pass_def)

section \<open>The events of a change\<close>

text \<open>The map of a row does not depend on what a previous row with the same columns left in
  it.\<close>

lemma fill_row_overwrites:
  assumes "\<forall>x. x \<notin> col_Name ` set cols \<longrightarrow> m x = m' x"
  shows "fill_row sp row k cols m = fill_row sp row k cols m'"
  using assms
proof (induction cols arbitrary: k m m')
  case Nil
  then have "m = m'" by (auto simp: fun_eq_iff)
  then show ?case by simp
next
  case (Cons col cols)
  have step: "\<forall>x. x \<notin> col_Name ` set cols \<longrightarrow> (m(col_Name col \<mapsto> v)) x = (m'(col_Name col \<mapsto> v)) x" for v
    using Cons.prems by auto
  have "fill_row sp row (Suc k) cols (m(col_Name col \<mapsto> v)) = fill_row sp row (Suc k) cols (m'(col_Name col \<mapsto> v))" for v
    by (rule Cons.IH) (rule step)
  then show ?case by (simp only: fill_row.simps)
qed

lemma fill_row_dom:
  "fill_row sp row k cols m = Ret m' \<Longrightarrow> x \<notin> col_Name ` set cols \<Longrightarrow> m' x = m x"
proof (induction cols arbitrary: k m)
  case (Cons col cols)
  from Cons.prems(1) obtain v where "fill_row sp row (Suc k) cols (m(col_Name col \<mapsto> v)) = Ret m'"
    by (auto split: if_splits elim: go_bind_RetE)
  from Cons.IH [OF this] Cons.prems(2) show ?case by simp
qed simp

text \<open>The event of the row at index \<open>j\<close>.\<close>

definition row_event :: "int64 \<Rightarrow> ('f, 'd) RowsEvent \<Rightarrow> int64 \<Rightarrow> nat \<Rightarrow> ('f, 'd) event_data \<Rightarrow> ('f, 'd) rowData" where
  "row_event now e base j d =
     \<lparr>rd_database = e_Schema e, rd_event_type = e_Action e, rd_time = now, rd_table = e_Name e,
      rd_event_index = base + of_nat (Suc j), rd_event = d\<rparr>"

definition event_table :: "('f, 'd) RowsEvent \<Rightarrow> string" where
  "event_table e = e_Schema e @ ''.'' @ e_Name e"

lemma notify_ok:
  "Marshal (row_event now e base j d) = Inl js \<Longrightarrow>
     notify Marshal (row_event now e base j d) h = h\<lparr>b_out := b_out h @ [(event_table e, js)]\<rparr>"
  by (simp add: notify_def event_table_def row_event_def)

lemma plain_rows_events:
  assumes "\<forall>r \<in> set rows. fill_row sp r 0 (e_Columns e) (\<lambda>_. None) = Ret (val r)" and "\<forall>d. Marshal d = Inl (js d)"
    and "\<forall>x. x \<notin> col_Name ` set (e_Columns e) \<longrightarrow> data x = None"
  shows "plain_rows sp now Marshal e rows data h =
    Ret (h\<lparr>EventIndex := EventIndex h + of_nat (length rows),
           b_out := b_out h @ map (\<lambda>(j, r). (event_table e, js (row_event now e (EventIndex h) j (Row (val r)))))
             (zip [0..<length rows] rows)\<rparr>)"
  using assms(1,3)
proof (induction rows arbitrary: data h)
  case Nil
  then show ?case by simp
next
  case (Cons row rows)
  have "fill_row sp row 0 (e_Columns e) data = fill_row sp row 0 (e_Columns e) (\<lambda>_. None)"
    by (rule fill_row_overwrites) (use Cons.prems(2) in simp)
  also have "\<dots> = Ret (val row)" using Cons.prems(1) by simp
  finally have fill: "fill_row sp row 0 (e_Columns e) data = Ret (val row)" .
  have "\<forall>x. x \<notin> col_Name ` set (e_Columns e) \<longrightarrow> val row x = None"
    using fill_row_dom [OF fill] Cons.prems(2) by simp
  note IH = Cons.IH [OF _ this]
  define h1 where "h1 = h\<lparr>EventIndex := EventIndex h + 1,
    b_out := b_out h @ [(event_table e, js (row_event now e (EventIndex h) 0 (Row (val row))))]\<rparr>"
  have "plain_rows sp now Marshal e (row # rows) data h = plain_rows sp now Marshal e rows (val row) h1"
    using fill notify_ok [of Marshal now e "EventIndex h" 0 "Row (val row)"] assms(2)
    by (simp add: Let_def h1_def row_event_def)
  moreover have "row_event now e (EventIndex h + 1) j d = row_event now e (EventIndex h) (Suc j) d" for j d
    by (simp add: row_event_def)
  moreover have "zip [0..<length (row # rows)] (row # rows) =
      (0, row) # map (\<lambda>(j, r). (Suc j, r)) (zip [0..<length rows] rows)"
    by (simp add: upt_conv_Cons map_Suc_upt [symmetric] zip_map1 del: upt_Suc)
  ultimately show ?case
    using IH [of h1] Cons.prems(1) by (simp add: h1_def case_prod_beta comp_def)
qed

text \<open>
  C21. An insert or delete of \<open>n\<close> rows is published as \<open>n\<close> events, in order, numbered
  consecutively from the counter, each with exactly the decoded columns of its own row (the
  map the rows share leaks nothing from one event into the next), under the table's
  qualified name; and the counter advances by \<open>n\<close>.
\<close>

theorem OnRow_publishes_each_row:
  assumes "\<not> has_flag (b_status h) binlogIsExit" and "e_Action e \<noteq> ''update''"
    and "\<forall>r \<in> set (e_Rows e). fill_row sp r 0 (e_Columns e) (\<lambda>_. None) = Ret (val r)"
    and "\<forall>d. Marshal d = Inl (js d)"
  shows "OnRow sp now Marshal e h =
    Ret (h\<lparr>EventIndex := EventIndex h + of_nat (length (e_Rows e)),
           b_out := b_out h @ map (\<lambda>(j, r). (event_table e, js (row_event now e (EventIndex h) j (Row (val r)))))
             (zip [0..<length (e_Rows e)] (e_Rows e))\<rparr>)"
  using assms(1,2) plain_rows_events [OF assms(3,4), of "\<lambda>_. None" now h] by (simp add: OnRow_def)

definition demo_insert :: "(unit, unit) RowsEvent" where
  "demo_insert = \<lparr>e_Schema = ''db'', e_Name = ''t'', e_Columns = [demo_col ''varchar(9)'' False],
     e_Action = ''insert'', e_Rows = [[VString ''a''], [VString ''b'']]\<rparr>"

theorem OnRow_publishes_each_row_witness:
  "\<exists>h'. OnRow 0 9 (\<lambda>d. Inl [ucast (rd_event_index d)]) demo_insert demo_binlog = Ret h' \<and>
    b_out h' = [(''db.t'', [8]), (''db.t'', [9])] \<and> EventIndex h' = 9"
proof -
  let ?val = "\<lambda>r :: (unit, unit) edata list. [''c'' \<mapsto> hd r]"
  have "\<forall>r \<in> set (e_Rows demo_insert). fill_row 0 r 0 (e_Columns demo_insert) (\<lambda>_. None) = Ret (?val r)"
    by (simp add: demo_insert_def fieldDecode_def demo_col_def)
  from OnRow_publishes_each_row [OF _ _ this, of demo_binlog "\<lambda>d. Inl [ucast (rd_event_index d)]"
      "\<lambda>d. [ucast (rd_event_index d)]" 9]
  show ?thesis
    by (simp add: demo_insert_def event_table_def row_event_def)
      (simp add: demo_binlog_def new_binlog_def upt_rec)
qed

text \<open>Updates come in pairs of rows; the last one of an odd number panics.\<close>

lemma update_rows_odd:
  assumes "odd (length rows)" and "\<forall>r \<in> set rows. \<exists>m. fill_row sp r 0 (e_Columns e) (\<lambda>_. None) = Ret m"
  shows "update_rows sp now Marshal e rows h = Panic IndexOutOfRange"
  using assms
proof (induction sp now Marshal e rows h rule: update_rows.induct)
  case (2 sp now Marshal e old h)
  then show ?case by auto
next
  case (3 sp now Marshal e old new rows h)
  from "3.prems"(2) obtain a b where "fill_row sp old 0 (e_Columns e) (\<lambda>_. None) = Ret a"
    "fill_row sp new 0 (e_Columns e) (\<lambda>_. None) = Ret b" by auto
  with 3 show ?case by (simp add: Let_def)
qed simp

lemma update_rows_events:
  assumes "\<forall>(old, new) \<in> set ps. fill_row sp old 0 (e_Columns e) (\<lambda>_. None) = Ret (val old) \<and>
      fill_row sp new 0 (e_Columns e) (\<lambda>_. None) = Ret (val new)"
    and "\<forall>d. Marshal d = Inl (js d)"
  shows "update_rows sp now Marshal e (concat (map (\<lambda>(old, new). [old, new]) ps)) h =
    Ret (h\<lparr>EventIndex := EventIndex h + of_nat (length ps),
           b_out := b_out h @ map (\<lambda>(j, old, new). (event_table e,
               js (row_event now e (EventIndex h) j (Update (val old) (val new)))))
             (zip [0..<length ps] ps)\<rparr>)"
  using assms(1)
proof (induction ps arbitrary: h)
  case Nil
  then show ?case by simp
next
  case (Cons p ps)
  obtain old new where p: "p = (old, new)" by (cases p)
  define h1 where "h1 = h\<lparr>EventIndex := EventIndex h + 1,
    b_out := b_out h @ [(event_table e, js (row_event now e (EventIndex h) 0 (Update (val old) (val new))))]\<rparr>"
  have step: "update_rows sp now Marshal e (concat (map (\<lambda>(old, new). [old, new]) (p # ps))) h =
      update_rows sp now Marshal e (concat (map (\<lambda>(old, new). [old, new]) ps)) h1"
    using Cons.prems notify_ok [of Marshal now e "EventIndex h" 0 "Update (val old) (val new)"] assms(2)
    by (simp add: Let_def h1_def row_event_def p)
  have IH: "update_rows sp now Marshal e (concat (map (\<lambda>(old, new). [old, new]) ps)) h1 =
    Ret (h1\<lparr>EventIndex := EventIndex h1 + of_nat (length ps),
           b_out := b_out h1 @ map (\<lambda>(j, old, new). (event_table e,
               js (row_event now e (EventIndex h1) j (Update (val old) (val new)))))
             (zip [0..<length ps] ps)\<rparr>)"
    by (rule Cons.IH) (use Cons.prems in simp)
  have shift: "row_event now e (EventIndex h + 1) j d = row_event now e (EventIndex h) (Suc j) d" for j d
    by (simp add: row_event_def)
  have zip: "zip [0..<length (p # ps)] (p # ps) = (0, p) # map (\<lambda>(j, r). (Suc j, r)) (zip [0..<length ps] ps)"
    by (simp add: upt_conv_Cons map_Suc_upt [symmetric] zip_map1 del: upt_Suc)
  show ?case
    unfolding step IH zip by (simp add: h1_def shift case_prod_beta comp_def p)
qed

text \<open>
  C22. An update is published as one event per pair of rows, with the columns before and after,
  numbered consecutively, in order; the counter advances by the number of pairs.
\<close>

theorem OnRow_publishes_each_update:
  assumes "\<not> has_flag (b_status h) binlogIsExit" and "e_Action e = ''update''"
    and "e_Rows e = concat (map (\<lambda>(old, new). [old, new]) ps)"
    and "\<forall>(old, new) \<in> set ps. fill_row sp old 0 (e_Columns e) (\<lambda>_. None) = Ret (val old) \<and>
      fill_row sp new 0 (e_Columns e) (\<lambda>_. None) = Ret (val new)"
    and "\<forall>d. Marshal d = Inl (js d)"
  shows "OnRow sp now Marshal e h =
    Ret (h\<lparr>EventIndex := EventIndex h + of_nat (length ps),
           b_out := b_out h @ map (\<lambda>(j, old, new). (event_table e,
               js (row_event now e (EventIndex h) j (Update (val old) (val new)))))
             (zip [0..<length ps] ps)\<rparr>)"
  using update_rows_events [OF assms(4,5), of now h] by (simp only: OnRow_def assms(1-3) if_False if_True refl)

theorem OnRow_publishes_each_update_witness:
  "\<exists>h'. OnRow 0 9 (\<lambda>d. Inl [ucast (rd_event_index d)]) (demo_insert\<lparr>e_Action := ''update''\<rparr>) demo_binlog = Ret h' \<and>
    b_out h' = [(''db.t'', [8])] \<and> EventIndex h' = 8"
proof -
  let ?e = "demo_insert\<lparr>e_Action := ''update''\<rparr>" and ?ps = "[([VString ''a''], [VString ''b''])]"
  let ?val = "\<lambda>r :: (unit, unit) edata list. [''c'' \<mapsto> hd r]"
  have "\<forall>(old, new) \<in> set ?ps. fill_row 0 old 0 (e_Columns ?e) (\<lambda>_. None) = Ret (?val old) \<and>
      fill_row 0 new 0 (e_Columns ?e) (\<lambda>_. None) = Ret (?val new)"
    by (simp add: demo_insert_def fieldDecode_def demo_col_def)
  from OnRow_publishes_each_update [OF _ _ _ this, of demo_binlog "\<lambda>d. Inl [ucast (rd_event_index d)]"
      "\<lambda>d. [ucast (rd_event_index d)]" 9]
  show ?thesis
    by (simp add: demo_insert_def event_table_def row_event_def) (simp add: demo_binlog_def new_binlog_def)
qed

end
