(* ===== verification/Node.thy ===== *)
theory Node
  imports Agent_Service Tcp_Service Binlog_State
begin

text \<open>
  A whole node as \<^verbatim>\<open>src/main.go\<close> puts it together: the binlog component publishes to the
  TCP service of the node and, through the agent, to the other members; what the agent's
  client receives goes to the TCP service (events) and to the binlog component (positions);
  the election starts and stops replication. The state of a node is its agent, with the
  binlog component and the TCP service as the state its callbacks act on. A component that
  only records the calls it makes (\<open>b_synced\<close>, \<open>b_out\<close>) is completed here by the calls.
\<close>

section \<open>Wiring\<close>

type_synonym 'c world = "Binlog \<times> 'c tcp_service"
type_synonym 'c node = "'c world agent_service"

definition world :: "'c node \<Rightarrow> 'c world" where
  "world nd = x_st (ag_client nd)"

definition put_world :: "'c world \<Rightarrow> 'c node \<Rightarrow> 'c node" where
  "put_world w nd = nd\<lparr>ag_client := (ag_client nd)\<lparr>x_st := w\<rparr>\<rparr>"

lemma world_simps [simp]:
  "sService (put_world w nd) = sService nd"
  "world (put_world w nd) = w" "enable (put_world w nd) = enable nd" "ag_server (put_world w nd) = ag_server nd"
  "world (nd\<lparr>ag_server := s\<rparr>) = world nd" "put_world (world nd) nd = nd" "put_world w (put_world v nd) = put_world w nd"
  by (simp_all add: world_def put_world_def)

text \<open>The callbacks given to the agent. One that does not return has changed nothing.\<close>

definition save_cb :: "bytes \<Rightarrow> 'c world call" where
  "save_cb r w =
     (case SaveBinlogPosition r (fst w) of
        Ret h \<Rightarrow> ((h, snd w), Ret ()) | Panic p \<Rightarrow> (w, Panic p) | Block \<Rightarrow> (w, Block))"

definition sendAll_cb :: "matcher \<Rightarrow> string \<Rightarrow> bytes \<Rightarrow> 'c world call" where
  "sendAll_cb m table data w =
     (case SendAll m table data (snd w) of
        Ret (t, _) \<Rightarrow> ((fst w, t), Ret ()) | Panic p \<Rightarrow> (w, Panic p) | Block \<Rightarrow> (w, Block))"

definition sendRaw_cb :: "bytes \<Rightarrow> 'c world call" where
  "sendRaw_cb msg w =
     (case SendRaw msg (snd w) of
        Ret (t, _) \<Rightarrow> ((fst w, t), Ret ()) | Panic p \<Rightarrow> (w, Panic p) | Block \<Rightarrow> (w, Block))"

definition leader_cb :: "bool \<Rightarrow> 'c world call" where
  "leader_cb b w =
     (case OnLeader b (fst w) of
        Ret h \<Rightarrow> ((h, snd w), Ret ()) | Panic p \<Rightarrow> (w, Panic p) | Block \<Rightarrow> (w, Block))"

text \<open>The callbacks given to the binlog component, and the component's operations with them.\<close>

definition pos_change :: "bytes \<Rightarrow> 'c node \<Rightarrow> 'c node go" where
  "pos_change data nd = (let packData = Pack agent_CMD_POS data in Sync packData nd)"

definition event_change :: "bytes \<Rightarrow> 'c node \<Rightarrow> 'c node go" where
  "event_change data nd = (let packData = Pack agent_CMD_EVENT data in Sync packData nd)"

definition node_synced :: "nat \<Rightarrow> 'c node \<Rightarrow> 'c node go" where
  "node_synced k nd = each pos_change (drop k (b_synced (fst (world nd)))) nd"

definition node_OnPosSynced :: "Position \<Rightarrow> 'c node \<Rightarrow> 'c node go" where
  "node_OnPosSynced p nd =
     (let (h, t) = world nd
      in go_bind (OnPosSynced p h) (\<lambda>h'. node_synced (length (b_synced h)) (put_world (h', t) nd)))"

definition node_notify :: "matcher \<Rightarrow> string \<times> bytes \<Rightarrow> 'c node \<Rightarrow> 'c node go" where
  "node_notify m e nd =
     (let (h, t) = world nd
      in go_bind (SendAll m (fst e) (snd e) t) (\<lambda>(t', _). event_change (snd e) (put_world (h, t') nd)))"

definition node_OnRow ::
  "nat \<Rightarrow> int64 \<Rightarrow> ('f, 'd) marshal \<Rightarrow> matcher \<Rightarrow> ('f, 'd) RowsEvent \<Rightarrow> 'c node \<Rightarrow> 'c node go" where
  "node_OnRow sp now Marshal m e nd =
     (let (h, t) = world nd
      in go_bind (OnRow sp now Marshal e h) (\<lambda>h'.
           each (node_notify m) (drop (length (b_out h)) (b_out h')) (put_world (h', t) nd)))"

text \<open>A read of the agent's client; the positions it makes the node save are passed on to the
  members connected to this node.\<close>

definition node_read :: "growth \<Rightarrow> unmarshal \<Rightarrow> bytes option \<Rightarrow> 'c node \<Rightarrow> 'c node go" where
  "node_read grow um r nd =
     go_bind (agent_client_turn grow um r nd) (node_synced (length (b_synced (fst (world nd)))))"

text \<open>\<open>main\<close> up to \<open>agentServer.Start\<close>, on the configuration \<open>cfg\<close>, whose sections are
  pointers that are nil when the file lacks them; \<open>file\<close> is the position cache, \<open>opened\<close>
  whether it can be opened, \<open>master\<close> the master's position.\<close>

definition main_start ::
  "'c api \<Rightarrow> string \<Rightarrow> GlobalConfig \<Rightarrow> matcher \<Rightarrow> bytes \<Rightarrow> bool \<Rightarrow> (CanalConfig \<Rightarrow> bool) \<Rightarrow>
     Position option \<Rightarrow> 'c \<Rightarrow> ('c node \<times> 'c) go" where
  "main_start api hostname cfg m file opened NewCanal master c =
     go_bind (deref (cfg_Consul cfg)) (\<lambda>con.
     go_bind (NewTCPService api hostname (cfg_Listen cfg) (cc_Enabled con) (cc_Addr con) c) (\<lambda>tcpService.
     go_bind (deref (cfg_Agent cfg)) (\<lambda>agc.
     go_bind (NewAgentServer api (agc_Enabled agc) (agc_Listen agc) (agc_Lock agc) (new_binlog file, tcpService)
         (t_consul tcpService)) (\<lambda>(ag, c1).
       let ag1 = ag_OnRaw sendRaw_cb (ag_OnEvent (sendAll_cb m) ag)
       in go_bind (NewBinlog file opened NewCanal (cfg_Database cfg) master) (\<lambda>blog.
            let ag2 = ag_OnPos save_cb (put_world (blog, tcp_Start tcpService) ag1);
                (ag3, out) = ag_OnLeader leader_cb ag2
            in go_bind out (\<lambda>_. Ret (ag3, c1)))))))"

section \<open>Publishing to the members\<close>

definition room :: "nat \<Rightarrow> agent_srv \<Rightarrow> bool" where
  "room n s \<longleftrightarrow> agents_wf s \<and> distinct (vis (clients s)) \<and>
     (\<forall>a \<in> set (vis (clients s)). a_online s a \<and> length (an_queue (a_heap s a)) + n \<le> agentMaxSendQueue)"

definition queued :: "bytes \<Rightarrow> agent_srv \<Rightarrow> agent_srv" where
  "queued d s = s\<lparr>a_heap := \<lambda>b. if b \<in> set (vis (clients s))
      then (a_heap s b)\<lparr>an_queue := an_queue (a_heap s b) @ [Encode 1 d]\<rparr> else a_heap s b\<rparr>"

lemma queued_simps [simp]: "clients (queued d s) = clients s"
  by (simp add: queued_def)

lemma an_queue_queued:
  "a \<in> set (vis (clients s)) \<Longrightarrow> an_queue (a_heap (queued d s) a) = an_queue (a_heap s a) @ [Encode 1 d]"
  by (simp add: queued_def)

lemma Sync_queued:
  assumes "enable t" and "room (Suc n) (ag_server t)"
  shows "Sync d t = Ret (t\<lparr>ag_server := queued d (ag_server t)\<rparr>) \<and> room n (queued d (ag_server t))"
proof -
  let ?s = "ag_server t"
  have ok: "distinct (vis (clients ?s))" "\<forall>a \<in> set (vis (clients ?s)). a_online ?s a \<and>
      \<not> an_queue_closed (a_heap ?s a) \<and> length (an_queue (a_heap ?s a)) < agentMaxSendQueue"
    using assms(2) by (auto simp: room_def agents_wf_def agent_wf_def)
  have "Broadcast 1 d ?s = each (agent_AsyncSend 1 d) (vis (clients ?s)) ?s"
    unfolding Broadcast_def by (rule range_do_each) (rule AsyncSend_clients)
  also have "\<dots> = Ret (queued d ?s)" using ok by (simp add: each_AsyncSend queued_def)
  finally have "Sync d t = Ret (t\<lparr>ag_server := queued d ?s\<rparr>)" using assms(1) by (simp add: Sync_def)
  moreover have "room n (queued d ?s)"
    using assms(2) by (auto simp: room_def queued_def agents_wf_def agent_wf_def)
  ultimately show ?thesis by blast
qed

lemma Syncs_queued:
  assumes "enable t" and "room (length ds + n) (ag_server t)"
  shows "each Sync ds t = Ret (t\<lparr>ag_server := fold queued ds (ag_server t)\<rparr>) \<and>
    room n (fold queued ds (ag_server t))"
  using assms
proof (induction ds arbitrary: t)
  case Nil
  then show ?case by simp
next
  case (Cons d ds)
  note one = Sync_queued [OF Cons.prems(1), of "length ds + n" d]
  from Cons.prems(2) one have "Sync d t = Ret (t\<lparr>ag_server := queued d (ag_server t)\<rparr>)"
    and "room (length ds + n) (queued d (ag_server t))"
    by simp_all
  with Cons.IH [of "t\<lparr>ag_server := queued d (ag_server t)\<rparr>"] Cons.prems(1) show ?case by simp
qed

lemma clients_fold_queued [simp]: "clients (fold queued ds s) = clients s"
  by (induction ds arbitrary: s) simp_all

lemma an_queue_fold_queued:
  "a \<in> set (vis (clients s)) \<Longrightarrow>
     an_queue (a_heap (fold queued ds s) a) = an_queue (a_heap s a) @ map (Encode 1) ds"
  by (induction ds arbitrary: s) (simp_all add: an_queue_queued)


section \<open>Positions\<close>

definition pos_record :: "int64 \<Rightarrow> Position \<Rightarrow> string \<times> int64 \<times> int64" where
  "pos_record i p = (pos_Name p, ucast (pos_Pos p), i)"

definition pack_record :: "string \<times> int64 \<times> int64 \<Rightarrow> bytes" where
  "pack_record r = (case r of (f, p, i) \<Rightarrow> packPos f p i)"

lemma length_pack_record: "length (pack_record r) = length (fst r) + 18"
  by (simp add: pack_record_def packPos_def Let_def split: prod.split)

lemma OnPosSynced_adopt:
  "binlog_open h \<Longrightarrow> OnPosSynced p h = Ret (adopt (pos_record (EventIndex h) p) h)"
  by (simp add: OnPosSynced_def binlog_open_def saveBinlogPositionCache_def adopt_def pos_record_def Let_def)

lemma EventIndex_adopt [simp]: "EventIndex (adopt (pos_record (EventIndex h) p) h) = EventIndex h"
  by (simp add: adopt_def pos_record_def)

lemma b_synced_adopt [simp]: "b_synced (adopt r h) = b_synced h @ [pack_record r]"
  by (simp add: adopt_def pack_record_def split: prod.split)

text \<open>A leader that reaches a position saves it and queues it for every member.\<close>

lemma node_OnPosSynced_queued:
  fixes p :: Position
  assumes "enable nd" and "binlog_open h" and "world nd = (h, t)" and "room (Suc n) (ag_server nd)"
  defines "r \<equiv> pos_record (EventIndex h) p"
  shows "node_OnPosSynced p nd =
    Ret ((put_world (adopt r h, t) nd)\<lparr>ag_server := queued (Pack agent_CMD_POS (pack_record r)) (ag_server nd)\<rparr>) \<and>
    room n (queued (Pack agent_CMD_POS (pack_record r)) (ag_server nd))"
  using assms(1-4) Sync_queued [of "put_world (adopt r h, t) nd" n "Pack agent_CMD_POS (pack_record r)"]
  by (simp add: node_OnPosSynced_def OnPosSynced_adopt node_synced_def pos_change_def r_def)

lemma leader_positions:
  assumes "enable nd" and "binlog_open h" and "world nd = (h, t)" and "room (length ps) (ag_server nd)"
  shows "\<exists>nd'. each node_OnPosSynced ps nd = Ret nd' \<and>
    world nd' = (fold adopt (map (pos_record (EventIndex h)) ps) h, t) \<and>
    ag_server nd' = fold queued (map (\<lambda>p. Pack agent_CMD_POS (pack_record (pos_record (EventIndex h) p))) ps) (ag_server nd) \<and>
    sService nd' = sService nd \<and> enable nd' \<and> room 0 (ag_server nd')"
  using assms
proof (induction ps arbitrary: nd h)
  case Nil
  then show ?case by simp
next
  case (Cons p ps)
  let ?r = "pos_record (EventIndex h) p"
  let ?q = "queued (Pack agent_CMD_POS (pack_record ?r)) (ag_server nd)"
  let ?nd = "(put_world (adopt ?r h, t) nd)\<lparr>ag_server := ?q\<rparr>"
  have "node_OnPosSynced p nd = Ret ?nd" and "room (length ps) ?q"
    using node_OnPosSynced_queued [OF Cons.prems(1-3), of "length ps" p] Cons.prems(4) by simp_all
  with Cons.IH [of ?nd "adopt ?r h"] Cons.prems(1,2) show ?case by simp
qed

text \<open>What the callbacks of a follower do with the leader's records.\<close>

lemma calls_one [simp]: "calls [f] w = f w"
  by (cases "f w") (auto split: go.splits)

lemma follower_adopts:
  fixes rs :: "(string \<times> int64 \<times> int64) list"
  assumes "binlog_open h" and "\<forall>r \<in> set rs. length (fst r) \<le> 494" and "ps = [save_cb]"
  defines "ds \<equiv> map (\<lambda>r. Pack agent_CMD_POS (pack_record r)) rs"
  shows "cb_run (onClientMessage um ev ps) (h, t) ds = (fold adopt rs h, t) \<and>
    cb_ok (onClientMessage um ev ps) (h, t) ds"
  using assms(1,2) unfolding ds_def
proof (induction rs arbitrary: h)
  case Nil
  then show ?case by (simp add: cb_run_def)
next
  case (Cons r rs)
  obtain f p i where r: "r = (f, p, i)" by (metis prod.exhaust)
  have "length (pack_record r) + 2 < 2 ^ 32"
    using Cons.prems(2) by (simp add: r pack_record_def packPos_def Let_def)
  then have "onClientMessage um ev ps (h, t) (Pack agent_CMD_POS (pack_record r)) = save_cb (pack_record r) (h, t)"
    by (simp add: onClientMessage_pos assms(3) del: calls.simps)
  also have "\<dots> = ((adopt r h, t), Ret ())"
    using SaveBinlogPosition_adopt [OF Cons.prems(1), of f p i] Cons.prems(2)
    by (simp add: save_cb_def r pack_record_def)
  finally have "onClientMessage um ev ps (h, t) (Pack agent_CMD_POS (pack_record r)) = ((adopt r h, t), Ret ())" .
  with Cons.IH [of "adopt r h"] Cons.prems show ?case by (simp add: cb_run_def)
qed

text \<open>A node that no member is connected to passes nothing on.\<close>

lemma Sync_alone: "vis (clients (ag_server nd)) = [] \<Longrightarrow> Sync d nd = Ret nd"
  by (simp add: Sync_def Broadcast_def range_do_def)

lemma node_synced_alone: "vis (clients (ag_server nd)) = [] \<Longrightarrow> node_synced k nd = Ret nd"
proof -
  assume "vis (clients (ag_server nd)) = []"
  then have "each pos_change rs nd = Ret nd" for rs
    by (induction rs) (simp_all add: pos_change_def Sync_alone)
  then show ?thesis by (simp add: node_synced_def)
qed

lemma node_reads_alone:
  "vis (clients (ag_server nd)) = [] \<Longrightarrow>
     each (\<lambda>r. node_read grow um (Some r)) cs nd = each (\<lambda>r. agent_client_turn grow um (Some r)) cs nd"
proof (induction cs arbitrary: nd)
  case Nil
  then show ?case by simp
next
  case (Cons r cs)
  show ?case
  proof (cases "agent_client_turn grow um (Some r) nd")
    case (Ret nd1)
    then have "ag_server nd1 = ag_server nd" by (auto simp: agent_client_turn_def go_simps)
    with Ret Cons show ?thesis by (simp add: node_read_def node_synced_alone)
  qed (simp_all add: node_read_def)
qed

text \<open>What a follower makes of the messages the leader pushes, in whatever reads they arrive.\<close>

lemma follower_reads:
  assumes "connected fd" and "vis (x_buffer (ag_client fd)) = []" and "vis (clients (ag_server fd)) = []"
    and "\<forall>d \<in> set ds. length d + 8 < 2 ^ 32 \<and> d \<noteq> heartbeat"
    and "cb_ok (onClientMessage um (onEvent fd) (onPos fd)) (world fd) ds"
    and "concat cs = concat (map (Encode 1) ds)" and "header_safe [] cs"
  shows "\<exists>fd'. each (\<lambda>r. node_read grow um (Some r)) cs fd = Ret fd' \<and>
    world fd' = cb_run (onClientMessage um (onEvent fd) (onPos fd)) (world fd) ds \<and> onLeader fd' = onLeader fd \<and>
    sService fd' = sService fd"
proof -
  have "heartbeat \<notin> set ds" using assms(4) by auto
  from aclient_pushes [OF assms(2) this _ assms(5) [unfolded world_def] assms(6,7), of grow] assms(4)
  obtain buf where "each (aclient_onMessage grow (onClientMessage um (onEvent fd) (onPos fd))) cs (ag_client fd) =
    Ret ((ag_client fd)\<lparr>x_st := cb_run (onClientMessage um (onEvent fd) (onPos fd)) (x_st (ag_client fd)) ds,
      x_buffer := buf\<rparr>)"
    by auto
  then show ?thesis
    by (simp add: node_reads_alone [OF assms(3)] agent_reads [OF assms(1)] world_def)
qed

lemma fold_adopt_keeps [simp]:
  "b_status (fold adopt rs h) = b_status h" "b_runs (fold adopt rs h) = b_runs h" "b_handlers (fold adopt rs h) = b_handlers h"
  "startServiceChan (fold adopt rs h) = startServiceChan h" "binlog_open (fold adopt rs h) = binlog_open h"
  by (induction rs arbitrary: h) (simp_all, simp_all add: adopt_def split: prod.split)

lemma adopt_last:
  assumes "rs \<noteq> []" and "last rs = (f, p, i)" and "length f \<le> 494"
  shows "lastBinFile (fold adopt rs h) = f" "lastPos (fold adopt rs h) = ucast p" "EventIndex (fold adopt rs h) = i"
    "read_cache (b_cache (fold adopt rs h)) = Ret (f, p, i)"
proof -
  from assms(1,2) obtain rs' where "rs = rs' @ [(f, p, i)]" by (metis append_butlast_last_id)
  then show "lastBinFile (fold adopt rs h) = f" "lastPos (fold adopt rs h) = ucast p"
    "EventIndex (fold adopt rs h) = i" "read_cache (b_cache (fold adopt rs h)) = Ret (f, p, i)"
    using assms(3) by (simp_all add: adopt_def read_cache_write)
qed

section \<open>Events\<close>

lemma pushed_keeps [simp]:
  "online (heap (pushed m tb d t) a) = online (heap t a)" "topics (heap (pushed m tb d t) a) = topics (heap t a)"
  "g (pushed m tb d t) = g t" "fresh (pushed m tb d t) = fresh t" "connects (pushed m tb d t) = connects t"
  "onRemove (pushed m tb d t) = onRemove t" "svc.more (pushed m tb d t) = svc.more t"
  by (simp_all add: pushed_def)

lemma live_pushed [simp]: "live (pushed m tb d t) = live t"
  by (simp add: live_def)

lemma listed_pushed:
  assumes "listed (Suc n) t"
  shows "listed n (pushed m tb d t)"
proof -
  have q: "length (sendQueue (heap t a)) + Suc n \<le> tcpMaxSendQueue" if "online (heap t a)" for a
    using assms that by (simp add: listed_def)
  have "clients_ok (pushed m tb d t)"
    using assms q by (fastforce simp: listed_def tcp_inv_def clients_ok_def heap_wf_def node_wf_def pushed_def live_def)
  moreover have "wired (pushed m tb d t) = wired t"
    by (simp add: wired_def due_def more_eq [OF pushed_keeps(7)])
  ultimately have "tcp_inv (pushed m tb d t)" using assms by (simp add: listed_def tcp_inv_def)
  moreover have "length (sendQueue (heap (pushed m tb d t) a)) + n \<le> tcpMaxSendQueue" if "online (heap t a)" for a
    using q [OF that] by (simp add: pushed_def)
  ultimately show ?thesis using assms by (simp add: listed_def)
qed

definition push_event :: "matcher \<Rightarrow> string \<times> bytes \<Rightarrow> 'c tcp_service \<Rightarrow> 'c tcp_service" where
  "push_event m e t = pushed m (fst e) (snd e) t"

text \<open>A client gets the events whose table it has subscribed to, in order.\<close>

lemma sendQueue_push_events:
  assumes "online (heap t a)"
  shows "sendQueue (heap (fold (push_event m) es t) a) =
    sendQueue (heap t a) @ map (\<lambda>e. Pack CMD_EVENT (snd e)) (filter (\<lambda>e. MatchFilters m (topics (heap t a)) (fst e)) es)"
  using assms
proof (induction es arbitrary: t)
  case Nil
  then show ?case by simp
next
  case (Cons e es)
  have "online (heap (push_event m e t) a)" "topics (heap (push_event m e t) a) = topics (heap t a)"
    using Cons.prems by (simp_all add: push_event_def)
  moreover have "sendQueue (heap (push_event m e t) a) =
      sendQueue (heap t a) @ (if MatchFilters m (topics (heap t a)) (fst e) then [Pack CMD_EVENT (snd e)] else [])"
    using Cons.prems by (simp add: push_event_def pushed_def)
  ultimately show ?case using Cons.IH [of "push_event m e t"] by simp
qed

text \<open>Publishing on the leader.\<close>

lemma leader_events:
  assumes "enable nd" and "world nd = (h, t)" and "room (length es) (ag_server nd)" and "listed (length es) t"
  shows "\<exists>nd'. each (node_notify m) es nd = Ret nd' \<and> world nd' = (h, fold (push_event m) es t) \<and>
    ag_server nd' = fold queued (map (\<lambda>e. Pack agent_CMD_EVENT (snd e)) es) (ag_server nd)"
  using assms
proof (induction es arbitrary: nd t)
  case Nil
  then show ?case by simp
next
  case (Cons e es)
  let ?t = "push_event m e t" and ?q = "queued (Pack agent_CMD_EVENT (snd e)) (ag_server nd)"
  let ?nd = "(put_world (h, ?t) nd)\<lparr>ag_server := ?q\<rparr>"
  have "SendAll m (fst e) (snd e) t = Ret (?t, True)"
    using Cons.prems(4) by (simp add: SendAll_pushed push_event_def)
  then have "node_notify m e nd = Ret ?nd" and "room (length es) ?q"
    using Cons.prems Sync_queued [of "put_world (h, ?t) nd" "length es" "Pack agent_CMD_EVENT (snd e)"]
    by (simp_all add: node_notify_def event_change_def)
  moreover have "listed (length es) ?t"
    using Cons.prems(4) by (simp add: listed_pushed push_event_def)
  ultimately show ?case using Cons.IH [of ?nd ?t] Cons.prems(1) by simp
qed

text \<open>What a follower's callbacks do with events. \<open>reads_back\<close> says that the JSON text of an
  event names the table it was published under.\<close>

definition reads_back :: "unmarshal \<Rightarrow> string \<times> bytes \<Rightarrow> bool" where
  "reads_back um e \<longleftrightarrow> (\<exists>raw d tb. um (snd e) = Some raw \<and> raw ''database'' = Some (JString d) \<and>
     raw ''table'' = Some (JString tb) \<and> fst e = d @ ''.'' @ tb)"

lemma follower_pushes:
  fixes es :: "(string \<times> bytes) list"
  assumes "listed (length es) t" and "\<forall>e \<in> set es. reads_back um e \<and> length (snd e) + 2 < 2 ^ 32"
    and "ev = [sendAll_cb m]"
  defines "ds \<equiv> map (\<lambda>e. Pack agent_CMD_EVENT (snd e)) es"
  shows "cb_run (onClientMessage um ev ps) (h, t) ds = (h, fold (push_event m) es t) \<and>
    cb_ok (onClientMessage um ev ps) (h, t) ds"
  using assms(1,2) unfolding ds_def
proof (induction es arbitrary: t)
  case Nil
  then show ?case by (simp add: cb_run_def)
next
  case (Cons e es)
  obtain raw d tb where raw: "um (snd e) = Some raw" "raw ''database'' = Some (JString d)"
      "raw ''table'' = Some (JString tb)" "fst e = d @ ''.'' @ tb" and len: "length (snd e) + 2 < 2 ^ 32"
    using Cons.prems(2) by (auto simp: reads_back_def)
  have "onClientMessage um ev ps (h, t) (Pack agent_CMD_EVENT (snd e)) = sendAll_cb m (fst e) (snd e) (h, t)"
    using onClientMessage_event [of "snd e" um raw d tb ev ps "(h, t)", OF len raw(1-3)] raw(4) by (simp add: assms(3) del: calls.simps)
  also have "\<dots> = ((h, push_event m e t), Ret ())"
    using Cons.prems(1) by (simp add: sendAll_cb_def SendAll_pushed push_event_def)
  finally have "onClientMessage um ev ps (h, t) (Pack agent_CMD_EVENT (snd e)) = ((h, push_event m e t), Ret ())" .
  moreover have "listed (length es) (push_event m e t)"
    using Cons.prems(1) by (simp add: listed_pushed push_event_def)
  ultimately show ?case using Cons.IH [of "push_event m e t"] Cons.prems by (simp add: cb_run_def)
qed

end
