(* ===== verification/Delivery.thy ===== *)
theory Delivery
  imports Client_Machine Node
begin

text \<open>
  A subscription server and a client library at the two ends of a connection: what the client
  writes is read by the server in any cuts, and the other way round. Results: the topics of a
  client reach the server, exactly the events of its tables reach its callbacks, and a client
  that looks for the servers in Consul never finds them, since it asks for another name than
  the one they register.
\<close>

section \<open>Subscribing\<close>

text \<open>What the server makes of the client's subscription frames.\<close>

definition subscribed :: "(string \<Rightarrow> string) \<Rightarrow> string list \<Rightarrow> tcpClientNode \<Rightarrow> tcpClientNode" where
  "subscribed uni ts n =
     fold (\<lambda>t n. addTopic uni t (n\<lparr>conn_writes := conn_writes n @ [packDataSetPro]\<rparr>)) ts n"

lemma subscribed_keeps [simp]:
  "status (subscribed uni ts n) = status n" "sendQueue (subscribed uni ts n) = sendQueue n"
  "queue_closed (subscribed uni ts n) = queue_closed n" "recvBuf (subscribed uni ts n) = recvBuf n"
  "conn_writes (subscribed uni ts n) = conn_writes n @ replicate (length ts) packDataSetPro"
  "set (topics (subscribed uni ts n)) = set (topics n) \<union> (\<lambda>t. ToLower uni (TrimSpaces t)) ` set ts"
  "node_wf (subscribed uni ts n) = node_wf n"
  unfolding subscribed_def
  by (induction ts arbitrary: n) (auto simp: addTopic_def Let_def node_wf_def)

lemma serve_subscriptions:
  "each (serve uni a) (map (\<lambda>t. (CMD_SET_PRO, 0 # bytes_of t)) ts) w = Ret (upd_node a (subscribed uni ts) w)"
proof (induction ts arbitrary: w)
  case Nil
  then show ?case by (simp add: subscribed_def upd_node_def fun_upd_idem)
next
  case (Cons t ts)
  have "serve uni a (CMD_SET_PRO, 0 # bytes_of t) w = Ret (upd_node a (subscribed uni [t]) w)"
    by (simp add: serve_def onSetProEvent_def FlagSetPro_def onSetPro_def node_send_def subscribed_def at_def upd_node_def)
  with Cons show ?case by (simp add: upd_node_def subscribed_def)
qed

lemma client_setPro_enc: "length t + 3 < 2 ^ 24 \<Longrightarrow> client_setPro t = wire_enc (CMD_SET_PRO, 0 # bytes_of t)"
  by (simp add: client_setPro_PackPro PackPro_Pack wire_enc_def)

lemma server_reads_subscriptions:
  fixes w :: "'a svc_scheme"
  assumes "\<forall>t \<in> set ts. length t + 3 < 2 ^ 24" and "concat cs = concat (map client_setPro ts)" and "recvBuf (heap w a) = []"
  shows "node_feed uni a cs w = Ret (upd_node a (subscribed uni ts) w)"
proof -
  let ?fs = "map (\<lambda>t. (CMD_SET_PRO, 0 # bytes_of t)) ts"
  have fs: "map client_setPro ts = map wire_enc ?fs" using assms(1) by (simp add: client_setPro_enc)
  have "\<forall>f \<in> set ?fs. servable f" using assms(1) by (force simp: servable_def wire_ok_def cmd_defs)
  then have "node_feed uni a cs w = go_bind (each (serve uni a) ?fs w) (\<lambda>w'. Ret (set_recvBuf a [] w'))"
    using assms(2,3) by (intro node_feed_stream) (simp_all only: fs, simp_all)
  also have "\<dots> = Ret (upd_node a (subscribed uni ts) w)"
    using assms(3) by (simp add: serve_subscriptions set_recvBuf_same)
  finally show ?thesis .
qed

lemma listed_subscribed:
  assumes "listed n t"
  shows "listed n (upd_node a (subscribed uni ts) t)"
proof -
  have q: "quiet t (upd_node a (subscribed uni ts) t)" by (rule quiet_upd_node) simp_all
  then have "tcp_inv (upd_node a (subscribed uni ts) t)"
    using inv_moves [OF moves_quiet] assms by (auto simp: listed_def)
  moreover have "set (vis (g (upd_node a (subscribed uni ts) t))) = live (upd_node a (subscribed uni ts) t)"
    using assms live_quiet [OF q] by (simp add: listed_def)
  ultimately show ?thesis using assms by (auto simp: listed_def)
qed

section \<open>From the server to the callbacks\<close>

definition send_events :: "matcher \<Rightarrow> (string \<times> bytes) list \<Rightarrow> 'c tcp_service \<Rightarrow> 'c tcp_service go" where
  "send_events m es t = each (\<lambda>e t. go_bind (SendAll m (fst e) (snd e) t) (\<lambda>(t', _). Ret t')) es t"

lemma send_events_pushed:
  "listed (length es) t \<Longrightarrow> send_events m es t = Ret (fold (push_event m) es t)"
proof (induction es arbitrary: t)
  case Nil
  then show ?case by (simp add: send_events_def)
next
  case (Cons e es)
  then have "SendAll m (fst e) (snd e) t = Ret (push_event m e t, True)" "listed (length es) (push_event m e t)"
    by (simp_all add: SendAll_pushed listed_pushed push_event_def)
  with Cons.IH show ?case by (simp add: send_events_def)
qed

lemma push_events_keep:
  "online (heap (fold (push_event m) es t) a) = online (heap t a)"
  "conn_writes (heap (fold (push_event m) es t) a) = conn_writes (heap t a)"
  by (induction es arbitrary: t) (simp_all add: push_event_def pushed_def)

text \<open>Events queued for a client, on their way to its callbacks.\<close>

lemma queued_events_reach_callbacks:
  assumes "online (heap t a)" and "sendQueue (heap t a) = map (Pack CMD_EVENT) ds"
    and "\<forall>d \<in> set ds. length d + 2 < 2 ^ 32" and "c_buffer c = []"
  shows "\<exists>t'. sends (length ds) a t = Ret t' \<and>
    conn_writes (heap t' a) = conn_writes (heap t a) @ map (Pack CMD_EVENT) ds \<and>
    (\<forall>cs. concat cs = concat (map (Pack CMD_EVENT) ds) \<longrightarrow>
      (\<exists>c'. client_feed U cs c = Ret c' \<and>
        c_events c' = c_events c @ concat (map (\<lambda>d. map (\<lambda>f. (f, U d)) (c_onevent c)) ds)))"
proof -
  let ?fs = "map (\<lambda>d. (CMD_EVENT, d)) ds"
  have ok: "\<forall>f \<in> set ?fs. wire_ok f \<and> hasCmd (fst f)" using assms(3) by (auto simp: wire_ok_def hasCmd_def cmd_defs)
  have enc: "map wire_enc ?fs = map (Pack CMD_EVENT) ds" by (simp add: wire_enc_def comp_def)
  have "\<exists>c'. client_feed U cs c = Ret c' \<and> c_events c' = c_events c @ concat (map (\<lambda>d. map (\<lambda>f. (f, U d)) (c_onevent c)) ds)"
    if "concat cs = concat (map (Pack CMD_EVENT) ds)" for cs
  proof -
    have "client_feed U cs c = Ret ((fold (deliver U) ?fs c)\<lparr>c_buffer := []\<rparr>)"
      by (rule client_feed_stream [OF ok]) (simp_all only: enc that assms(4) append_Nil, simp)
    moreover have "c_events (fold (deliver U) ?fs c) = c_events c @ concat (map (\<lambda>d. map (\<lambda>f. (f, U d)) (c_onevent c)) ds)"
      unfolding fold_deliver Let_def by (simp add: comp_def filter_map)
    ultimately show ?thesis by simp
  qed
  with sends_queue [OF assms(1)] assms(2) show ?thesis by simp
qed

text \<open>What was pushed to a client whose queue was empty, on its way to the client's callbacks.\<close>

lemma pushed_events_reach_callbacks:
  assumes "online (heap t b)" and "sendQueue (heap t b) = []" and "c_buffer c = []"
    and "\<forall>x \<in> set es. length (snd x) + 2 < 2 ^ 32"
  shows "\<exists>t' sent. sends (length (sendQueue (heap (fold (push_event m) es t) b))) b (fold (push_event m) es t) = Ret t' \<and>
    conn_writes (heap t' b) = conn_writes (heap t b) @ sent \<and>
    (\<forall>ds. concat ds = concat sent \<longrightarrow> (\<exists>c'. client_feed U ds c = Ret c' \<and> c_events c' = c_events c @
      concat (map (\<lambda>x. map (\<lambda>f. (f, U (snd x))) (c_onevent c))
        (filter (\<lambda>x. MatchFilters m (topics (heap t b)) (fst x)) es))))"
proof -
  let ?es = "filter (\<lambda>x. MatchFilters m (topics (heap t b)) (fst x)) es" and ?t = "fold (push_event m) es t"
  have q: "sendQueue (heap ?t b) = map (Pack CMD_EVENT) (map snd ?es)"
    using sendQueue_push_events [OF assms(1), of m es] assms(2) by (simp add: comp_def)
  have "online (heap ?t b)" "\<forall>d \<in> set (map snd ?es). length d + 2 < 2 ^ 32"
    using assms(1,4) by (auto simp: push_events_keep)
  from queued_events_reach_callbacks [OF this(1) q this(2) assms(3), of U]
  obtain t' where t': "sends (length ?es) b ?t = Ret t'"
    "conn_writes (heap t' b) = conn_writes (heap t b) @ map (Pack CMD_EVENT) (map snd ?es)"
    and feed: "\<And>ds. concat ds = concat (map (Pack CMD_EVENT) (map snd ?es)) \<Longrightarrow> \<exists>c'. client_feed U ds c = Ret c' \<and>
      c_events c' = c_events c @ concat (map (\<lambda>x. map (\<lambda>f. (f, U (snd x))) (c_onevent c)) ?es)"
    by (auto simp: push_events_keep comp_def)
  show ?thesis
    by (intro exI [of _ t'] exI [of _ "map (Pack CMD_EVENT) (map snd ?es)"] conjI allI impI feed)
      (simp_all only: q length_map t')
qed

text \<open>What the client hears, over its own spelling of the topics.\<close>

definition hears :: "matcher \<Rightarrow> (string \<Rightarrow> string) \<Rightarrow> string list \<Rightarrow> string \<Rightarrow> bool" where
  "hears m uni ts table \<longleftrightarrow> ts = [] \<or> (\<exists>t \<in> set ts. m (ToLower uni (TrimSpaces t)) table = (True, None))"


lemma demo_listed: "n \<le> 3 \<Longrightarrow> listed n demo_one"
  using complete_reachable [OF demo_serving] inv_new [OF demo_new]
  by (auto simp: listed_def) (simp_all add: newNode_def tcpMaxSendQueue_def)


section \<open>Discovery\<close>

context consul_registry
begin

lemma register_keeps:
  assumes "ss_ServiceName s \<noteq> name" and "finds_nothing api name p c"
  shows "finds_nothing api name p (snd (snd (SubService_Register api hostname s c)))"
proof -
  let ?s = "if has_flag (ss_status s) Registered then s else s\<lparr>ss_status := ss_status s OR Registered\<rparr>"
  let ?r = "\<lparr>reg_ID = ss_ServiceID ?s, reg_Name = ss_ServiceName ?s, reg_Address = ss_ip ?s,
    reg_Port = ss_ServicePort ?s, reg_Tags = [hostname]\<rparr>"
  obtain err c1 where r: "ServiceRegister api ?r c = (err, c1)" by (cases "ServiceRegister api ?r c")
  have c1: "finds_nothing api name p c1" using service [of ?r name p c] assms r by simp
  show ?thesis
    unfolding SubService_Register_def Let_def r
    using c1 check [OF c1] by (auto split: option.splits prod.splits) (metis snd_conv)+
qed

lemma NewTCPService_keeps:
  assumes "NewTCPService api hostname listen en addr c = Ret t" and "finds_nothing api watched_service p c"
  shows "finds_nothing api watched_service p (t_consul t)"
proof (cases "en \<and> addr \<noteq> []")
  case False
  with assms show ?thesis by (auto simp: NewTCPService_def newTCPService_def)
next
  case True
  obtain host port s where s: "NewSubService host port [] = Ret s"
    and t: "t_consul t = snd (snd (SubService_Register api hostname s c))"
    using assms(1) True by (auto simp: NewTCPService_def Let_def go_simps case_prod_beta)
  have "ss_ServiceName s \<noteq> watched_service"
    using s by (auto simp: NewSubService_def SubServiceName_def watched_service_def Let_def split: if_splits)
  from register_keeps [OF this assms(2)] t show ?thesis by simp
qed

end

text \<open>Servers starting one after the other: host name, listen address, address of Consul.\<close>

fun start_servers :: "'c api \<Rightarrow> (string \<times> string \<times> string) list \<Rightarrow> 'c \<Rightarrow> 'c go" where
  "start_servers api [] c = Ret c"
| "start_servers api ((hostname, listen, addr) # ss) c =
     go_bind (NewTCPService api hostname listen True addr c) (\<lambda>t. start_servers api ss (t_consul t))"

text \<open>
  C40. A client that is to find the servers through Consul never finds one: the servers
  register under \<open>binlog-go-subscribe\<close>, the client asks for \<open>wing-binlog-go-subscribe\<close>. In a
  cluster in which that name is unknown, whatever servers have registered, \<open>NewClient\<close> waits
  for ever: its goroutine has no server to choose, and later answers to the watcher change
  nothing.
\<close>

theorem discovery_finds_no_server:
  assumes "consul_registry api" and "finds_nothing api watched_service True c"
    and "start_servers api srvs c = Ret c1" and "\<forall>f \<in> set opts. client_option f"
    and "each (\<lambda>f. f) opts newClient = Ret k0" and "c_Services k0 = []" and "c_consulAddress k0 \<noteq> []"
  shows "\<exists>w k c2. NewClient api li opts c1 = (Ret (Some w, k), c2) \<and>
    (\<forall>as. start_run gc U as (k, Picking) = Ret (k, Picking)) \<and> \<not> c_wi_closed k \<and>
    (\<forall>c3 li'. finds_nothing api watched_service True c3 \<longrightarrow>
      snd (process_turn (fst (cw_queryConsul api li' c3)) (w, k)) = k)"
proof -
  have "finds_nothing api watched_service True c1"
    using assms(2,3)
  proof (induction srvs arbitrary: c)
    case (Cons sv ss)
    obtain h l ad where sv: "sv = (h, l, ad)" by (metis prod.exhaust)
    from Cons.prems(2) obtain t where t: "NewTCPService api h l True ad c = Ret t" "start_servers api ss (t_consul t) = Ret c1"
      by (auto simp: sv go_simps)
    from Cons.IH [OF consul_registry.NewTCPService_keeps [OF assms(1) t(1) Cons.prems(1)] t(2)] show ?case .
  qed simp
  then obtain c2 where c2: "HealthService api watched_service True c1 = (([], None), c2)"
    by (metis finds_nothing_def prod.collapse)
  let ?w = "newWatch\<lparr>cw_addrs := [], cw_li := li\<rparr>"
  have new: "NewClient api li opts c1 = (Ret (Some ?w, k0), c2)"
    using assms(5-7) c2 by (simp add: NewClient_def cw_queryConsul_def NewClient_members_def)
  have "\<not> c_wi_closed k0" using NewClient_ok [OF new assms(4)] by (simp add: client_ok_def)
  moreover have "start_run gc U as (k0, Picking) = Ret (k0, Picking)" for as
    by (rule run_nothing_usable) (simp add: usable_def assms(6))
  moreover have "snd (process_turn (fst (cw_queryConsul api li' c3)) (?w, k0)) = k0"
    if "finds_nothing api watched_service True c3" for c3 li'
    using that by (auto simp: finds_nothing_def cw_queryConsul_def cw_dialAdd_def cw_dialDelete_def Let_def split: prod.split)
  ultimately show ?thesis using new by blast
qed

theorem discovery_finds_no_server_witness:
  "\<exists>c1 w k c2. start_servers consul_api [(''h'', ''10.0.0.1:9990'', ''c:8500'')] no_consul = Ret c1 \<and>
    NewClient consul_api 0 [OnEventOption 7, SetConsulAddress ''c:8500''] c1 = (Ret (Some w, k), c2) \<and>
    (\<forall>as. start_run (\<lambda>_ _. 0) id as (k, Picking) = Ret (k, Picking)) \<and> \<not> c_wi_closed k"
proof -
  obtain t0 where "NewTCPService consul_api ''h'' ''10.0.0.1:9990'' True ''c:8500'' no_consul = Ret t0"
    using demo_registered by blast
  then have s: "start_servers consul_api [(''h'', ''10.0.0.1:9990'', ''c:8500'')] no_consul = Ret (t_consul t0)" by simp
  have n: "finds_nothing consul_api watched_service True no_consul"
    by (simp add: finds_nothing_def consul_api_def no_consul_def)
  have o: "\<forall>f \<in> set [OnEventOption 7, SetConsulAddress ''c:8500'']. client_option f"
    by (simp add: client_option.intros)
  have k: "each (\<lambda>f. f) [OnEventOption 7, SetConsulAddress ''c:8500''] newClient =
      Ret (newClient\<lparr>c_onevent := [7], c_consulAddress := ''c:8500''\<rparr> :: bytes Client)"
    by (simp add: OnEventOption_def SetConsulAddress_def newClient_def)
  from discovery_finds_no_server [OF registry.consul_registry_axioms n s o k, of 0 "\<lambda>_ _. 0" id] s show ?thesis
    by (auto simp: newClient_def)
qed

end
