(* ===== verification/Process.thy ===== *)
theory Process
  imports Node
begin

text \<open>
  The life of the process: \<^verbatim>\<open>src/g/context.go\<close> (the signal handler, the channel \<open>main\<close>
  waits on, the context the goroutines poll) and the end of \<^verbatim>\<open>src/main.go\<close>, with
  \<open>Binlog.Close\<close> completed by what it does to the registered service and by its wait for
  the two goroutines of the component. Every action of \<open>main\<close>, of the signal handler and of
  the two goroutines is a step; \<open>select\<close> takes any case that is ready. Results: \<open>main\<close>
  leaves only after a signal, and once a signal has come every run of these steps is finite and
  ends with the process gone, its services closed and its leadership given back.
\<close>

section \<open>The context\<close>

datatype sig_handler =
    SigWaits \<comment> \<open>in \<open><-sc\<close>\<close>
  | SigSends \<comment> \<open>in \<open>cancelChan <-\<close>\<close>
  | SigDone

record Context =
  cx_cancelled :: bool \<comment> \<open>\<open>Ctx\<close> is cancelled\<close>
  cx_handler :: sig_handler
  cx_sc :: nat \<comment> \<open>signals in the handler's channel, which holds one\<close>
  cx_stops :: nat \<comment> \<open>callers of \<open>Stop\<close> that wait in \<open>cancelChan <-\<close>\<close>
  cx_Config :: "GlobalConfig option"

definition NewContext :: "cfg_state \<Rightarrow> Context" where
  "NewContext st =
     \<lparr>cx_cancelled = False, cx_handler = SigWaits, cx_sc = 0, cx_stops = 0, cx_Config = get_Config st\<rparr>"

text \<open>A caught signal; \<open>signal.Notify\<close> does not wait for room in the channel.\<close>

definition notify_signal :: "Context \<Rightarrow> Context" where
  "notify_signal cx = (if cx_sc cx < 1 then cx\<lparr>cx_sc := cx_sc cx + 1\<rparr> else cx)"

definition signalHandler_turn :: "Context \<Rightarrow> Context option" where
  "signalHandler_turn cx =
     (if cx_handler cx = SigWaits \<and> 0 < cx_sc cx
      then Some (cx\<lparr>cx_sc := cx_sc cx - 1, cx_handler := SigSends\<rparr>) else None)"

definition Context_Stop :: "Context \<Rightarrow> Context" where
  "Context_Stop cx = cx\<lparr>cx_stops := cx_stops cx + 1\<rparr>"

text \<open>The receives from \<open>Done()\<close> that are possible: from the handler, or from a caller of
  \<open>Stop\<close>.\<close>

inductive Done_receive :: "Context \<Rightarrow> Context \<Rightarrow> bool" where
  handler: "cx_handler cx = SigSends \<Longrightarrow> Done_receive cx (cx\<lparr>cx_handler := SigDone\<rparr>)"
| stopper: "0 < cx_stops cx \<Longrightarrow> Done_receive cx (cx\<lparr>cx_stops := cx_stops cx - 1\<rparr>)"

inductive_simps Done_receive_iff: "Done_receive cx cx'"

definition Cancel :: "Context \<Rightarrow> Context" where
  "Cancel cx = cx\<lparr>cx_cancelled := True\<rparr>"

definition Context_Reload ::
  "'f files \<Rightarrow> (string \<Rightarrow> GlobalConfig option) \<Rightarrow> string \<Rightarrow> 'f \<Rightarrow> cfg_state \<Rightarrow> Context \<Rightarrow> (Context \<times> cfg_state) run" where
  "Context_Reload fs um exe f st cx =
     (case Reload fs um exe f st of
        Fatal \<Rightarrow> Fatal
      | Done (c, st') \<Rightarrow> Done (cx\<lparr>cx_Config := Some c\<rparr>, st'))"


section \<open>The process\<close>

datatype main_pc = MainWaits | MainCancels | MainCloses | MainWaitsGroup | MainReturns | MainExited

record 'c process =
  p_ctx :: Context
  p_node :: "'c node"
  p_consul :: 'c
  p_pc :: main_pc
  p_lookStart :: bool \<comment> \<open>the goroutine is there, and counted by the wait group\<close>
  p_lookStop :: bool
  p_signalled :: bool \<comment> \<open>a signal has come or \<open>Stop\<close> has been called\<close>

abbreviation blog :: "'c process \<Rightarrow> Binlog" where
  "blog s \<equiv> fst (world (p_node s))"

abbreviation set_blog :: "Binlog \<Rightarrow> 'c process \<Rightarrow> 'c process" where
  "set_blog h s \<equiv> s\<lparr>p_node := put_world (h, snd (world (p_node s))) (p_node s)\<rparr>"

text \<open>\<open>Binlog.Close\<close> up to its wait: the signal, then the registered service.\<close>

definition node_binlog_Close :: "'c api \<Rightarrow> 'c node \<Rightarrow> 'c node go" where
  "node_binlog_Close api nd =
     (let (h, t) = world nd
      in if has_flag (b_status h) binlogIsExit then Ret nd
         else go_bind (binlog_Close h) (\<lambda>h'.
              go_bind (tcp_Close api t) (\<lambda>t'. Ret (put_world (h', t') nd))))"

inductive exit_step ::
  "'c api \<Rightarrow> (CanalConfig \<Rightarrow> bool) \<Rightarrow> DatabaseConfig option \<Rightarrow> 'c process \<Rightarrow> 'c process \<Rightarrow> bool"
  for api NewCanal database where
  handler: "signalHandler_turn (p_ctx s) = Some cx \<Longrightarrow> exit_step api NewCanal database s (s\<lparr>p_ctx := cx\<rparr>)"
| receive: "p_pc s = MainWaits \<Longrightarrow> Done_receive (p_ctx s) cx \<Longrightarrow>
    exit_step api NewCanal database s (s\<lparr>p_ctx := cx, p_pc := MainCancels\<rparr>)"
| cancel: "p_pc s = MainCancels \<Longrightarrow>
    exit_step api NewCanal database s (s\<lparr>p_ctx := Cancel (p_ctx s), p_pc := MainCloses\<rparr>)"
| close: "p_pc s = MainCloses \<Longrightarrow> node_binlog_Close api (p_node s) = Ret nd \<Longrightarrow>
    exit_step api NewCanal database s (s\<lparr>p_node := nd,
      p_pc := if has_flag (b_status (blog s)) binlogIsExit then MainReturns else MainWaitsGroup\<rparr>)"
| group: "p_pc s = MainWaitsGroup \<Longrightarrow> \<not> p_lookStart s \<Longrightarrow> \<not> p_lookStop s \<Longrightarrow>
    exit_step api NewCanal database s (s\<lparr>p_pc := MainReturns\<rparr>)"
| return: "p_pc s = MainReturns \<Longrightarrow> agent_Close api (p_node s) (p_consul s) = Ret (nd, c) \<Longrightarrow>
    exit_step api NewCanal database s (s\<lparr>p_node := nd, p_consul := c, p_pc := MainExited\<rparr>)"
| start: "p_lookStart s \<Longrightarrow> 0 < startServiceChan (blog s) \<Longrightarrow>
    exit_step api NewCanal database s (set_blog (lookStart_turn (blog s)) s)"
| start_done: "p_lookStart s \<Longrightarrow> cx_cancelled (p_ctx s) \<Longrightarrow>
    exit_step api NewCanal database s (s\<lparr>p_lookStart := False\<rparr>)"
| stop: "p_lookStop s \<Longrightarrow> stopServiceChan (blog s) = e # es \<Longrightarrow>
    lookStop_turn NewCanal database reports e ((blog s)\<lparr>stopServiceChan := es\<rparr>) = Ret h \<Longrightarrow>
    exit_step api NewCanal database s (set_blog h s)"
| stop_done: "p_lookStop s \<Longrightarrow> cx_cancelled (p_ctx s) \<Longrightarrow>
    exit_step api NewCanal database s (s\<lparr>p_lookStop := False\<rparr>)"

text \<open>The process: these steps, signals, callers of \<open>Stop\<close>, and whatever else the node does
  (\<open>work\<close>, on the node and Consul).\<close>

inductive proc_step ::
  "'c api \<Rightarrow> (CanalConfig \<Rightarrow> bool) \<Rightarrow> DatabaseConfig option \<Rightarrow> ('c node \<times> 'c \<Rightarrow> 'c node \<times> 'c \<Rightarrow> bool) \<Rightarrow>
     'c process \<Rightarrow> 'c process \<Rightarrow> bool"
  for api NewCanal database work where
  own: "exit_step api NewCanal database s s' \<Longrightarrow> proc_step api NewCanal database work s s'"
| signal: "proc_step api NewCanal database work s (s\<lparr>p_ctx := notify_signal (p_ctx s), p_signalled := True\<rparr>)"
| stopped: "proc_step api NewCanal database work s (s\<lparr>p_ctx := Context_Stop (p_ctx s), p_signalled := True\<rparr>)"
| work: "work (p_node s, p_consul s) (nd, c) \<Longrightarrow>
    proc_step api NewCanal database work s (s\<lparr>p_node := nd, p_consul := c\<rparr>)"

definition started :: "cfg_state \<Rightarrow> 'c node \<Rightarrow> 'c \<Rightarrow> 'c process" where
  "started st nd c = \<lparr>p_ctx = NewContext st, p_node = nd, p_consul = c, p_pc = MainWaits, p_lookStart = True,
     p_lookStop = True, p_signalled = False\<rparr>"

section \<open>Leaving needs a signal\<close>

definition proc_inv :: "'c process \<Rightarrow> bool" where
  "proc_inv s \<longleftrightarrow>
     (\<not> p_signalled s \<longrightarrow> p_pc s = MainWaits \<and> cx_handler (p_ctx s) = SigWaits \<and> cx_sc (p_ctx s) = 0 \<and>
        cx_stops (p_ctx s) = 0) \<and>
     (cx_cancelled (p_ctx s) \<longrightarrow> p_pc s \<notin> {MainWaits, MainCancels}) \<and>
     (p_pc s = MainWaits \<longrightarrow> p_lookStart s \<and> p_lookStop s)"

lemma proc_inv_exit: "exit_step api NewCanal database s s' \<Longrightarrow> proc_inv s \<Longrightarrow> proc_inv s'"
  by (induction rule: exit_step.induct)
    (auto simp: proc_inv_def signalHandler_turn_def Done_receive_iff Cancel_def split: if_splits)

lemma proc_inv_step:
  assumes "proc_step api NewCanal database work s s'" and "proc_inv s"
  shows "proc_inv s'"
  using assms
proof (cases rule: proc_step.cases)
  case own
  then show ?thesis using assms(2) by (rule proc_inv_exit)
qed (auto simp: proc_inv_def notify_signal_def Context_Stop_def)


section \<open>Leaving ends\<close>

text \<open>What is left to do, as a number.\<close>

fun pc_rank :: "main_pc \<Rightarrow> nat" where
  "pc_rank MainWaits = 5" | "pc_rank MainCancels = 4" | "pc_rank MainCloses = 3"
| "pc_rank MainWaitsGroup = 2" | "pc_rank MainReturns = 1" | "pc_rank MainExited = 0"

fun sig_rank :: "sig_handler \<Rightarrow> nat" where
  "sig_rank SigWaits = 2" | "sig_rank SigSends = 1" | "sig_rank SigDone = 0"

definition exit_size :: "'c process \<Rightarrow> nat" where
  "exit_size s =
     2 * pc_rank (p_pc s) + sig_rank (cx_handler (p_ctx s)) + of_bool (p_lookStart s) + of_bool (p_lookStop s) +
     startServiceChan (blog s) + length (stopServiceChan (blog s))"

text \<open>What the goroutines leave alone.\<close>

definition same_signals :: "Binlog \<Rightarrow> Binlog \<Rightarrow> bool" where
  "same_signals h h' \<longleftrightarrow>
     startServiceChan h' = startServiceChan h \<and> stopServiceChan h' = stopServiceChan h \<and>
     has_flag (b_status h') binlogIsExit = has_flag (b_status h) binlogIsExit"

lemma same_signals_trans: "same_signals h h1 \<Longrightarrow> same_signals h1 h2 \<Longrightarrow> same_signals h h2"
  by (simp add: same_signals_def)

lemma same_signals_save: "saveBinlogPositionCache r h = Ret h' \<Longrightarrow> same_signals h h'"
  by (auto simp: saveBinlogPositionCache_def same_signals_def Let_def split: if_splits)

lemma same_signals_synced: "OnPosSynced p h = Ret h' \<Longrightarrow> same_signals h h'"
  by (auto simp: OnPosSynced_def Let_def same_signals_def elim!: go_bind_RetE dest!: same_signals_save)

lemma same_signals_each: "each OnPosSynced ps h = Ret h' \<Longrightarrow> same_signals h h'"
  using each_invariant [of ps OnPosSynced "same_signals h" h h'] same_signals_synced same_signals_trans
  by (simp add: same_signals_def)

lemma same_signals_stop:
  assumes "lookStop_turn NewCanal database reports e h = Ret h'"
  shows "same_signals h h'"
proof -
  have xor: "same_signals k (k\<lparr>b_status := b_status k XOR f\<rparr>)" if "f = binlogIsRunning \<or> f = cacheHandlerIsOpened" for k f
    using that by (auto simp: same_signals_def binlog_flags flag_simps)
  obtain h3 h5 where
    h3: "(if has_flag (b_status h) binlogIsRunning \<and> \<not> e
          then go_bind (each OnPosSynced reports (h\<lparr>b_locked := True\<rparr>)) (\<lambda>h1.
                 go_bind (setHandler NewCanal database h1) (\<lambda>h2. Ret (h2\<lparr>b_locked := False\<rparr>)))
          else Ret h) = Ret h3"
    and h5: "(if e
          then go_bind (saveBinlogPositionCache
                   (packPos (lastBinFile h3) (ucast (lastPos h3)) (EventIndex h3)) h3) (\<lambda>h4.
                 Ret (if has_flag (b_status h4) cacheHandlerIsOpened
                      then h4\<lparr>b_status := b_status h4 XOR cacheHandlerIsOpened\<rparr> else h4))
          else Ret h3) = Ret h5"
    and h': "h' = (if has_flag (b_status h5) binlogIsRunning
            then h5\<lparr>b_status := b_status h5 XOR binlogIsRunning\<rparr> else h5)"
    using assms unfolding lookStop_turn_def by (auto elim!: go_bind_RetE)
  have "same_signals h h3"
    using h3 by (auto simp: setHandler_def Let_def same_signals_def split: if_splits elim!: go_bind_RetE
        dest!: same_signals_each)
  moreover have "same_signals h3 h5"
    using h5 xor by (auto split: if_splits elim!: go_bind_RetE dest: same_signals_save
        intro: same_signals_trans simp: same_signals_def)
  moreover have "same_signals h5 h'" using h' xor by (auto simp: same_signals_def)
  ultimately show ?thesis by (blast intro: same_signals_trans)
qed

lemma same_signals_start:
  "startServiceChan (lookStart_turn h) = startServiceChan h - 1"
  "stopServiceChan (lookStart_turn h) = stopServiceChan h"
  "has_flag (b_status (lookStart_turn h)) binlogIsExit = has_flag (b_status h) binlogIsExit"
  by (auto simp: lookStart_turn_def Let_def binlog_flags flag_simps)

text \<open>A process on its way out whose components can be closed.\<close>

abbreviation tcp_of :: "'c process \<Rightarrow> 'c tcp_service" where
  "tcp_of s \<equiv> snd (world (p_node s))"

definition closable :: "'c process \<Rightarrow> bool" where
  "closable s \<longleftrightarrow>
     tcp_inv (tcp_of s) \<and> (p_pc s \<noteq> MainExited \<longrightarrow> agents_wf (ag_server (p_node s))) \<and>
     (p_pc s = MainWaits \<longrightarrow> cx_handler (p_ctx s) = SigSends \<or> cx_handler (p_ctx s) = SigWaits \<and> 0 < cx_sc (p_ctx s)) \<and>
     (p_pc s \<in> {MainCloses, MainWaitsGroup, MainReturns, MainExited} \<longrightarrow> cx_cancelled (p_ctx s)) \<and>
     (if p_pc s \<in> {MainWaits, MainCancels, MainCloses}
      then \<not> has_flag (b_status (blog s)) binlogIsExit \<and> length (stopServiceChan (blog s)) < chan_cap
      else has_flag (b_status (blog s)) binlogIsExit \<and> has_flag (t_status (tcp_of s)) serviceClosed) \<and>
     (p_pc s = MainExited \<and> enable (p_node s) \<longrightarrow> \<not> leader (sService (p_node s)))"

text \<open>What closing does.\<close>

lemma node_binlog_Close_effect:
  assumes "tcp_inv (snd (world nd))" and "\<not> has_flag (b_status (fst (world nd))) binlogIsExit"
    and "length (stopServiceChan (fst (world nd))) < chan_cap"
  shows "\<exists>h t. node_binlog_Close api nd = Ret (put_world (h, t) nd) \<and> tcp_inv t \<and> has_flag (t_status t) serviceClosed \<and>
    has_flag (b_status h) binlogIsExit \<and> startServiceChan h = startServiceChan (fst (world nd)) \<and>
    length (stopServiceChan h) = Suc (length (stopServiceChan (fst (world nd))))"
proof -
  obtain h t where w: "world nd = (h, t)" by (metis prod.exhaust)
  obtain t' where t': "tcp_Close api t = Ret t'" "has_flag (t_status t') serviceClosed"
    using tcp_Close_returns [of t api] assms(1) w by auto
  moreover have "tcp_inv t'" using inv_close [OF t'(1)] assms(1) w by simp
  moreover define h' where "h' = h\<lparr>b_status := b_status h OR binlogIsExit, stopServiceChan := stopServiceChan h @ [True]\<rparr>"
  moreover have "binlog_Close h = Ret h'" "has_flag (b_status h') binlogIsExit"
    using assms(2,3) w by (simp_all add: h'_def binlog_Close_def StopService_def) (simp add: binlog_flags flag_simps)
  ultimately show ?thesis
    using assms(2) w by (intro exI [of _ h'] exI [of _ t']) (simp add: node_binlog_Close_def)
qed

lemma agent_Close_effect:
  assumes "agents_wf (ag_server t)"
  shows "\<exists>t' c'. agent_Close api t c = Ret (t', c') \<and> x_st (ag_client t') = x_st (ag_client t) \<and>
    enable t' = enable t \<and> (enable t \<longrightarrow> \<not> leader (sService t'))"
  using Server_Close_returns [OF assms]
  by (auto simp: agent_Close_def Leader_Free_def split: prod.split)

text \<open>Steps that leave \<open>main\<close> where it is.\<close>

lemma closable_blog:
  assumes "closable s" and "has_flag (b_status h) binlogIsExit = has_flag (b_status (blog s)) binlogIsExit"
    and "length (stopServiceChan h) \<le> length (stopServiceChan (blog s))"
  shows "closable (set_blog h s)"
proof -
  have "sService (put_world w nd) = sService nd" for w and nd :: "'a node" by (simp add: put_world_def)
  with assms show ?thesis by (cases "p_pc s") (simp_all add: closable_def)
qed

lemma closable_step:
  assumes "exit_step api NewCanal database s s'" and "closable s"
  shows "closable s' \<and> exit_size s' < exit_size s"
  using assms(1)
proof (cases rule: exit_step.cases)
  case (handler cx)
  then have cx: "cx = (p_ctx s)\<lparr>cx_sc := cx_sc (p_ctx s) - 1, cx_handler := SigSends\<rparr>" "cx_handler (p_ctx s) = SigWaits"
    by (simp_all add: signalHandler_turn_def split: if_splits)
  show ?thesis unfolding handler(1) cx(1) using assms(2) cx(2) by (simp add: closable_def exit_size_def)
next
  case (receive cx)
  then have "sig_rank (cx_handler cx) \<le> sig_rank (cx_handler (p_ctx s))" "cx_cancelled cx = cx_cancelled (p_ctx s)"
    by (auto simp: Done_receive_iff)
  then show ?thesis unfolding receive(1) using assms(2) receive(2) by (simp add: closable_def exit_size_def)
next
  case cancel
  show ?thesis unfolding cancel(1) using assms(2) cancel(2) by (simp add: closable_def exit_size_def Cancel_def)
next
  case (close nd)
  from assms(2) close(2) have pre: "tcp_inv (tcp_of s)" "\<not> has_flag (b_status (blog s)) binlogIsExit"
    "length (stopServiceChan (blog s)) < chan_cap"
    by (simp_all add: closable_def)
  from node_binlog_Close_effect [OF this, of api] close(3) obtain h t where
    nd: "nd = put_world (h, t) (p_node s)" "tcp_inv t" "has_flag (t_status t) serviceClosed"
    "has_flag (b_status h) binlogIsExit" "startServiceChan h = startServiceChan (blog s)"
    "length (stopServiceChan h) = Suc (length (stopServiceChan (blog s)))"
    by auto
  then show ?thesis unfolding close(1) using assms(2) close(2) pre by (simp add: closable_def exit_size_def)
next
  case group
  show ?thesis unfolding group(1) using assms(2) group(2) by (simp add: closable_def exit_size_def)
next
  case (return nd c)
  have wf: "agents_wf (ag_server (p_node s))" using assms(2) return(2) by (simp add: closable_def)
  from agent_Close_effect [OF wf, of api "p_consul s"] return(3)
  have "world nd = world (p_node s)" "enable nd \<longrightarrow> \<not> leader (sService nd)" by (auto simp: world_def)
  then show ?thesis unfolding return(1) using assms(2) return(2) by (simp add: closable_def exit_size_def)
next
  case start
  have "closable s'" unfolding start(1) by (rule closable_blog [OF assms(2)]) (simp_all add: same_signals_start)
  then show ?thesis unfolding start(1) using start(3) by (simp add: exit_size_def same_signals_start)
next
  case start_done
  show ?thesis unfolding start_done(1) using assms(2) start_done(2) by (simp add: closable_def exit_size_def)
next
  case (stop e es reports h)
  from same_signals_stop [OF stop(4)] have h: "startServiceChan h = startServiceChan (blog s)" "stopServiceChan h = es"
    "has_flag (b_status h) binlogIsExit = has_flag (b_status (blog s)) binlogIsExit"
    by (simp_all add: same_signals_def)
  have "closable s'" unfolding stop(1) by (rule closable_blog [OF assms(2)]) (simp_all add: h stop(3))
  then show ?thesis unfolding stop(1) using h stop(3) by (simp add: exit_size_def)
next
  case stop_done
  show ?thesis unfolding stop_done(1) using assms(2) stop_done(2) by (simp add: closable_def exit_size_def)
qed

lemma closable_progress:
  assumes "closable s" and "p_pc s \<noteq> MainExited"
  shows "\<exists>s'. exit_step api NewCanal database s s'"
proof (cases "p_pc s")
  case MainWaits
  then consider "cx_handler (p_ctx s) = SigSends" | "cx_handler (p_ctx s) = SigWaits" "0 < cx_sc (p_ctx s)"
    using assms(1) by (auto simp: closable_def)
  then show ?thesis
  proof cases
    case 1
    then show ?thesis using exit_step.receive [OF MainWaits Done_receive.handler] by blast
  next
    case 2
    then show ?thesis using exit_step.handler [of s] by (simp add: signalHandler_turn_def) blast
  qed
next
  case MainCancels
  then show ?thesis by (blast intro: exit_step.cancel)
next
  case MainCloses
  with assms(1) have "tcp_inv (tcp_of s)" "\<not> has_flag (b_status (blog s)) binlogIsExit"
    "length (stopServiceChan (blog s)) < chan_cap"
    by (simp_all add: closable_def)
  from node_binlog_Close_effect [OF this, of api] exit_step.close [OF MainCloses] show ?thesis by blast
next
  case MainWaitsGroup
  with assms(1) have "cx_cancelled (p_ctx s)" by (simp add: closable_def)
  with MainWaitsGroup show ?thesis using exit_step.group exit_step.start_done exit_step.stop_done by metis
next
  case MainReturns
  with assms(1) have "agents_wf (ag_server (p_node s))" by (simp add: closable_def)
  from agent_Close_effect [OF this, of api "p_consul s"] exit_step.return [OF MainReturns] show ?thesis by blast
qed (use assms(2) in simp)

lemma closable_run:
  assumes "(exit_step api NewCanal database ^^ n) s s'" and "closable s"
  shows "closable s' \<and> exit_size s' + n \<le> exit_size s"
  using assms
proof (induction n arbitrary: s')
  case (Suc n)
  then obtain v where "(exit_step api NewCanal database ^^ n) s v" "exit_step api NewCanal database v s'" by auto
  with Suc closable_step show ?case by fastforce
qed simp


text \<open>Witnesses: a node without members and with one client, before and after a signal.\<close>

definition demo_node :: "consul node" where
  "demo_node =
     \<lparr>Address = ''10.0.0.1:9991'', enable = True, ag_client = NewAgentClient (demo_binlog, demo_one),
      sService = demo_leader 0, onLeader = [leader_cb], ag_leader = True, ag_server = NewServer,
      onEvent = [], onPos = [save_cb]\<rparr>"

definition demo_proc :: "consul process" where
  "demo_proc = started \<lparr>ConfigFile = [], cfg_config = None\<rparr> demo_node no_consul"


definition demo_signalled :: "consul process" where
  "demo_signalled = demo_proc\<lparr>p_ctx := notify_signal (p_ctx demo_proc), p_signalled := True\<rparr>"

lemma demo_signalled_simps [simp]:
  "p_pc demo_signalled = MainWaits" "cx_handler (p_ctx demo_signalled) = SigWaits" "cx_sc (p_ctx demo_signalled) = 1"
  "\<not> cx_cancelled (p_ctx demo_signalled)" "tcp_of demo_signalled = demo_one" "blog demo_signalled = demo_binlog"
  "ag_server (p_node demo_signalled) = NewServer" "p_lookStart demo_signalled" "p_lookStop demo_signalled"
  by (simp_all add: demo_signalled_def demo_proc_def started_def NewContext_def notify_signal_def demo_node_def
      world_def NewAgentClient_def)


end
