(* ===== verification/Main_Program.thy ===== *)
theory Main_Program
  imports Process
begin

text \<open>
  The program from its command line to the point where it waits: the flags, the banner and the
  version of \<^verbatim>\<open>src/main.go\<close> and \<^verbatim>\<open>src/g/banner.go\<close>, \<open>Init\<close> and \<open>Usage\<close> of
  \<^verbatim>\<open>src/g/app.go\<close>, the construction of the node with what it leaves in Consul when it panics
  half way, the deferred \<open>Close\<close> and \<open>recover\<close>, and the HTTP handlers of the
  administration. The file system, the log library's \<open>ParseLevel\<close> and the machine's answers are
  parameters, as in \<open>Config\<close> and \<open>Node\<close>. Results: what the flags decide, which sections a
  configuration must have, that a node without an administration section gives back the
  leadership it has just won, and that the administration only shows.
\<close>

section \<open>Text\<close>

text \<open>\<open>fmt.Println\<close>, and \<open>%-11s: %s\<close> with its newline.\<close>

definition println :: "string \<Rightarrow> string" where
  "println s = s @ [CHR 0x0A]"

definition field_line :: "string \<Rightarrow> string \<Rightarrow> string" where
  "field_line k v = println (pad_right 11 k @ '': '' @ v)"

definition Banner :: string where
  "Banner =
     println ''                                                _    '' @
     println ''   ___    ___    _ __    _   _    ___    __ _  | |_  '' @
     println (''  / __|  / _ '' @ [CHR 0x5C] @ ''  | '' @ [CHR 0x27] @ ''_ '' @ [CHR 0x5C] @ ''  | | | |  / __|  / _'' @ [CHR 0x60] @ '' | | __| '') @
     println ('' | (__  | (_) | | |_) | | |_| | | (__  | (_| | | |_  '') @
     println (''  '' @ [CHR 0x5C] @ ''___|  '' @ [CHR 0x5C] @ ''___/  | .__/   '' @ [CHR 0x5C] @ ''__, |  '' @ [CHR 0x5C] @ ''___|  '' @ [CHR 0x5C] @ ''__,_|  '' @ [CHR 0x5C] @ ''__| '') @
     println ''                |_|      |___/                        '' @
     println []"

text \<open>The variables that the build sets.\<close>

record build =
  Version :: string
  Git :: string
  Compile :: string
  Distro :: string
  Kernel :: string
  Branch :: string

definition version_text :: "build \<Rightarrow> string" where
  "version_text b =
     field_line ''Version'' (Version b) @ field_line ''Git commit'' (Git b) @ field_line ''Compile'' (Compile b) @
     field_line ''Distro'' (Distro b) @ field_line ''Kernel'' (Kernel b) @ field_line ''Branch'' (Branch b)"

definition Usage :: string where
  "Usage =
     println ''copycat                                   : start service'' @
     println ''copycat -h|-help                          : show this message'' @
     println ''copycat -v|-version                       : show version info''"

definition PID_FILE :: string where "PID_FILE = ''/var/run/copycat/copycat.pid''"


section \<open>Start\<close>

record flags =
  versionCmd :: bool
  vCmd :: bool
  helpCmd :: bool
  hCmd :: bool
  daemonCmd :: bool
  dCmd :: bool

text \<open>The machine: its files, the log library, the build, the answers of the libraries
  (\<open>mc_listen_err\<close>: the agent's listener fails; \<open>mc_cache\<close>, \<open>mc_opened\<close>: the position
  cache).\<close>

record ('f, 'l, 'c) machine =
  mc_files :: "'f files"
  mc_WriteFile :: "string \<Rightarrow> string \<Rightarrow> 'f \<Rightarrow> 'f"
  mc_ParseLevel :: "string \<Rightarrow> 'l option"
  mc_Unmarshal :: "string \<Rightarrow> GlobalConfig option"
  mc_exe :: string
  mc_pid :: nat
  mc_build :: build
  mc_api :: "'c api"
  mc_hostname :: string
  mc_match :: matcher
  mc_cache :: bytes
  mc_opened :: bool
  mc_NewCanal :: "CanalConfig \<Rightarrow> bool"
  mc_master :: "Position option"
  mc_listen_err :: bool

text \<open>What the program can change before it waits.\<close>

record ('f, 'l, 'c) app =
  app_out :: string
  app_files :: 'f
  app_cfg :: cfg_state
  app_level :: "'l option"
  app_consul :: 'c

text \<open>\<open>Init\<close>: the process id is written whatever comes of it; a level that does not parse is
  left as it is; the time zone is loaded and dropped.\<close>

definition Init :: "('f, 'l, 'c) machine \<Rightarrow> ('f, 'l, 'c) app \<Rightarrow> ('f, 'l, 'c) app \<times> unit go" where
  "Init mc s =
     (let s1 = s\<lparr>app_files := mc_WriteFile mc PID_FILE (dec (mc_pid mc)) (app_files s)\<rparr>
      in case go_bind (deref (get_Config (app_cfg s1))) (\<lambda>cfg. deref (cfg_Log cfg)) of
           Ret lg \<Rightarrow> (case mc_ParseLevel mc (Level lg) of
                        Some level \<Rightarrow> (s1\<lparr>app_level := Some level\<rparr>, Ret ())
                      | None \<Rightarrow> (s1, Ret ()))
         | Panic p \<Rightarrow> (s1, Panic p)
         | Block \<Rightarrow> (s1, Block))"

text \<open>A call after which the state of Consul is \<open>c\<close> unless it returns another.\<close>

definition call_in :: "'c \<Rightarrow> 'a go \<Rightarrow> ('a \<Rightarrow> 'c \<times> 'b go) \<Rightarrow> 'c \<times> 'b go" where
  "call_in c r f = (case r of Ret x \<Rightarrow> f x | Panic p \<Rightarrow> (c, Panic p) | Block \<Rightarrow> (c, Block))"

text \<open>The construction of the node (\<open>main_start\<close>) with the state of Consul in which it ends,
  also when it panics: the constructors panic, if they do, before they call Consul.\<close>

definition construct :: "('f, 'l, 'c) machine \<Rightarrow> GlobalConfig \<Rightarrow> 'c \<Rightarrow> 'c \<times> 'c node go" where
  "construct mc cfg c =
     call_in c (deref (cfg_Consul cfg)) (\<lambda>con.
     call_in c (NewTCPService (mc_api mc) (mc_hostname mc) (cfg_Listen cfg) (cc_Enabled con) (cc_Addr con) c) (\<lambda>tcpService.
     let c1 = t_consul tcpService in
     call_in c1 (deref (cfg_Agent cfg)) (\<lambda>agc.
     call_in c1 (NewAgentServer (mc_api mc) (agc_Enabled agc) (agc_Listen agc) (agc_Lock agc)
         (new_binlog (mc_cache mc), tcpService) c1) (\<lambda>(ag, c2).
       let ag1 = ag_OnRaw sendRaw_cb (ag_OnEvent (sendAll_cb (mc_match mc)) ag)
       in call_in c2 (NewBinlog (mc_cache mc) (mc_opened mc) (mc_NewCanal mc) (cfg_Database cfg) (mc_master mc)) (\<lambda>blog.
            let ag2 = ag_OnPos save_cb (put_world (blog, tcp_Start tcpService) ag1);
                (ag3, out) = ag_OnLeader leader_cb ag2
            in call_in c2 out (\<lambda>_. (c2, Ret ag3)))))))"

text \<open>How \<open>main\<close> comes to a halt: the process ends with a status (\<open>os.Exit\<close>; 2 when a
  goroutine panics, as the agent's does when it cannot listen); a panic of \<open>main\<close> that the deferred function has caught
  and printed (with the node if it had been started, the deferred \<open>Close\<close> done); a call that
  does not return; or \<open>main\<close> waits for the signal, with the members handed to the agent's
  callback, the node, and the address of the administration.\<close>

datatype 'c main_end =
    Exit nat
  | Recovered go_panic "'c node option"
  | Stuck
  | Serves "ServiceMember list" "'c node" "string option"

definition main_admin ::
  "('f, 'l, 'c) machine \<Rightarrow> GlobalConfig \<Rightarrow> ServiceMember list \<Rightarrow> 'c node \<Rightarrow> 'c \<Rightarrow> 'c \<times> 'c main_end" where
  "main_admin mc cfg ms nd c =
     (case cfg_Admin cfg of
        Some adm \<Rightarrow> (c, Serves ms nd (if adm_Enabled adm then Some (adm_Listen adm) else None))
      | None \<Rightarrow>
          (case agent_Close (mc_api mc) nd c of
             Ret (nd', c') \<Rightarrow> (c', Recovered NilDereference (Some nd'))
           | Panic p \<Rightarrow> (c, Recovered p (Some nd))
           | Block \<Rightarrow> (c, Stuck)))"

definition main_node :: "('f, 'l, 'c) machine \<Rightarrow> GlobalConfig \<Rightarrow> 'c \<Rightarrow> 'c \<times> 'c main_end" where
  "main_node mc cfg c =
     (case construct mc cfg c of
        (c1, Panic p) \<Rightarrow> (c1, Recovered p None)
      | (c1, Block) \<Rightarrow> (c1, Stuck)
      | (c1, Ret nd) \<Rightarrow>
          (case agent_Start (mc_api mc) (mc_listen_err mc) nd c1 of
             Panic p \<Rightarrow> (c1, Exit 2)
           | Block \<Rightarrow> (c1, Stuck)
           | Ret (ms, nd1, c2) \<Rightarrow> main_admin mc cfg ms nd1 c2))"

definition main_program ::
  "('f, 'l, 'c) machine \<Rightarrow> flags \<Rightarrow> ('f, 'l, 'c) app \<Rightarrow> ('f, 'l, 'c) app \<times> 'c main_end" where
  "main_program mc fl s =
     (if helpCmd fl \<or> hCmd fl then (s\<lparr>app_out := app_out s @ Usage\<rparr>, Exit 0)
      else let s1 = s\<lparr>app_out := app_out s @ Banner @ version_text (mc_build mc)\<rparr>
      in if versionCmd fl \<or> vCmd fl then (s1, Exit 0)
      else case ParseConfig (mc_files mc) (mc_Unmarshal mc) (mc_exe mc) [] (app_files s1) (app_cfg s1) of
             Fatal \<Rightarrow> (s1, Exit 1)
           | Done (cfg, st) \<Rightarrow>
               (case Init mc (s1\<lparr>app_cfg := st\<rparr>) of
                  (s2, Panic p) \<Rightarrow> (s2, Recovered p None)
                | (s2, Block) \<Rightarrow> (s2, Stuck)
                | (s2, Ret _) \<Rightarrow>
                    let (c', e) = main_node mc cfg (app_consul s2) in (s2\<lparr>app_consul := c'\<rparr>, e)))"

text \<open>The handlers of the administration. A panic in a handler is caught by \<open>net/http\<close>, which
  then closes the connection; a path without a handler is not found.\<close>

datatype http_reply = Ok string | NotFound | Dropped

definition admin_handler :: "'c api \<Rightarrow> string option \<Rightarrow> string \<Rightarrow> 'c node \<Rightarrow> 'c \<Rightarrow> http_reply \<times> 'c" where
  "admin_handler api host path nd c =
     (if path = ''/health''
      then (case ShowMembers api host nd c of (Ret s, c') \<Rightarrow> (Ok s, c') | (_, c') \<Rightarrow> (Dropped, c'))
      else if path = ''/reload'' then (Ok ''reload'', c)
      else if path = ''/stop'' then (Ok ''stop'', c)
      else if path = ''/start'' then (Ok ''start'', c)
      else (NotFound, c))"

section \<open>What the start needs\<close>

lemma call_in_Ret: "call_in c r f = (c', Ret y) \<longleftrightarrow> (\<exists>x. r = Ret x \<and> f x = (c', Ret y))"
  by (cases r) (simp_all add: call_in_def)

text \<open>The construction is that of \<open>Node\<close>, which keeps the state of Consul only when it returns.\<close>

lemma construct_main_start:
  "construct mc cfg c = (c1, Ret nd) \<longleftrightarrow>
   main_start (mc_api mc) (mc_hostname mc) cfg (mc_match mc) (mc_cache mc) (mc_opened mc) (mc_NewCanal mc) (mc_master mc) c =
     Ret (nd, c1)"
  unfolding construct_def main_start_def Let_def
  by (auto simp: call_in_Ret go_simps case_prod_beta)

lemma main_node_Serves:
  "main_node mc cfg c = (c', Serves ms nd adm) \<longleftrightarrow>
   (\<exists>nd0 c1 ad. construct mc cfg c = (c1, Ret nd0) \<and> agent_Start (mc_api mc) (mc_listen_err mc) nd0 c1 = Ret (ms, nd, c') \<and>
     cfg_Admin cfg = Some ad \<and> adm = (if adm_Enabled ad then Some (adm_Listen ad) else None))"
  unfolding main_node_def main_admin_def
  by (auto split: prod.splits go.splits option.splits)

lemma Init_Ret:
  "Init mc s = (s', Ret u) \<Longrightarrow> \<exists>cfg lg. get_Config (app_cfg s) = Some cfg \<and> cfg_Log cfg = Some lg \<and>
    s' = s\<lparr>app_files := mc_WriteFile mc PID_FILE (dec (mc_pid mc)) (app_files s),
      app_level := (case mc_ParseLevel mc (Level lg) of None \<Rightarrow> app_level s | Some l \<Rightarrow> Some l)\<rparr>"
  unfolding Init_def Let_def by (auto simp: go_simps split: go.splits option.splits)

lemma ParseConfig_Done:
  "ParseConfig fs um exe p f st = Done (cfg, st') \<Longrightarrow> get_Config st' = Some cfg \<and> ConfigFile st' \<in> set (config_paths exe p)"
  unfolding ParseConfig_def Let_def
  by (auto simp: get_Config_def dest: first_config_SomeD split: option.splits)

text \<open>The branches of the program, as an equation for each outcome that goes on.\<close>

lemma main_program_Serves:
  "main_program mc fl s = (s', Serves ms nd adm) \<longleftrightarrow>
   \<not> (helpCmd fl \<or> hCmd fl \<or> versionCmd fl \<or> vCmd fl) \<and>
   (\<exists>cfg st s2 c'. ParseConfig (mc_files mc) (mc_Unmarshal mc) (mc_exe mc) [] (app_files s) (app_cfg s) = Done (cfg, st) \<and>
     Init mc (s\<lparr>app_out := app_out s @ Banner @ version_text (mc_build mc), app_cfg := st\<rparr>) = (s2, Ret ()) \<and>
     main_node mc cfg (app_consul s2) = (c', Serves ms nd adm) \<and> s' = s2\<lparr>app_consul := c'\<rparr>)"
  unfolding main_program_def Let_def
  by (auto split: prod.splits go.splits run.splits)

lemma main_start_needs:
  assumes "main_start api hostname cfg m file opened NewCanal master c = Ret (nd, c1)"
  shows "\<exists>con agc db cur. cfg_Consul cfg = Some con \<and> cfg_Agent cfg = Some agc \<and> cfg_Database cfg = Some db \<and>
    opened \<and> master = Some cur \<and> NewCanal (canal_config db) \<and> enable nd = agc_Enabled agc"
proof -
  obtain con t0 agc ag c2 h where *: "cfg_Consul cfg = Some con" "cfg_Agent cfg = Some agc"
    "NewAgentServer api (agc_Enabled agc) (agc_Listen agc) (agc_Lock agc) (new_binlog file, t0) (t_consul t0) = Ret (ag, c2)"
    "NewBinlog file opened NewCanal (cfg_Database cfg) master = Ret h"
    "\<exists>out. ag_OnLeader leader_cb (ag_OnPos save_cb (put_world (h, tcp_Start t0) (ag_OnRaw sendRaw_cb (ag_OnEvent (sendAll_cb m) ag)))) = (nd, out)"
    using assms unfolding main_start_def Let_def by (auto simp: go_simps case_prod_beta prod_eq_iff)
  have "enable ag = agc_Enabled agc"
    using *(3) by (auto simp: NewAgentServer_def Let_def go_simps case_prod_beta split: if_splits)
  moreover have "enable nd = enable ag"
    using *(5) by (auto simp: ag_OnLeader_def ag_OnPos_def ag_OnRaw_def ag_OnEvent_def Let_def split: if_splits prod.splits)
  moreover have "\<exists>db cur. cfg_Database cfg = Some db \<and> opened \<and> master = Some cur \<and> NewCanal (canal_config db)"
    using *(4) unfolding NewBinlog_def handlerInit_def Let_def
    by (cases "cfg_Database cfg") (auto simp: go_simps setHandler_def Let_def split: if_splits option.splits)
  ultimately show ?thesis using *(1,2) by auto
qed

end
