(* ===== verification/Start_Up.thy ===== *)
theory Start_Up
  imports Main_Program
begin

text \<open>
  What the start of a node achieves: the node that \<open>main_start\<close> builds, the work of a node that
  has been elected, the first node of a cluster, and the way from the command line to the
  running replication. The lemmas about a node that starts replicating are shared with the
  failover in \<open>Spec2Isabelle\<close>.
\<close>

section \<open>Starting replication\<close>

lemma leader_cb_starts:
  assumes "startServiceChan h < chan_cap"
  shows "leader_cb True (h, t) = ((h\<lparr>startServiceChan := startServiceChan h + 1\<rparr>, t), Ret ())"
  using assms by (simp add: leader_cb_def OnLeader_def StartService_def)

lemma started_runs:
  assumes "binlog_open h" and "\<not> has_flag (b_status h) binlogIsRunning" and "lastBinFile h \<noteq> []"
  shows "\<exists>h'. start_pass waited (lookStart_turn (h\<lparr>startServiceChan := n\<rparr>)) = Ret h' \<and>
    b_runs h' = b_runs h @ [\<lparr>pos_Name = lastBinFile h, pos_Pos = lastPos h\<rparr>]"
  using start_runs [of "h\<lparr>startServiceChan := n\<rparr>" waited] assms by (auto simp: binlog_open_def)

text \<open>What the election's callback starts.\<close>

lemma elected_node_runs:
  assumes "onLeader nd = [leader_cb]" and "IsLeader m" and "startServiceChan (fst (world nd)) < chan_cap"
    and "binlog_open (fst (world nd))" and "\<not> has_flag (b_status (fst (world nd))) binlogIsRunning"
    and "lastBinFile (fst (world nd)) \<noteq> []"
  shows "\<exists>nd' h. on_select m nd = (nd', Ret ()) \<and> ag_leader nd' \<and> start_pass waited (lookStart_turn (fst (world nd'))) = Ret h \<and>
    b_runs h = b_runs (fst (world nd)) @ [\<lparr>pos_Name = lastBinFile (fst (world nd)), pos_Pos = lastPos (fst (world nd))\<rparr>]"
proof -
  obtain h t where w: "world nd = (h, t)" by (metis prod.exhaust)
  have "on_select m nd = (nd\<lparr>ag_leader := True, ag_client := (ag_client nd)\<lparr>x_st := (h\<lparr>startServiceChan := startServiceChan h + 1\<rparr>, t)\<rparr>\<rparr>, Ret ())"
    using assms(1-3) w by (simp add: on_select_def world_def leader_cb_starts del: calls.simps)
  then show ?thesis
    using started_runs [of h waited "startServiceChan h + 1"] assms(4-6) w by (auto simp: world_def)
qed

section \<open>Start-up\<close>

lemma NewAgentServer_fields:
  assumes "NewAgentServer api en al lk w c = Ret (ag, c1)"
  shows "enable ag = en" "onPos ag = []" "onLeader ag = []" "onEvent ag = []" "x_st (ag_client ag) = w"
    "ag_server ag = NewServer"
  using assms by (auto simp: NewAgentServer_def Let_def NewAgentClient_def go_simps case_prod_beta split: if_splits)

lemma NewAgentServer_leader:
  assumes "NewAgentServer api True al lk w c = Ret (ag, c1)"
  shows "\<exists>ip port. NewLeader api lk AgentServiceName ip port c = (sService ag, c1)"
proof -
  obtain p where "(sService ag, c1) = NewLeader api lk AgentServiceName (split_at (CHR '':'') al ! 0) (fst (ParseInt 32 p)) c"
    using assms by (auto simp: NewAgentServer_def Let_def go_simps case_prod_beta prod_eq_iff)
  then show ?thesis by metis
qed

text \<open>What \<open>main\<close> builds: the binlog component at its position, the agent with its callbacks
  (if it is enabled), its leadership service, and the start signal if it is not.\<close>

lemma main_start_built:
  assumes "cfg_Consul cfg = Some con" and "cfg_Agent cfg = Some agc" and "cfg_Database cfg = Some db"
    and "NewTCPService api hostname (cfg_Listen cfg) (cc_Enabled con) (cc_Addr con) c = Ret t0"
    and "NewAgentServer api (agc_Enabled agc) (agc_Listen agc) (agc_Lock agc) (new_binlog file, t0) (t_consul t0) = Ret (ag, c1)"
    and "read_cache file = Ret (f, p, i)" and "NewCanal (canal_config db)" and "pos_Name cur \<noteq> []"
  shows "\<exists>nd h. main_start api hostname cfg m file True NewCanal (Some cur) c = Ret (nd, c1) \<and> enable nd = agc_Enabled agc \<and>
    sService nd = sService ag \<and> binlog_open h \<and> startServiceChan h = 0 \<and> \<not> has_flag (b_status h) binlogIsRunning \<and>
    b_runs h = [] \<and> lastBinFile h = fst (start_position f p cur) \<and> lastPos h = snd (start_position f p cur) \<and>
    lastBinFile h \<noteq> [] \<and> snd (world nd) = tcp_Start t0 \<and> ag_server nd = NewServer \<and>
    (if agc_Enabled agc then onPos nd = [save_cb] \<and> onLeader nd = [leader_cb] \<and> onEvent nd = [sendAll_cb m] \<and> fst (world nd) = h
     else fst (world nd) = h\<lparr>startServiceChan := 1\<rparr>)"
proof -
  obtain h where new: "NewBinlog file True NewCanal (Some db) (Some cur) = Ret h" and h: "binlog_open h" "startServiceChan h = 0"
    "\<not> has_flag (b_status h) binlogIsRunning" "b_runs h = []" "lastBinFile h = fst (start_position f p cur)"
    "lastPos h = snd (start_position f p cur)"
    using NewBinlog_cache [where NewCanal = NewCanal and db = db, OF assms(6,7), of cur]
    by (auto simp: Let_def new_binlog_def binlog_open_def binlog_flags flag_simps split: prod.splits)
  note ag = NewAgentServer_fields [OF assms(5)]
  have ne: "lastBinFile h \<noteq> []" using h(5) assms(8) by (auto simp: start_position_def Let_def)
  have start: "leader_cb True (h, tcp_Start t0) = ((h\<lparr>startServiceChan := 1\<rparr>, tcp_Start t0), Ret ())"
    using h(2) by (simp add: leader_cb_starts chan_cap_def)
  define ag2 where "ag2 = ag_OnPos save_cb (put_world (h, tcp_Start t0) (ag_OnRaw sendRaw_cb (ag_OnEvent (sendAll_cb m) ag)))"
  have run: "main_start api hostname cfg m file True NewCanal (Some cur) c =
      (case ag_OnLeader leader_cb ag2 of (ag3, out) \<Rightarrow> go_bind out (\<lambda>_. Ret (ag3, c1)))"
    by (simp add: main_start_def assms(1-5) new Let_def ag2_def)
  have ag2: "world ag2 = (h, tcp_Start t0)" "sService ag2 = sService ag" "enable ag2 = agc_Enabled agc" "ag_server ag2 = NewServer"
    using ag by (simp_all add: ag2_def ag_OnRaw_def ag_OnEvent_def ag_OnPos_def world_def put_world_def)
  show ?thesis
  proof (cases "agc_Enabled agc")
    case True
    with ag have "onPos ag2 = [save_cb]" "onLeader ag2 = []" "onEvent ag2 = [sendAll_cb m]"
      by (simp_all add: ag2_def ag_OnRaw_def ag_OnEvent_def ag_OnPos_def world_def put_world_def)
    with True h ne run ag2 show ?thesis by (simp add: ag_OnLeader_def world_def)
  next
    case False
    with h ne start run ag2 show ?thesis
      by (intro exI [of _ "fst (ag_OnLeader leader_cb ag2)"] exI [of _ h]) (simp add: ag_OnLeader_def world_def)
  qed
qed

text \<open>
  C32. Start-up: the node \<open>main\<close> builds has its agent wired to its own components. With the
  agent disabled the node is its own leader: the start signal is sent at once and replication
  runs from the position in the cache (or the master's). With the agent enabled the callbacks
  for positions, events and elections are installed, and no signal is sent before the election.
\<close>

theorem start_up:
  assumes "cfg_Consul cfg = Some con" and "cfg_Agent cfg = Some agc" and "cfg_Database cfg = Some db"
    and "NewTCPService api hostname (cfg_Listen cfg) (cc_Enabled con) (cc_Addr con) c = Ret t0"
    and "NewAgentServer api (agc_Enabled agc) (agc_Listen agc) (agc_Lock agc) (new_binlog file, t0) (t_consul t0) = Ret (ag, c1)"
    and "read_cache file = Ret (f, p, i)" and "NewCanal (canal_config db)" and "pos_Name cur \<noteq> []"
  shows "\<exists>nd. main_start api hostname cfg m file True NewCanal (Some cur) c = Ret (nd, c1) \<and> enable nd = agc_Enabled agc \<and>
    binlog_open (fst (world nd)) \<and> snd (world nd) = tcp_Start t0 \<and>
    (if agc_Enabled agc then onPos nd = [save_cb] \<and> onLeader nd = [leader_cb] \<and> onEvent nd = [sendAll_cb m] \<and>
        startServiceChan (fst (world nd)) = 0
     else \<exists>h. start_pass waited (lookStart_turn (fst (world nd))) = Ret h \<and>
        b_runs h = [\<lparr>pos_Name = fst (start_position f p cur), pos_Pos = snd (start_position f p cur)\<rparr>])"
proof -
  obtain nd h where nd: "main_start api hostname cfg m file True NewCanal (Some cur) c = Ret (nd, c1)" "enable nd = agc_Enabled agc"
    "snd (world nd) = tcp_Start t0"
    "if agc_Enabled agc then onPos nd = [save_cb] \<and> onLeader nd = [leader_cb] \<and> onEvent nd = [sendAll_cb m] \<and> fst (world nd) = h
     else fst (world nd) = h\<lparr>startServiceChan := 1\<rparr>"
    and h: "binlog_open h" "startServiceChan h = 0" "\<not> has_flag (b_status h) binlogIsRunning" "lastBinFile h \<noteq> []" "b_runs h = []"
      "lastBinFile h = fst (start_position f p cur)" "lastPos h = snd (start_position f p cur)"
    using main_start_built [where NewCanal = NewCanal and db = db and m = m, OF assms] by blast
  show ?thesis
    using nd h(2,5-7) started_runs [OF h(1,3,4), of waited 1] h(1)
    by (intro exI [of _ nd]) (auto simp: binlog_open_def split: if_splits)
qed

definition demo_cfg :: GlobalConfig where
  "demo_cfg = \<lparr>cfg_Log = None, cfg_Admin = None, TimeZone = [], cfg_Database = Some demo_db, cfg_Listen = ''10.0.0.1:9990'',
     cfg_Consul = Some \<lparr>cc_Enabled = False, cc_Addr = []\<rparr>,
     cfg_Agent = Some \<lparr>agc_Enabled = False, agc_Lock = [], agc_Listen = [], agc_Consul = []\<rparr>\<rparr>"

theorem start_up_witness:
  "\<exists>nd h. main_start consul_api ''h'' demo_cfg (\<lambda>p s. (p = s, None)) [] True (\<lambda>_. True)
       (Some \<lparr>pos_Name = ''bin.7'', pos_Pos = 4\<rparr>) no_consul = Ret (nd, no_consul) \<and>
     start_pass 0 (lookStart_turn (fst (world nd))) = Ret h \<and> b_runs h = [\<lparr>pos_Name = ''bin.7'', pos_Pos = 4\<rparr>]"
proof -
  have c: "t_consul demo_new = no_consul" by (simp add: demo_new_def newTCPService_def)
  obtain ag where ag: "NewAgentServer consul_api False [] [] (new_binlog [], demo_new) (t_consul demo_new) = Ret (ag, no_consul)"
    by (simp add: NewAgentServer_def c)
  have "read_cache [] = Ret ([], 0, 0)" by (simp add: read_cache_def read_buffer_def)
  from start_up [of demo_cfg "\<lparr>cc_Enabled = False, cc_Addr = []\<rparr>"
      "\<lparr>agc_Enabled = False, agc_Lock = [], agc_Listen = [], agc_Consul = []\<rparr>" demo_db consul_api "''h''" no_consul demo_new "[]" ag no_consul "[]" 0 0 "\<lambda>_. True"
      "\<lparr>pos_Name = ''bin.7'', pos_Pos = 4\<rparr>" "\<lambda>p s. (p = s, None)" 0] demo_new ag this
  show ?thesis by (auto simp: start_position_def demo_cfg_def)
qed

text \<open>The first node of a cluster, with the state in which it leaves its agent.\<close>

lemma first_node:
  assumes "consul_lock_live api valid holder" and "cfg_Consul cfg = Some con" and "cfg_Agent cfg = Some agc"
    and "cfg_Database cfg = Some db" and "agc_Enabled agc"
    and "NewTCPService api hostname (cfg_Listen cfg) (cc_Enabled con) (cc_Addr con) c = Ret t0"
    and "NewAgentServer api (agc_Enabled agc) (agc_Listen agc) (agc_Lock agc) (new_binlog file, t0) (t_consul t0) = Ret (ag, c1)"
    and "holder (t_consul t0) (agc_Lock agc) = None"
    and "read_cache file = Ret (f, p, i)" and "NewCanal (canal_config db)" and "pos_Name cur \<noteq> []"
  shows "\<exists>nd m nd1 c2 nd2 h. main_start api hostname cfg mt file True NewCanal (Some cur) c = Ret (nd, c1) \<and>
    enable nd1 \<and> ag_server nd1 = NewServer\<lparr>a_listener := Some True\<rparr> \<and> lock_key (sService nd1) = agc_Lock agc \<and>
    agent_Start api False nd c1 = Ret ([m], nd1, c2) \<and> IsLeader m \<and> leader (sService nd1) \<and>
    holder c2 (agc_Lock agc) = Some (sid (sService ag)) \<and>
    on_select m nd1 = (nd2, Ret ()) \<and> ag_leader nd2 \<and> start_pass waited (lookStart_turn (fst (world nd2))) = Ret h \<and>
    b_runs h = [\<lparr>pos_Name = fst (start_position f p cur), pos_Pos = snd (start_position f p cur)\<rparr>]"
proof -
  obtain nd h where nd: "main_start api hostname cfg mt file True NewCanal (Some cur) c = Ret (nd, c1)" "enable nd"
    "sService nd = sService ag" "onLeader nd = [leader_cb]" "fst (world nd) = h" "ag_server nd = NewServer"
    and h: "binlog_open h" "startServiceChan h = 0" "\<not> has_flag (b_status h) binlogIsRunning" "lastBinFile h \<noteq> []" "b_runs h = []"
      "lastBinFile h = fst (start_position f p cur)" "lastPos h = snd (start_position f p cur)"
    using main_start_built [where NewCanal = NewCanal and db = db and m = mt, OF assms(2-4,6,7,9-11)] assms(5)
    by (auto split: if_splits)
  obtain ip port where "NewLeader api (agc_Lock agc) AgentServiceName ip port (t_consul t0) = (sService ag, c1)"
    using NewAgentServer_leader assms(5,7) by metis
  from consul_lock_live.NewLeader_session [OF assms(1) this]
  have l: "valid c1 (sid (sService ag))" "holder c1 (lock_key (sService ag)) = None" "lock_key (sService ag) = agc_Lock agc"
    using assms(8) by simp_all
  from consul_lock_live.first_campaign_wins [OF assms(1) l(1,2)] obtain l' c2 where
    win: "select_first api (sService ag) c1 = ([member_of (sService ag) True], l', c2)" "leader l'"
      "holder c2 (agc_Lock agc) = Some (sid (sService ag))" "lock_key l' = agc_Lock agc"
    using l(3) by auto
  let ?m = "member_of (sService ag) True"
  define nd1 where "nd1 = nd\<lparr>ag_server := (ag_server nd)\<lparr>a_listener := Some True\<rparr>, sService := l'\<rparr>"
  have start: "agent_Start api False nd c1 = Ret ([?m], nd1, c2)"
    using nd(2,3) win(1) by (simp add: agent_Start_def agent_listen_def nd1_def)
  have w: "fst (world nd1) = h" "onLeader nd1 = [leader_cb]" "IsLeader ?m" using nd(4,5) by (simp_all add: nd1_def world_def member_of_def)
  obtain nd2 h' where "on_select ?m nd1 = (nd2, Ret ())" "ag_leader nd2" "start_pass waited (lookStart_turn (fst (world nd2))) = Ret h'"
    "b_runs h' = [\<lparr>pos_Name = lastBinFile h, pos_Pos = lastPos h\<rparr>]"
    using elected_node_runs [OF w(2,3), of waited] w(1) h by (auto simp: chan_cap_def)
  then show ?thesis using nd(1,2,6) start win(2-4) w(3) h(6,7)
    by (intro exI [of _ nd] exI [of _ ?m] exI [of _ nd1] exI [of _ c2] exI [of _ nd2] exI [of _ h']) (simp add: nd1_def)
qed

theorem first_node_replicates:
  assumes "consul_lock_live api valid holder" and "cfg_Consul cfg = Some con" and "cfg_Agent cfg = Some agc"
    and "cfg_Database cfg = Some db" and "agc_Enabled agc"
    and "NewTCPService api hostname (cfg_Listen cfg) (cc_Enabled con) (cc_Addr con) c = Ret t0"
    and "NewAgentServer api (agc_Enabled agc) (agc_Listen agc) (agc_Lock agc) (new_binlog file, t0) (t_consul t0) = Ret (ag, c1)"
    and "holder (t_consul t0) (agc_Lock agc) = None"
    and "read_cache file = Ret (f, p, i)" and "NewCanal (canal_config db)" and "pos_Name cur \<noteq> []"
  shows "\<exists>nd m nd1 c2 nd2 h. main_start api hostname cfg mt file True NewCanal (Some cur) c = Ret (nd, c1) \<and>
    agent_Start api False nd c1 = Ret ([m], nd1, c2) \<and> IsLeader m \<and> leader (sService nd1) \<and>
    holder c2 (agc_Lock agc) = Some (sid (sService ag)) \<and>
    on_select m nd1 = (nd2, Ret ()) \<and> ag_leader nd2 \<and> start_pass waited (lookStart_turn (fst (world nd2))) = Ret h \<and>
    b_runs h = [\<lparr>pos_Name = fst (start_position f p cur), pos_Pos = snd (start_position f p cur)\<rparr>]"
  using first_node [where NewCanal = NewCanal and mt = mt and cur = cur and waited = waited, OF assms] by blast

definition demo_cluster_cfg :: GlobalConfig where
  "demo_cluster_cfg = demo_cfg\<lparr>cfg_Agent := Some \<lparr>agc_Enabled = True, agc_Lock = ''agent_lock'',
     agc_Listen = ''10.0.0.1:9991'', agc_Consul = ''c:8500''\<rparr>\<rparr>"

lemma demo_cluster_agent:
  obtains ag c1 where "NewAgentServer consul_api True ''10.0.0.1:9991'' ''agent_lock'' (new_binlog [], demo_new) (t_consul demo_new) =
    Ret (ag, c1)"
proof -
  have "split_at (CHR '':'') (''10.0.0.1'' @ CHR '':'' # ''9991'') = [''10.0.0.1'', ''9991'']"
    by (rule split_at_address) simp_all
  then show thesis using that by (simp add: NewAgentServer_def Let_def case_prod_beta)
qed

theorem first_node_replicates_witness:
  "\<exists>nd c1 m nd1 c2 nd2 h. main_start consul_api ''h'' demo_cluster_cfg (\<lambda>p s. (p = s, None)) [] True (\<lambda>_. True)
       (Some \<lparr>pos_Name = ''bin.7'', pos_Pos = 4\<rparr>) no_consul = Ret (nd, c1) \<and>
     agent_Start consul_api False nd c1 = Ret ([m], nd1, c2) \<and> leader (sService nd1) \<and>
     on_select m nd1 = (nd2, Ret ()) \<and> start_pass 0 (lookStart_turn (fst (world nd2))) = Ret h \<and>
     b_runs h = [\<lparr>pos_Name = ''bin.7'', pos_Pos = 4\<rparr>]"
proof -
  let ?con = "\<lparr>cc_Enabled = False, cc_Addr = []\<rparr>"
  let ?agc = "\<lparr>agc_Enabled = True, agc_Lock = ''agent_lock'', agc_Listen = ''10.0.0.1:9991'', agc_Consul = ''c:8500''\<rparr>"
  have c: "t_consul demo_new = no_consul" by (simp add: demo_new_def newTCPService_def)
  obtain ag c1 where ag: "NewAgentServer consul_api True ''10.0.0.1:9991'' ''agent_lock'' (new_binlog [], demo_new)
      (t_consul demo_new) = Ret (ag, c1)"
    by (rule demo_cluster_agent)
  have cfg: "cfg_Consul demo_cluster_cfg = Some ?con" "cfg_Agent demo_cluster_cfg = Some ?agc"
    "cfg_Database demo_cluster_cfg = Some demo_db" "agc_Enabled ?agc"
    "NewTCPService consul_api ''h'' (cfg_Listen demo_cluster_cfg) (cc_Enabled ?con) (cc_Addr ?con) no_consul = Ret demo_new"
    using demo_new by (simp_all add: demo_cluster_cfg_def demo_cfg_def)
  have free: "locks (t_consul demo_new) (agc_Lock ?agc) = None" by (simp add: c no_consul_def)
  have cache: "read_cache [] = Ret ([], 0, 0)" by (simp add: read_cache_def read_buffer_def)
  have ag': "NewAgentServer consul_api (agc_Enabled ?agc) (agc_Listen ?agc) (agc_Lock ?agc) (new_binlog [], demo_new)
      (t_consul demo_new) = Ret (ag, c1)" using ag by simp
  from first_node_replicates [where NewCanal = "\<lambda>_. True" and waited = 0 and mt = "\<lambda>p s. (p = s, None)" and
      cur = "\<lparr>pos_Name = ''bin.7'', pos_Pos = 4\<rparr>", OF consul.consul_lock_live_axioms cfg ag' free cache]
  show ?thesis by (auto simp: start_position_def)
qed

section \<open>From the command line\<close>

text \<open>No flag that only asks for text, and the file system map from paths to texts.\<close>

definition goes_on :: "flags \<Rightarrow> bool" where
  "goes_on fl \<longleftrightarrow> \<not> helpCmd fl \<and> \<not> hCmd fl \<and> \<not> versionCmd fl \<and> \<not> vCmd fl"

text \<open>What precedes the construction of the node.\<close>

lemma main_program_node:
  assumes "goes_on fl" and "ParseConfig (mc_files mc) (mc_Unmarshal mc) (mc_exe mc) [] (app_files s) (app_cfg s) = Done (cfg, st)"
    and "cfg_Log cfg = Some lg" and "main_node mc cfg (app_consul s) = (c', e)"
  shows "\<exists>s'. main_program mc fl s = (s', e) \<and> app_consul s' = c' \<and> app_cfg s' = st"
proof -
  have "get_Config st = Some cfg" using ParseConfig_Done [OF assms(2)] by simp
  then show ?thesis
    using assms by (auto simp: main_program_def goes_on_def Init_def Let_def split: option.splits)
qed

text \<open>
  C35. Before it waits for subscribers the program has read a configuration that names all of
  its sections: if \<open>log\<close>, \<open>consul\<close>, \<open>agent\<close>, \<open>database\<close> or \<open>admin\<close> is missing, or the position
  cache cannot be opened or the master not be asked, \<open>main\<close> does not get there. When it does,
  none of the text flags was given, the file read is one of the paths it looks for, and the
  process id has been written.
\<close>

theorem serving_needs_all_sections:
  assumes "main_program mc fl s = (s', Serves ms nd adm)"
  shows "\<exists>cfg lg ad con agc db. get_Config (app_cfg s') = Some cfg \<and> cfg_Log cfg = Some lg \<and> cfg_Admin cfg = Some ad \<and>
    cfg_Consul cfg = Some con \<and> cfg_Agent cfg = Some agc \<and> cfg_Database cfg = Some db \<and>
    adm = (if adm_Enabled ad then Some (adm_Listen ad) else None) \<and> enable nd = agc_Enabled agc \<and>
    ConfigFile (app_cfg s') \<in> set (config_paths (mc_exe mc) []) \<and>
    app_files s' = mc_WriteFile mc PID_FILE (dec (mc_pid mc)) (app_files s) \<and>
    mc_opened mc \<and> mc_master mc \<noteq> None \<and> mc_NewCanal mc (canal_config db) \<and> goes_on fl"
proof -
  obtain cfg st s2 c' where p: "ParseConfig (mc_files mc) (mc_Unmarshal mc) (mc_exe mc) [] (app_files s) (app_cfg s) = Done (cfg, st)"
    "Init mc (s\<lparr>app_out := app_out s @ Banner @ version_text (mc_build mc), app_cfg := st\<rparr>) = (s2, Ret ())"
    "main_node mc cfg (app_consul s2) = (c', Serves ms nd adm)" "s' = s2\<lparr>app_consul := c'\<rparr>" and fl: "goes_on fl"
    using assms unfolding main_program_Serves goes_on_def by blast
  note cfg = ParseConfig_Done [OF p(1)]
  obtain nd0 c1 ad where n: "construct mc cfg (app_consul s2) = (c1, Ret nd0)"
    "agent_Start (mc_api mc) (mc_listen_err mc) nd0 c1 = Ret (ms, nd, c')" "cfg_Admin cfg = Some ad"
    "adm = (if adm_Enabled ad then Some (adm_Listen ad) else None)"
    using p(3) unfolding main_node_Serves by blast
  have en: "enable nd = enable nd0"
    using n(2) by (cases "select_first (mc_api mc) (sService nd0) c1") (auto simp: agent_Start_def Let_def go_simps split: if_splits)
  from Init_Ret [OF p(2)] cfg obtain lg where lg: "cfg_Log cfg = Some lg" "app_cfg s' = st"
    "app_files s' = mc_WriteFile mc PID_FILE (dec (mc_pid mc)) (app_files s)"
    using p(4) by auto
  from main_start_needs [OF n(1) [unfolded construct_main_start]] show ?thesis
    using cfg n(3,4) en lg fl by auto
qed

text \<open>
  C8. From the command line to the running replication: on a machine whose configuration names
  all sections, with the agent enabled, Consul reachable and the lock free, the program comes
  to wait for its signal as the leader of the cluster; its election callback has been handed
  the news, and the replication this starts runs from the position in the cache (or the
  master's).
\<close>

theorem command_line_to_replication:
  assumes "consul_lock_live (mc_api mc) valid holder" and "goes_on fl"
    and "ParseConfig (mc_files mc) (mc_Unmarshal mc) (mc_exe mc) [] (app_files s) (app_cfg s) = Done (cfg, st)"
    and "cfg_Log cfg = Some lg" and "cfg_Admin cfg = Some ad"
    and "cfg_Consul cfg = Some con" and "cfg_Agent cfg = Some agc" and "cfg_Database cfg = Some db" and "agc_Enabled agc"
    and "NewTCPService (mc_api mc) (mc_hostname mc) (cfg_Listen cfg) (cc_Enabled con) (cc_Addr con) (app_consul s) = Ret t0"
    and "NewAgentServer (mc_api mc) (agc_Enabled agc) (agc_Listen agc) (agc_Lock agc) (new_binlog (mc_cache mc), t0)
      (t_consul t0) = Ret (ag, c1)"
    and "holder (t_consul t0) (agc_Lock agc) = None"
    and "read_cache (mc_cache mc) = Ret (f, p, i)" and "mc_opened mc" and "mc_NewCanal mc (canal_config db)"
    and "mc_master mc = Some cur" and "pos_Name cur \<noteq> []" and "\<not> mc_listen_err mc"
  shows "\<exists>s' m nd nd2 h. main_program mc fl s =
      (s', Serves [m] nd (if adm_Enabled ad then Some (adm_Listen ad) else None)) \<and>
    IsLeader m \<and> leader (sService nd) \<and> holder (app_consul s') (agc_Lock agc) = Some (sid (sService ag)) \<and>
    on_select m nd = (nd2, Ret ()) \<and> ag_leader nd2 \<and> start_pass waited (lookStart_turn (fst (world nd2))) = Ret h \<and>
    b_runs h = [\<lparr>pos_Name = fst (start_position f p cur), pos_Pos = snd (start_position f p cur)\<rparr>]"
proof -
  obtain nd m nd1 c2 nd2 h where *: "main_start (mc_api mc) (mc_hostname mc) cfg (mc_match mc) (mc_cache mc) True (mc_NewCanal mc)
      (Some cur) (app_consul s) = Ret (nd, c1)"
    "agent_Start (mc_api mc) False nd c1 = Ret ([m], nd1, c2)" "IsLeader m" "leader (sService nd1)"
    "holder c2 (agc_Lock agc) = Some (sid (sService ag))" "on_select m nd1 = (nd2, Ret ())" "ag_leader nd2"
    "start_pass waited (lookStart_turn (fst (world nd2))) = Ret h"
    "b_runs h = [\<lparr>pos_Name = fst (start_position f p cur), pos_Pos = snd (start_position f p cur)\<rparr>]"
    using first_node [where NewCanal = "mc_NewCanal mc" and mt = "mc_match mc" and cur = cur and waited = waited,
        OF assms(1,6-13,15,17)] by blast
  have "construct mc cfg (app_consul s) = (c1, Ret nd)"
    using *(1) assms(14,16) by (simp add: construct_main_start)
  then have "main_node mc cfg (app_consul s) = (c2, Serves [m] nd1 (if adm_Enabled ad then Some (adm_Listen ad) else None))"
    using *(2) assms(5,18) by (simp add: main_node_def main_admin_def)
  from main_program_node [OF assms(2-4) this] * show ?thesis by blast
qed

text \<open>
  Without an \<open>admin\<close> section the same node does not stay: \<open>main\<close> panics on the missing
  section after the agent has campaigned, its deferred functions close the agent and catch
  the panic, and the lock of the election that the node has just won is free again.
\<close>

theorem no_admin_section_gives_up_lead:
  assumes "consul_lock_live (mc_api mc) valid holder" and "goes_on fl"
    and "ParseConfig (mc_files mc) (mc_Unmarshal mc) (mc_exe mc) [] (app_files s) (app_cfg s) = Done (cfg, st)"
    and "cfg_Log cfg = Some lg" and "cfg_Admin cfg = None"
    and "cfg_Consul cfg = Some con" and "cfg_Agent cfg = Some agc" and "cfg_Database cfg = Some db" and "agc_Enabled agc"
    and "NewTCPService (mc_api mc) (mc_hostname mc) (cfg_Listen cfg) (cc_Enabled con) (cc_Addr con) (app_consul s) = Ret t0"
    and "NewAgentServer (mc_api mc) (agc_Enabled agc) (agc_Listen agc) (agc_Lock agc) (new_binlog (mc_cache mc), t0)
      (t_consul t0) = Ret (ag, c1)"
    and "holder (t_consul t0) (agc_Lock agc) = None"
    and "read_cache (mc_cache mc) = Ret (f, p, i)" and "mc_opened mc" and "mc_NewCanal mc (canal_config db)"
    and "mc_master mc = Some cur" and "pos_Name cur \<noteq> []" and "\<not> mc_listen_err mc"
  shows "\<exists>s' nd. main_program mc fl s = (s', Recovered NilDereference (Some nd)) \<and>
    \<not> leader (sService nd) \<and> holder (app_consul s') (agc_Lock agc) = None"
proof -
  obtain nd m nd1 c2 where *: "main_start (mc_api mc) (mc_hostname mc) cfg (mc_match mc) (mc_cache mc) True (mc_NewCanal mc)
      (Some cur) (app_consul s) = Ret (nd, c1)" "enable nd1" "ag_server nd1 = NewServer\<lparr>a_listener := Some True\<rparr>"
    "lock_key (sService nd1) = agc_Lock agc" "agent_Start (mc_api mc) False nd c1 = Ret ([m], nd1, c2)" "leader (sService nd1)"
    using first_node [where NewCanal = "mc_NewCanal mc" and mt = "mc_match mc" and cur = cur and waited = 0,
        OF assms(1,6-13,15,17)] by blast
  have "agents_wf (ag_server nd1)" using *(3) by (simp add: agents_wf_def NewServer_def gs_make_def has_flag_def)
  then obtain sv where sv: "Server_Close (ag_server nd1) = Ret sv" using Server_Close_returns by blast
  obtain l' c3 where fr: "Leader_Free (mc_api mc) (sService nd1) c2 = (l', c3)" by (metis prod.exhaust)
  have free: "\<not> leader l'" "holder c3 (agc_Lock agc) = None"
    using consul_lock_live.Leader_Free_frees [OF assms(1) fr *(6)] fr *(4)
    by (auto simp: Leader_Free_def split: prod.splits if_splits)
  have "construct mc cfg (app_consul s) = (c1, Ret nd)"
    using *(1) assms(14,16) by (simp add: construct_main_start)
  then have "main_node mc cfg (app_consul s) =
      (c3, Recovered NilDereference (Some (nd1\<lparr>ag_server := sv, sService := l'\<rparr>)))"
    using *(2,5) sv fr assms(5,18) by (simp add: main_node_def main_admin_def agent_Close_def)
  from main_program_node [OF assms(2-4) this] free show ?thesis by auto
qed

text \<open>A machine whose only configuration file is \<^verbatim>\<open>/etc/copycat/cfg.json\<close>, with the content
  \<open>cfg\<close>; and the configuration of \<^verbatim>\<open>src/cfg.json\<close>, whose key \<open>enable\<close> of the agent is not
  the one the code reads.\<close>

definition demo_machine :: "GlobalConfig \<Rightarrow> (string \<rightharpoonup> string, string, consul) machine" where
  "demo_machine cfg =
     \<lparr>mc_files = map_files, mc_WriteFile = (\<lambda>p t f. f(p \<mapsto> t)),
      mc_ParseLevel = (\<lambda>l. if l \<in> {''debug'', ''info'', ''error''} then Some l else None), mc_Unmarshal = (\<lambda>_. Some cfg),
      mc_exe = ''/opt/copycat'', mc_pid = 77,
      mc_build = \<lparr>Version = ''1.0'', Git = [], Compile = [], Distro = [], Kernel = [], Branch = []\<rparr>,
      mc_api = consul_api, mc_hostname = ''h'', mc_match = (\<lambda>p s. (p = s, None)), mc_cache = [], mc_opened = True,
      mc_NewCanal = (\<lambda>_. True), mc_master = Some \<lparr>pos_Name = ''bin.7'', pos_Pos = 4\<rparr>, mc_listen_err = False\<rparr>"

definition demo_app :: "(string \<rightharpoonup> string, string, consul) app" where
  "demo_app = \<lparr>app_out = [], app_files = [''/etc/copycat/cfg.json'' \<mapsto> ''{}''], app_cfg = \<lparr>ConfigFile = [], cfg_config = None\<rparr>,
     app_level = None, app_consul = no_consul\<rparr>"

definition no_flags :: flags where
  "no_flags = \<lparr>versionCmd = False, vCmd = False, helpCmd = False, hCmd = False, daemonCmd = False, dCmd = False\<rparr>"

definition shipped_cfg :: GlobalConfig where
  "shipped_cfg =
     \<lparr>cfg_Log = Some \<lparr>Level = ''debug''\<rparr>, cfg_Admin = Some \<lparr>adm_Enabled = False, adm_Listen = ''0.0.0.0:9998''\<rparr>,
      TimeZone = ''Local'',
      cfg_Database = Some \<lparr>db_Host = ''127.0.0.1'', db_Port = 3306, db_User = ''replicate'', db_Password = ''123456'',
        db_Charset = ''utf8mb4'', db_ServerID = 987654321, db_Flavor = ''mariadb'', db_HeartbeatPeriod = 30000000000,
        db_ReadTimeout = 0, db_BinlogFile = ''mysql-bin.000001'', db_BinlogPos = 4\<rparr>,
      cfg_Listen = ''0.0.0.0:9990'', cfg_Consul = Some \<lparr>cc_Enabled = False, cc_Addr = ''127.0.0.1:8500''\<rparr>,
      cfg_Agent = Some \<lparr>agc_Enabled = False, agc_Lock = ''agent_lock'', agc_Listen = ''0.0.0.0:9999'',
        agc_Consul = ''127.0.0.1:8500''\<rparr>\<rparr>"

lemma demo_start:
  "goes_on no_flags"
  "ParseConfig (mc_files (demo_machine cfg)) (mc_Unmarshal (demo_machine cfg)) (mc_exe (demo_machine cfg)) [] (app_files demo_app)
     (app_cfg demo_app) = Done (cfg, \<lparr>ConfigFile = ''/etc/copycat/cfg.json'', cfg_config = Some cfg\<rparr>)"
  "app_consul demo_app = no_consul" "t_consul demo_new = no_consul" "read_cache [] = Ret ([], 0, 0)"
  by (simp_all add: goes_on_def no_flags_def demo_machine_def demo_app_def ParseConfig_def config_paths_def map_files_def Let_def
      TrimSpace_def demo_new_def newTCPService_def read_cache_def read_buffer_def)

lemma demo_single:
  "\<exists>nd. main_start consul_api ''h'' shipped_cfg (\<lambda>p s. (p = s, None)) [] True (\<lambda>_. True)
     (Some \<lparr>pos_Name = ''bin.7'', pos_Pos = 4\<rparr>) no_consul = Ret (nd, no_consul) \<and> \<not> enable nd"
proof -
  let ?t = "newTCPService ''0.0.0.0:9990'' no_consul"
  obtain con agc db where cfg: "cfg_Consul shipped_cfg = Some con" "cfg_Agent shipped_cfg = Some agc" "cfg_Database shipped_cfg = Some db"
    and off: "\<not> cc_Enabled con" "\<not> agc_Enabled agc" "cfg_Listen shipped_cfg = ''0.0.0.0:9990''"
    by (simp add: shipped_cfg_def)
  have tcp: "NewTCPService consul_api ''h'' (cfg_Listen shipped_cfg) (cc_Enabled con) (cc_Addr con) no_consul = Ret ?t"
    using off by (simp add: NewTCPService_def Let_def)
  have "t_consul ?t = no_consul" by (simp add: newTCPService_def)
  then obtain ag where ag: "NewAgentServer consul_api (agc_Enabled agc) (agc_Listen agc) (agc_Lock agc) (new_binlog [], ?t)
      (t_consul ?t) = Ret (ag, no_consul)"
    using off(2) by (simp add: NewAgentServer_def)
  from main_start_built [where NewCanal = "\<lambda>_. True" and cur = "\<lparr>pos_Name = ''bin.7'', pos_Pos = 4\<rparr>", OF cfg tcp ag demo_start(5)]
  show ?thesis using off(2) by auto
qed

theorem serving_needs_all_sections_witness:
  "\<exists>s' nd. main_program (demo_machine shipped_cfg) no_flags demo_app = (s', Serves [] nd None) \<and>
     app_files s' PID_FILE = Some (dec 77) \<and> ConfigFile (app_cfg s') \<in> set (config_paths ''/opt/copycat'' [])"
proof -
  let ?mc = "demo_machine shipped_cfg"
  have mc: "mc_api ?mc = consul_api" "mc_hostname ?mc = ''h''" "mc_match ?mc = (\<lambda>p s. (p = s, None))" "mc_cache ?mc = []"
    "mc_opened ?mc" "mc_NewCanal ?mc = (\<lambda>_. True)" "mc_master ?mc = Some \<lparr>pos_Name = ''bin.7'', pos_Pos = 4\<rparr>"
    "mc_exe ?mc = ''/opt/copycat''" "mc_WriteFile ?mc PID_FILE t fs = fs(PID_FILE \<mapsto> t)" "mc_pid ?mc = 77" for t fs
    by (simp_all add: demo_machine_def)
  obtain nd where "construct ?mc shipped_cfg no_consul = (no_consul, Ret nd)" "\<not> enable nd"
    using demo_single by (auto simp: construct_main_start mc)
  then have "main_node ?mc shipped_cfg (app_consul demo_app) = (no_consul, Serves [] nd None)"
    by (simp add: main_node_def main_admin_def agent_Start_def demo_start) (simp add: shipped_cfg_def)
  from main_program_node [OF demo_start(1,2) _ this] obtain s' where
    s': "main_program ?mc no_flags demo_app = (s', Serves [] nd None)"
    by (auto simp: shipped_cfg_def)
  from serving_needs_all_sections [OF s'] s' show ?thesis by (auto simp: mc)
qed

definition demo_full_cfg :: "AdminConfig option \<Rightarrow> GlobalConfig" where
  "demo_full_cfg ad = demo_cluster_cfg\<lparr>cfg_Log := Some \<lparr>Level = ''debug''\<rparr>, cfg_Admin := ad\<rparr>"

lemma demo_full:
  "cfg_Log (demo_full_cfg ad) = Some \<lparr>Level = ''debug''\<rparr>" "cfg_Admin (demo_full_cfg ad) = ad"
  "cfg_Consul (demo_full_cfg ad) = Some \<lparr>cc_Enabled = False, cc_Addr = []\<rparr>"
  "cfg_Agent (demo_full_cfg ad) = Some \<lparr>agc_Enabled = True, agc_Lock = ''agent_lock'', agc_Listen = ''10.0.0.1:9991'', agc_Consul = ''c:8500''\<rparr>"
  "cfg_Database (demo_full_cfg ad) = Some demo_db" "cfg_Listen (demo_full_cfg ad) = ''10.0.0.1:9990''"
  by (simp_all add: demo_full_cfg_def demo_cluster_cfg_def demo_cfg_def)

lemma demo_machine_simps:
  "mc_api (demo_machine cfg) = consul_api" "mc_hostname (demo_machine cfg) = ''h''" "mc_cache (demo_machine cfg) = []"
  "mc_opened (demo_machine cfg)" "mc_NewCanal (demo_machine cfg) db" "\<not> mc_listen_err (demo_machine cfg)"
  "mc_master (demo_machine cfg) = Some \<lparr>pos_Name = ''bin.7'', pos_Pos = 4\<rparr>"
  by (simp_all add: demo_machine_def)

theorem command_line_to_replication_witness:
  "\<exists>s' m nd nd2 h. main_program (demo_machine (demo_full_cfg (Some \<lparr>adm_Enabled = True, adm_Listen = '':9998''\<rparr>))) no_flags demo_app =
       (s', Serves [m] nd (Some '':9998'')) \<and>
     leader (sService nd) \<and> on_select m nd = (nd2, Ret ()) \<and> start_pass 0 (lookStart_turn (fst (world nd2))) = Ret h \<and>
     b_runs h = [\<lparr>pos_Name = ''bin.7'', pos_Pos = 4\<rparr>]"
proof -
  obtain ag c1 where ag: "NewAgentServer consul_api True ''10.0.0.1:9991'' ''agent_lock'' (new_binlog [], demo_new) no_consul = Ret (ag, c1)"
    using demo_cluster_agent by (metis demo_start(4))
  show ?thesis
    using command_line_to_replication [of "demo_machine (demo_full_cfg (Some \<lparr>adm_Enabled = True, adm_Listen = '':9998''\<rparr>))",
        where waited = 0 and cur = "\<lparr>pos_Name = ''bin.7'', pos_Pos = 4\<rparr>" and ?t0.0 = demo_new and ag = ag and f = "[]" and ?c1.0 = c1 and p = 0, unfolded demo_machine_simps, OF consul.consul_lock_live_axioms demo_start(1,2) demo_full(1-5)]
      ag demo_new demo_start
    by (auto simp: start_position_def demo_full no_consul_def demo_machine_simps)
qed

theorem no_admin_section_gives_up_lead_witness:
  "\<exists>s' nd. main_program (demo_machine (demo_full_cfg None)) no_flags demo_app = (s', Recovered NilDereference (Some nd)) \<and>
     \<not> leader (sService nd) \<and> locks (app_consul s') ''agent_lock'' = None"
proof -
  obtain ag c1 where ag: "NewAgentServer consul_api True ''10.0.0.1:9991'' ''agent_lock'' (new_binlog [], demo_new) no_consul = Ret (ag, c1)"
    using demo_cluster_agent by (metis demo_start(4))
  show ?thesis
    using no_admin_section_gives_up_lead [of "demo_machine (demo_full_cfg None)",
        where cur = "\<lparr>pos_Name = ''bin.7'', pos_Pos = 4\<rparr>", unfolded demo_machine_simps, OF consul.consul_lock_live_axioms demo_start(1,2) demo_full(1-5)]
      ag demo_new demo_start
    by (auto simp: start_position_def demo_full no_consul_def demo_machine_simps)
qed

end
