(* ===== verification/Binlog_Replay.thy ===== *)
theory Binlog_Replay
  imports Binlog_State
begin

text \<open>
  The binlog component under a sequence of the replication library's calls: the remaining
  handlers of \<^verbatim>\<open>src/binlog/binlog_handler.go\<close> (\<open>String\<close>, \<open>OnRotate\<close>, \<open>OnXID\<close>, \<open>OnGTID\<close>,
  which do nothing), and what is published over a whole run. The abstract publisher \<open>emits\<close>
  knows a counter and the row events only; every run of the component is a run of it. Result:
  a process that crashes publishes, when it is started again and the library hands it the row
  events after the saved position once more, the same events under the same numbers. \<open>Takeover\<close> says
  the same of another node that has taken the position over.
\<close>

section \<open>The library's calls\<close>

definition Binlog_String :: string where "Binlog_String = ''Binlog''"

definition OnRotate :: "Binlog \<Rightarrow> Binlog go" where "OnRotate h = Ret h"
definition OnXID :: "Position \<Rightarrow> Binlog \<Rightarrow> Binlog go" where "OnXID p h = Ret h"
definition OnGTID :: "Binlog \<Rightarrow> Binlog go" where "OnGTID h = Ret h"

datatype ('f, 'd) canal_call =
    RowCall "('f, 'd) RowsEvent"
  | PosCall Position
  | RotateCall
  | XIDCall Position
  | GTIDCall

text \<open>A call at its time.\<close>

fun handle :: "nat \<Rightarrow> ('f, 'd) marshal \<Rightarrow> int64 \<times> ('f, 'd) canal_call \<Rightarrow> Binlog \<Rightarrow> Binlog go" where
  "handle sp Marshal (now, RowCall e) h = OnRow sp now Marshal e h"
| "handle sp Marshal (now, PosCall p) h = OnPosSynced p h"
| "handle sp Marshal (now, RotateCall) h = OnRotate h"
| "handle sp Marshal (now, XIDCall p) h = OnXID p h"
| "handle sp Marshal (now, GTIDCall) h = OnGTID h"

fun rows_of :: "(int64 \<times> ('f, 'd) canal_call) list \<Rightarrow> ('f, 'd) RowsEvent list" where
  "rows_of [] = []"
| "rows_of ((now, RowCall e) # cs) = e # rows_of cs"
| "rows_of (c # cs) = rows_of cs"

definition saves :: "int64 \<times> ('f, 'd) canal_call \<Rightarrow> bool" where
  "saves c \<longleftrightarrow> (\<exists>p. snd c = PosCall p)"

section \<open>What a row event publishes\<close>

text \<open>An event's bytes are those of its record up to the time stamp.\<close>

definition timeless :: "('f, 'd) marshal \<Rightarrow> bool" where
  "timeless Marshal \<longleftrightarrow> (\<forall>d t. Marshal (d\<lparr>rd_time := t\<rparr>) = Marshal d)"

text \<open>The effect of a loop over rows: the counter and what is appended, whatever else the
  component holds and whatever the time is.\<close>

definition emission :: "(int64 \<Rightarrow> Binlog \<Rightarrow> Binlog go) \<Rightarrow> int64 \<Rightarrow> int64 \<Rightarrow> (string \<times> bytes) list \<Rightarrow> bool" where
  "emission f i i' es \<longleftrightarrow>
     (\<forall>k now. EventIndex k = i \<longrightarrow> f now k = Ret (k\<lparr>EventIndex := i', b_out := b_out k @ es\<rparr>))"

lemma emission_cons:
  assumes "emission g (i + 1) i' es"
    and "\<And>k now. EventIndex k = i \<Longrightarrow> f now k = g now (k\<lparr>EventIndex := i + 1, b_out := b_out k @ es1\<rparr>)"
  shows "emission f i i' (es1 @ es)"
  using assms unfolding emission_def by simp

lemma notify_emits:
  assumes "timeless Marshal"
  shows "\<exists>es. \<forall>h now. notify Marshal (d\<lparr>rd_time := now\<rparr>) h = h\<lparr>b_out := b_out h @ es\<rparr>"
proof (cases "Marshal d")
  case (Inl js)
  then show ?thesis
    using assms by (intro exI [of _ "[(rd_database d @ ''.'' @ rd_table d, js)]"]) (simp add: notify_def timeless_def)
next
  case (Inr err)
  then show ?thesis
    using assms by (intro exI [of _ "[]"]) (simp add: notify_def timeless_def)
qed

lemma plain_rows_emits:
  assumes "timeless Marshal"
  shows "plain_rows sp now Marshal e rows data h = Ret h' \<Longrightarrow>
    \<exists>i es. emission (\<lambda>now. plain_rows sp now Marshal e rows data) (EventIndex h) i es"
proof (induction rows arbitrary: data h)
  case Nil
  then show ?case by (intro exI [of _ "EventIndex h"] exI [of _ "[]"]) (simp add: emission_def)
next
  case (Cons row rows)
  obtain data' where fill: "fill_row sp row 0 (e_Columns e) data = Ret data'"
    using Cons.prems by (auto simp: Let_def go_simps)
  define d where "d = \<lparr>rd_database = e_Schema e, rd_event_type = e_Action e, rd_time = now, rd_table = e_Name e,
    rd_event_index = EventIndex h + 1, rd_event = Row data'\<rparr>"
  obtain es1 where es1: "\<And>h t. notify Marshal (d\<lparr>rd_time := t\<rparr>) h = h\<lparr>b_out := b_out h @ es1\<rparr>"
    using notify_emits [OF assms] by metis
  have step: "plain_rows sp t Marshal e (row # rows) data k =
      plain_rows sp t Marshal e rows data' (k\<lparr>EventIndex := EventIndex h + 1, b_out := b_out k @ es1\<rparr>)"
    if "EventIndex k = EventIndex h" for k t
    using es1 [of t] that fill by (simp add: d_def Let_def)
  have "plain_rows sp now Marshal e rows data' (h\<lparr>EventIndex := EventIndex h + 1, b_out := b_out h @ es1\<rparr>) = Ret h'"
    using Cons.prems step [of h] by (simp del: plain_rows.simps)
  from Cons.IH [OF this] obtain i es where
    "emission (\<lambda>now. plain_rows sp now Marshal e rows data') (EventIndex h + 1) i es" by auto
  then have "emission (\<lambda>now. plain_rows sp now Marshal e (row # rows) data) (EventIndex h) i (es1 @ es)"
    by (rule emission_cons) (rule step)
  then show ?case by blast
qed

lemma update_rows_emits:
  assumes "timeless Marshal"
  shows "update_rows sp now Marshal e rows h = Ret h' \<Longrightarrow>
    \<exists>i es. emission (\<lambda>now. update_rows sp now Marshal e rows) (EventIndex h) i es"
proof (induction rows arbitrary: h rule: induct_list012)
  case 1
  then show ?case by (intro exI [of _ "EventIndex h"] exI [of _ "[]"]) (simp add: emission_def)
next
  case (2 old)
  then show ?case by (simp add: go_simps)
next
  case (3 old new rows)
  obtain o' n' where fill: "fill_row sp old 0 (e_Columns e) (\<lambda>_. None) = Ret o'" "fill_row sp new 0 (e_Columns e) (\<lambda>_. None) = Ret n'"
    using "3.prems" by (auto simp: Let_def go_simps)
  define d where "d = \<lparr>rd_database = e_Schema e, rd_event_type = e_Action e, rd_time = now, rd_table = e_Name e,
    rd_event_index = EventIndex h + 1, rd_event = Update o' n'\<rparr>"
  obtain es1 where es1: "\<And>h t. notify Marshal (d\<lparr>rd_time := t\<rparr>) h = h\<lparr>b_out := b_out h @ es1\<rparr>"
    using notify_emits [OF assms] by metis
  have step: "update_rows sp t Marshal e (old # new # rows) k =
      update_rows sp t Marshal e rows (k\<lparr>EventIndex := EventIndex h + 1, b_out := b_out k @ es1\<rparr>)"
    if "EventIndex k = EventIndex h" for k t
    using es1 [of t] that fill by (simp add: d_def Let_def)
  have "update_rows sp now Marshal e rows (h\<lparr>EventIndex := EventIndex h + 1, b_out := b_out h @ es1\<rparr>) = Ret h'"
    using "3.prems" step [of h] by (simp del: update_rows.simps)
  from "3.IH"(1) [OF this] obtain i es where
    "emission (\<lambda>now. update_rows sp now Marshal e rows) (EventIndex h + 1) i es" by auto
  then have "emission (\<lambda>now. update_rows sp now Marshal e (old # new # rows)) (EventIndex h) i (es1 @ es)"
    by (rule emission_cons) (rule step)
  then show ?case by blast
qed

text \<open>A row event, and a sequence of them, as the abstract publisher sees it.\<close>

definition emits :: "nat \<Rightarrow> ('f, 'd) marshal \<Rightarrow> int64 \<Rightarrow> ('f, 'd) RowsEvent \<Rightarrow> int64 \<Rightarrow> (string \<times> bytes) list \<Rightarrow> bool" where
  "emits sp Marshal i e i' es \<longleftrightarrow>
     (\<forall>k now. \<not> has_flag (b_status k) binlogIsExit \<and> EventIndex k = i \<longrightarrow>
        OnRow sp now Marshal e k = Ret (k\<lparr>EventIndex := i', b_out := b_out k @ es\<rparr>))"

fun emits_all :: "nat \<Rightarrow> ('f, 'd) marshal \<Rightarrow> int64 \<Rightarrow> ('f, 'd) RowsEvent list \<Rightarrow> int64 \<Rightarrow> (string \<times> bytes) list \<Rightarrow> bool" where
  "emits_all sp Marshal i [] i' es \<longleftrightarrow> i' = i \<and> es = []"
| "emits_all sp Marshal i (e # rows) i' es \<longleftrightarrow>
     (\<exists>j es1 es2. emits sp Marshal i e j es1 \<and> emits_all sp Marshal j rows i' es2 \<and> es = es1 @ es2)"

lemma OnRow_emits:
  assumes "timeless Marshal" and "\<not> has_flag (b_status h) binlogIsExit" and "OnRow sp now Marshal e h = Ret h'"
  shows "\<exists>i es. emits sp Marshal (EventIndex h) e i es"
proof (cases "e_Action e = ''update''")
  case True
  then show ?thesis
    using update_rows_emits [OF assms(1), of sp now e "e_Rows e" h h'] assms(2,3) by (auto simp: OnRow_def emits_def emission_def)
next
  case False
  then show ?thesis
    using plain_rows_emits [OF assms(1), of sp now e "e_Rows e" "\<lambda>_. None" h h'] assms(2,3)
    by (auto simp: OnRow_def emits_def emission_def)
qed

lemma OnPosSynced_open:
  assumes "binlog_open h"
  shows "\<exists>h'. OnPosSynced p h = Ret h' \<and> binlog_open h' \<and> EventIndex h' = EventIndex h \<and> b_out h' = b_out h \<and>
    b_cache h' = write_at_0 (packPos (pos_Name p) (ucast (pos_Pos p)) (EventIndex h)) (b_cache h) \<and>
    last (b_synced h') = packPos (pos_Name p) (ucast (pos_Pos p)) (EventIndex h)"
  using assms by (simp add: OnPosSynced_def saveBinlogPositionCache_def binlog_open_def Let_def)

text \<open>A run of the component is a run of the publisher, and a run of the publisher can be had from
  every component with the same counter. Without a saved position the cache stays.\<close>

lemma run_emits:
  assumes "timeless Marshal"
  shows "binlog_open h \<Longrightarrow> each (handle sp Marshal) cs h = Ret h' \<Longrightarrow>
    binlog_open h' \<and> (\<exists>es. emits_all sp Marshal (EventIndex h) (rows_of cs) (EventIndex h') es \<and> b_out h' = b_out h @ es) \<and>
    ((\<forall>c \<in> set cs. \<not> saves c) \<longrightarrow> b_cache h' = b_cache h)"
proof (induction cs arbitrary: h)
  case (Cons c cs)
  obtain now a where c: "c = (now, a)" by (cases c)
  obtain h1 where h1: "handle sp Marshal c h = Ret h1" "each (handle sp Marshal) cs h1 = Ret h'"
    using Cons.prems(2) by (auto simp: go_simps)
  show ?case
  proof (cases a)
    case (RowCall e)
    then have row: "OnRow sp now Marshal e h = Ret h1" using h1(1) c by simp
    have open1: "\<not> has_flag (b_status h) binlogIsExit" using Cons.prems(1) by (simp add: binlog_open_def)
    obtain i es where em: "emits sp Marshal (EventIndex h) e i es" using OnRow_emits [OF assms open1 row] by blast
    then have "h1 = h\<lparr>EventIndex := i, b_out := b_out h @ es\<rparr>" using row open1 by (auto simp: emits_def)
    then have "binlog_open h1" "EventIndex h1 = i" "b_out h1 = b_out h @ es" "b_cache h1 = b_cache h"
      using Cons.prems(1) by (simp_all add: binlog_open_def)
    with Cons.IH [OF this(1) h1(2)] em RowCall c show ?thesis by auto
  next
    case (PosCall p)
    with OnPosSynced_open [OF Cons.prems(1), of p] h1(1) c have
      "binlog_open h1" "EventIndex h1 = EventIndex h" "b_out h1 = b_out h" by auto
    with Cons.IH [OF this(1) h1(2)] PosCall c show ?thesis by (simp add: saves_def)
  qed (use Cons h1 c in \<open>simp_all add: OnRotate_def OnXID_def OnGTID_def\<close>)
qed simp

lemma emits_run:
  "binlog_open k \<Longrightarrow> emits_all sp Marshal (EventIndex k) (rows_of cs) i' es \<Longrightarrow>
    \<exists>k'. each (handle sp Marshal) cs k = Ret k' \<and> EventIndex k' = i' \<and> b_out k' = b_out k @ es"
proof (induction cs arbitrary: k es)
  case (Cons c cs)
  obtain now a where c: "c = (now, a)" by (cases c)
  show ?case
  proof (cases a)
    case (RowCall e)
    with Cons.prems(2) c obtain j es1 es2 where em: "emits sp Marshal (EventIndex k) e j es1"
      "emits_all sp Marshal j (rows_of cs) i' es2" "es = es1 @ es2" by auto
    let ?k = "k\<lparr>EventIndex := j, b_out := b_out k @ es1\<rparr>"
    have row: "OnRow sp now Marshal e k = Ret ?k" using em(1) Cons.prems(1) by (auto simp: emits_def binlog_open_def)
    have "binlog_open ?k" using Cons.prems(1) by (simp add: binlog_open_def)
    from Cons.IH [OF this, of es2] em(2,3) row RowCall c show ?thesis by auto
  next
    case (PosCall p)
    obtain k1 where k1: "OnPosSynced p k = Ret k1" "binlog_open k1" "EventIndex k1 = EventIndex k" "b_out k1 = b_out k"
      using OnPosSynced_open [OF Cons.prems(1), of p] by blast
    from Cons.IH [OF k1(2), of es] Cons.prems(2) k1 PosCall c show ?thesis by auto
  qed (use Cons c in \<open>auto simp: OnRotate_def OnXID_def OnGTID_def\<close>)
qed simp

section \<open>Crash and replay\<close>

text \<open>A run that ends some time after it has saved a position: what was published since then is
  a run of the publisher from the counter that was saved with the position.\<close>

lemma crashed_run:
  assumes "timeless Marshal" and "binlog_open h" and "length (pos_Name p) \<le> 494"
    and "each (handle sp Marshal) (pre @ (now, PosCall p) # tail) h = Ret h2" and "\<forall>c \<in> set tail. \<not> saves c"
  obtains h1 es where "each (handle sp Marshal) (pre @ [(now, PosCall p)]) h = Ret h1" and "b_out h2 = b_out h1 @ es"
    and "read_cache (b_cache h2) = Ret (pos_Name p, ucast (pos_Pos p), EventIndex h1)"
    and "last (b_synced h1) = packPos (pos_Name p) (ucast (pos_Pos p)) (EventIndex h1)"
    and "emits_all sp Marshal (EventIndex h1) (rows_of tail) (EventIndex h2) es"
proof -
  obtain h0 h1 where run: "each (handle sp Marshal) pre h = Ret h0" "OnPosSynced p h0 = Ret h1"
    "each (handle sp Marshal) tail h1 = Ret h2"
    using assms(4) by (auto simp: each_append go_simps)
  have h0: "binlog_open h0" using run_emits [OF assms(1,2) run(1)] by blast
  then have h1: "binlog_open h1" "EventIndex h1 = EventIndex h0"
    "b_cache h1 = write_at_0 (packPos (pos_Name p) (ucast (pos_Pos p)) (EventIndex h0)) (b_cache h0)"
    "last (b_synced h1) = packPos (pos_Name p) (ucast (pos_Pos p)) (EventIndex h0)"
    using OnPosSynced_open [OF h0, of p] run(2) by auto
  obtain es where es: "emits_all sp Marshal (EventIndex h1) (rows_of tail) (EventIndex h2) es" "b_out h2 = b_out h1 @ es"
    "b_cache h2 = b_cache h1"
    using run_emits [OF assms(1) h1(1) run(3)] assms(5) by blast
  have cache: "read_cache (b_cache h2) = Ret (pos_Name p, ucast (pos_Pos p), EventIndex h1)"
    unfolding es(3) h1(2,3) by (rule read_cache_write) (rule assms(3))
  have "each (handle sp Marshal) (pre @ [(now, PosCall p)]) h = Ret h1"
    using run(1,2) by (simp add: each_append go_simps)
  from that [OF this es(2) cache _ es(1)] show thesis using h1(2,4) by simp
qed


text \<open>Witnesses: two rows, a position, two more rows, and then the end.\<close>

definition number_marshal :: "(unit, unit) marshal" where
  "number_marshal d = Inl [ucast (rd_event_index d)]"

definition demo_pos :: Position where
  "demo_pos = \<lparr>pos_Name = ''bin.1'', pos_Pos = 500\<rparr>"

lemma demo_replay:
  "timeless number_marshal" "binlog_open demo_binlog" "length (pos_Name demo_pos) \<le> 494"
  by (simp_all add: timeless_def number_marshal_def demo_pos_def binlog_open_def)

lemma demo_rows:
  "\<not> has_flag (b_status h) binlogIsExit \<Longrightarrow> OnRow 0 now number_marshal demo_insert h =
     Ret (h\<lparr>EventIndex := EventIndex h + 2, b_out := b_out h @ [(''db.t'', [ucast (EventIndex h + 1)]), (''db.t'', [ucast (EventIndex h + 2)])]\<rparr>)"
  by (simp add: OnRow_def demo_insert_def fieldDecode_def demo_col_def notify_def number_marshal_def add.commute)

lemma demo_crash:
  obtains h1 h2 where "each (handle 0 number_marshal) [(9, RowCall demo_insert), (9, PosCall demo_pos)] demo_binlog = Ret h1"
    and "each (handle 0 number_marshal) ([(9, RowCall demo_insert)] @ (9, PosCall demo_pos) #
      [(10, RotateCall), (11, RowCall demo_insert)]) demo_binlog = Ret h2"
    and "b_out h2 = b_out h1 @ [(''db.t'', [10]), (''db.t'', [11])]"
proof -
  have e: "EventIndex demo_binlog = 7" "b_out demo_binlog = []" by (simp_all add: demo_binlog_def new_binlog_def)
  have row: "OnRow 0 9 number_marshal demo_insert demo_binlog =
      Ret (demo_binlog\<lparr>EventIndex := 9, b_out := [(''db.t'', [8]), (''db.t'', [9])]\<rparr>)"
    using demo_rows [of demo_binlog 9] e by simp
  have op: "binlog_open (demo_binlog\<lparr>EventIndex := 9, b_out := [(''db.t'', [8]), (''db.t'', [9])]\<rparr>)"
    by (simp add: binlog_open_def)
  obtain h1 where h1: "OnPosSynced demo_pos (demo_binlog\<lparr>EventIndex := 9, b_out := [(''db.t'', [8]), (''db.t'', [9])]\<rparr>) = Ret h1"
    "binlog_open h1" "EventIndex h1 = 9"
    using OnPosSynced_open [OF op, of demo_pos] by auto
  show thesis
    by (rule that [of h1 "h1\<lparr>EventIndex := 11, b_out := b_out h1 @ [(''db.t'', [10]), (''db.t'', [11])]\<rparr>"])
      (use row h1 demo_rows [of h1 11] in \<open>simp_all add: OnRotate_def binlog_open_def\<close>)
qed


end
