(* ===== verification/Takeover.thy ===== *)
theory Takeover
  imports Delivery Start_Up Binlog_Replay
begin

text \<open>
  The lemmas for a follower that takes the leader's place: an elected node starts the
  replication at the position it has taken over, and a series of row events on a node is a run
  of the abstract publisher of \<open>Binlog_Replay\<close>, with its events pushed to the subscribers.
  \<open>Spec2Isabelle\<close> concludes from them that a failover loses no event.
\<close>

section \<open>A node that has been elected\<close>

lemma elected_node_starts:
  assumes "onLeader nd = [leader_cb]" and "IsLeader mb" and "world nd = (h, t)" and "startServiceChan h < chan_cap"
    and "binlog_open h" and "\<not> has_flag (b_status h) binlogIsRunning" and "lastBinFile h \<noteq> []"
  shows "\<exists>nd1 k. on_select mb nd = (nd1, Ret ()) \<and> start_pass waited (lookStart_turn (fst (world nd1))) = Ret k \<and>
    b_runs k = b_runs h @ [\<lparr>pos_Name = lastBinFile h, pos_Pos = lastPos h\<rparr>] \<and> binlog_open k \<and> EventIndex k = EventIndex h \<and>
    b_out k = b_out h \<and> snd (world nd1) = t \<and> ag_server nd1 = ag_server nd \<and> enable nd1 = enable nd"
proof -
  let ?h = "h\<lparr>startServiceChan := startServiceChan h + 1\<rparr>"
  have "on_select mb nd = (nd\<lparr>ag_leader := True, ag_client := (ag_client nd)\<lparr>x_st := (?h, t)\<rparr>\<rparr>, Ret ())"
    using assms(1-4) by (simp add: on_select_def world_def leader_cb_starts del: calls.simps)
  moreover have "\<exists>k. start_pass waited (lookStart_turn ?h) = Ret k \<and>
      b_runs k = b_runs h @ [\<lparr>pos_Name = lastBinFile h, pos_Pos = lastPos h\<rparr>] \<and> binlog_open k \<and> EventIndex k = EventIndex h \<and>
      b_out k = b_out h"
    using assms(5-7) by (simp add: lookStart_turn_def start_pass_def binlog_open_def Let_def binlog_flags flag_simps)
  ultimately show ?thesis by (auto simp: world_def)
qed

section \<open>Row events on a node\<close>

lemma listed_push_events: "listed (length es + n) t \<Longrightarrow> listed n (fold (push_event m) es t)"
proof (induction es arbitrary: t)
  case (Cons e es)
  then have "listed (length es + n) (push_event m e t)" by (simp add: push_event_def listed_pushed)
  with Cons.IH show ?case by simp
qed simp

lemma room_fold_queued:
  fixes nd :: "'c node"
  assumes "enable nd" and "room (length ds + n) (ag_server nd)"
  shows "room n (fold queued ds (ag_server nd))"
  using Syncs_queued [OF assms] by blast

lemma node_notify_enable: "node_notify m e nd = Ret nd' \<Longrightarrow> enable nd' = enable nd"
  by (auto simp: node_notify_def event_change_def Sync_def go_simps split: prod.splits if_splits)

lemma each_notify_enable: "each (node_notify m) es nd = Ret nd' \<Longrightarrow> enable nd' = enable nd"
  by (induction es arbitrary: nd) (auto simp: go_simps dest: node_notify_enable)

text \<open>A series of row events, each at its time.\<close>

definition node_row :: "nat \<Rightarrow> ('f, 'd) marshal \<Rightarrow> matcher \<Rightarrow> int64 \<times> ('f, 'd) RowsEvent \<Rightarrow> 'c node \<Rightarrow> 'c node go" where
  "node_row sp Marshal m r nd = node_OnRow sp (fst r) Marshal m (snd r) nd"

lemma node_rows:
  assumes "enable nd" and "world nd = (k, t)" and "binlog_open k" and "emits_all sp Marshal (EventIndex k) (map snd rows) i es"
    and "room (length es) (ag_server nd)" and "listed (length es) t"
  shows "\<exists>nd' k'. each (node_row sp Marshal m) rows nd = Ret nd' \<and> world nd' = (k', fold (push_event m) es t) \<and> EventIndex k' = i"
  using assms
proof (induction rows arbitrary: nd k t es)
  case (Cons r rows)
  obtain j es1 es2 where em: "emits sp Marshal (EventIndex k) (snd r) j es1" "emits_all sp Marshal j (map snd rows) i es2"
    "es = es1 @ es2"
    using Cons.prems(4) by auto
  let ?k = "k\<lparr>EventIndex := j, b_out := b_out k @ es1\<rparr>"
  have row: "OnRow sp (fst r) Marshal (snd r) k = Ret ?k"
    using em(1) Cons.prems(3) by (auto simp: emits_def binlog_open_def)
  have space: "room (length es1 + length es2) (ag_server nd)" "listed (length es1 + length es2) t"
    using Cons.prems(5,6) em(3) by simp_all
  then have "room (length es1) (ag_server nd)" "listed (length es1) t"
    by (auto simp: room_def listed_def)
  then obtain nd1 where nd1: "each (node_notify m) es1 (put_world (?k, t) nd) = Ret nd1" "world nd1 = (?k, fold (push_event m) es1 t)"
    "ag_server nd1 = fold queued (map (\<lambda>e. Pack agent_CMD_EVENT (snd e)) es1) (ag_server nd)"
    using leader_events [of "put_world (?k, t) nd" ?k t es1 m] Cons.prems(1) by auto
  have en: "enable nd1"
    using each_notify_enable [OF nd1(1)] Cons.prems(1) by simp
  have step: "node_row sp Marshal m r nd = Ret nd1"
    using row nd1(1) Cons.prems(2) by (simp add: node_row_def node_OnRow_def)
  have "room (length es2) (ag_server nd1)" "listed (length es2) (fold (push_event m) es1 t)"
    using room_fold_queued [OF Cons.prems(1), of "map (\<lambda>e. Pack agent_CMD_EVENT (snd e)) es1" "length es2"] space nd1(3)
      listed_push_events [of es1 "length es2" t m] by simp_all
  moreover have "binlog_open ?k" using Cons.prems(3) by (simp add: binlog_open_def)
  ultimately have "\<exists>nd' k'. each (node_row sp Marshal m) rows nd1 = Ret nd' \<and>
      world nd' = (k', fold (push_event m) es2 (fold (push_event m) es1 t)) \<and> EventIndex k' = i"
    using Cons.IH [of nd1 ?k "fold (push_event m) es1 t" es2] en nd1(2) em(2) by simp
  then show ?case using step em(3) by simp
qed simp

end
