(* ===== verification/Agent_Echo.thy ===== *)
theory Agent_Echo
  imports Agent_Client Agent_Server
begin

text \<open>
  The agent's client and server working together as in \<^verbatim>\<open>src/agent/examples\<close>: a server
  whose message callback sends each message back under its id (\<^verbatim>\<open>server/server.go\<close>), and
  a client that sends several requests before it waits for the replies
  (\<^verbatim>\<open>client/client.go\<close>). The reading loops, \<open>Send\<close> on both sides and \<open>Wait\<close> are
  those of \<open>Agent_Reader\<close>, \<open>Agent_Server\<close> and \<open>Agent_Client\<close>. Result: every \<open>Wait\<close> gets the
  content of its own request, for every admissible cut of both directions into reads.
\<close>

section \<open>The two programs\<close>

text \<open>The server's callback, and a pass of its reading goroutine with it.\<close>

definition echo :: "nat \<Rightarrow> agent_srv handler" where
  "echo a s msgID data = (agent_Send msgID data a s, Ret ())"

definition echo_turn :: "growth \<Rightarrow> nat \<Rightarrow> bytes \<Rightarrow> agent_srv \<Rightarrow> agent_srv go" where
  "echo_turn grow a msg s =
     (let (buf, s', out) = agent_onMessage grow (echo a) msg (an_recvBuf (a_heap s a), s)
      in go_bind out (\<lambda>_. Ret (upd_agent a (\<lambda>n. n\<lparr>an_recvBuf := buf\<rparr>) s')))"

text \<open>The client's requests, one after the other (at time \<open>now\<close>), and its waits. A waiter that
  \<open>Send\<close> did not make is nil.\<close>

fun send_all :: "int64 \<Rightarrow> bytes list \<Rightarrow> 's aclient \<Rightarrow> (nat option list \<times> 's aclient) go" where
  "send_all now [] c = Ret ([], c)"
| "send_all now (d # ds) c =
     go_bind (client_Send now None d c) (\<lambda>((w, _), c1).
     go_bind (send_all now ds c1) (\<lambda>(ws, c2). Ret (w # ws, c2)))"

fun wait_all :: "nat option list \<Rightarrow> 's aclient \<Rightarrow> ((bytes + g_error) list \<times> 's aclient) go" where
  "wait_all [] c = Ret ([], c)"
| "wait_all (w # ws) c =
     go_bind (deref w) (\<lambda>a. go_bind (Wait False a c) (\<lambda>(r, c1).
     go_bind (wait_all ws c1) (\<lambda>(rs, c2). Ret (r # rs, c2))))"

definition example_requests :: "bytes list" where
  "example_requests = [bytes_of ''hello'', bytes_of ''word'', bytes_of ''hahahahahahahahahahah'']"

section \<open>The frames of a series of requests\<close>

fun frames :: "int64 \<Rightarrow> bytes list \<Rightarrow> (int64 \<times> bytes) list" where
  "frames m [] = []"
| "frames m (d # ds) = (m + 1, d) # frames (m + 1) ds"

lemma map_snd_frames [simp]: "map snd (frames m ds) = ds"
  by (induction ds arbitrary: m) simp_all

lemma length_frames [simp]: "length (frames m ds) = length ds"
  by (induction ds arbitrary: m) simp_all

lemma sint_succ: "sint (m :: int64) + 1 < 2 ^ 63 \<Longrightarrow> sint (m + 1) = sint m + 1"
  using sint_ge [of m] by (simp add: sint_word_ariths signed_take_bit_int_eq_self)

lemma frames_ids:
  "f \<in> set (frames m ds) \<Longrightarrow> sint m + int (length ds) < 2 ^ 63 \<Longrightarrow> sint m < sint (fst f) \<and> snd f \<in> set ds"
proof (induction ds arbitrary: m)
  case (Cons d ds)
  have m1: "sint (m + 1) = sint m + 1" using Cons.prems(2) by (intro sint_succ) simp
  show ?case
  proof (cases "f = (m + 1, d)")
    case False
    then show ?thesis using Cons.IH [of "m + 1"] Cons.prems m1 by auto
  qed (simp add: m1)
qed simp

lemma distinct_frames: "sint m + int (length ds) < 2 ^ 63 \<Longrightarrow> distinct (map fst (frames m ds))"
proof (induction ds arbitrary: m)
  case (Cons d ds)
  have m1: "sint (m + 1) = sint m + 1" using Cons.prems by (intro sint_succ) simp
  then show ?case using Cons.IH [of "m + 1"] Cons.prems frames_ids [of _ "m + 1" ds] by fastforce
qed simp

section \<open>The server writes the frames back\<close>

abbreviation enc :: "int64 \<times> bytes \<Rightarrow> bytes" where
  "enc f \<equiv> Encode (fst f) (snd f)"

lemma run_echo:
  "run (echo a) s fs = upd_agent a (\<lambda>n. n\<lparr>an_writes := an_writes n @ map enc fs\<rparr>) s"
  by (induction fs arbitrary: s) (simp_all add: echo_def agent_Send_def upd_agent_def Let_def)

lemma echo_reads:
  assumes "vis (an_recvBuf (a_heap s a)) = []" and "\<forall>f \<in> set fs. length (snd f) + 8 < 2 ^ 32 \<and> 0 < sint (fst f)"
    and "concat cs = concat (map enc fs)" and "header_safe [] cs"
  shows "\<exists>s'. each (echo_turn grow a) cs s = Ret s' \<and> an_writes (a_heap s' a) = an_writes (a_heap s a) @ map enc fs"
proof -
  let ?put = "\<lambda>b. upd_agent a (\<lambda>n. n\<lparr>an_recvBuf := b\<rparr>)"
  have "runs_ok (echo a) s fs" by (rule returns_runs_ok) (simp add: returns_def echo_def)
  then obtain buf where "agent_feed grow (echo a) (an_recvBuf (a_heap s a), s) cs = (buf, run (echo a) s fs, Ret ())"
    using agent_feed_stream [of "echo a" s fs "an_recvBuf (a_heap s a)" cs grow] assms
    by (auto simp: codec_ok_def codec_enc_def [abs_def] codec_next_def)
  moreover have "?put (an_recvBuf (a_heap c a)) c = c" for c by (simp add: upd_agent_def)
  moreover have "?put b (?put b' c) = ?put b c" for b b' c by (simp add: upd_agent_def)
  moreover have "echo a (?put b c) m d = apfst (?put b) (echo a c m d)" for b c m d
    by (cases "a_heap c a") (simp add: echo_def agent_Send_def upd_agent_def Let_def)
  ultimately have "each (echo_turn grow a) cs s = Ret (?put buf (run (echo a) s fs))"
    by (intro feed_each [where get = "\<lambda>s. an_recvBuf (a_heap s a)" and put = ?put and h = "echo a" and grow = grow])
      (simp_all add: echo_turn_def)
  then show ?thesis by (simp add: run_echo)
qed

section \<open>The client's waiters\<close>

text \<open>The waiters of a series of requests stand one after the other in the heap, open, each with
  what \<open>q\<close> says in its channel.\<close>

fun slots :: "(int64 \<times> bytes \<Rightarrow> bytes list) \<Rightarrow> 's aclient \<Rightarrow> (int64 \<times> bytes) list \<Rightarrow> nat \<Rightarrow> bool" where
  "slots q c [] w = True"
| "slots q c (f # fs) w \<longleftrightarrow>
     map_of (x_waiter c) (fst f) = Some w \<and> \<not> w_closed (x_heap c w) \<and> w_data (x_heap c w) = q f \<and> slots q c fs (w + 1)"

abbreviation reply_of :: "int64 \<times> bytes \<Rightarrow> bytes list" where
  "reply_of f \<equiv> [le_bytes 8 (unat (fst f)) @ snd f]"

lemma slots_cong:
  "\<forall>f \<in> set fs. map_of (x_waiter c') (fst f) = map_of (x_waiter c) (fst f) \<Longrightarrow> \<forall>v \<ge> w. x_heap c' v = x_heap c v \<Longrightarrow>
     slots q c' fs w = slots q c fs w"
  by (induction fs arbitrary: w) auto

lemma send_all_pending:
  assumes "has_flag (x_status c) statusConnect" and "x_conn c = Some (op, ws)" and "sint (x_msgID c) + int (length ds) < 2 ^ 63"
  shows "\<exists>c'. send_all now ds c = Ret (map Some [x_fresh c..<x_fresh c + length ds], c') \<and>
    x_conn c' = Some (op, ws @ map enc (frames (x_msgID c) ds)) \<and> x_buffer c' = x_buffer c \<and>
    slots (\<lambda>_. []) c' (frames (x_msgID c) ds) (x_fresh c) \<and>
    (\<forall>v < x_fresh c. x_heap c' v = x_heap c v) \<and>
    (\<forall>m. sint m \<le> sint (x_msgID c) \<longrightarrow> map_of (x_waiter c') m = map_of (x_waiter c) m)"
  using assms
proof (induction ds arbitrary: c ws)
  case (Cons d ds)
  let ?m = "x_msgID c + 1" and ?w = "x_fresh c"
  define c1 where "c1 = c\<lparr>x_msgID := ?m, x_heap := (x_heap c)(?w := \<lparr>w_msgID = ?m, w_data = [], w_closed = False, w_time = now\<rparr>),
    x_fresh := ?w + 1, x_waiter := AList.update ?m ?w (x_waiter c), x_conn := Some (op, ws @ [Encode ?m d])\<rparr>"
  have send: "client_Send now None d c = Ret ((Some ?w, None), c1)"
    using Cons.prems(1,2) by (simp add: client_Send_def next_msgID_eq conn_write_def Let_def c1_def)
  have m1: "sint ?m = sint (x_msgID c) + 1" using Cons.prems(3) by (intro sint_succ) simp
  have c1: "has_flag (x_status c1) statusConnect" "x_conn c1 = Some (op, ws @ [Encode ?m d])"
    "sint (x_msgID c1) + int (length ds) < 2 ^ 63" "x_msgID c1 = ?m" "x_fresh c1 = ?w + 1" "x_buffer c1 = x_buffer c"
    using Cons.prems m1 by (simp_all add: c1_def)
  obtain c' where c': "send_all now ds c1 = Ret (map Some [?w + 1..<?w + 1 + length ds], c')"
    "x_conn c' = Some (op, ws @ [Encode ?m d] @ map enc (frames ?m ds))" "x_buffer c' = x_buffer c"
    "slots (\<lambda>_. []) c' (frames ?m ds) (?w + 1)" "\<forall>v < ?w + 1. x_heap c' v = x_heap c1 v"
    "\<forall>m. sint m \<le> sint ?m \<longrightarrow> map_of (x_waiter c') m = map_of (x_waiter c1) m"
    using Cons.IH [OF c1(1-3)] c1(4-6) by auto
  have head: "map_of (x_waiter c') ?m = Some ?w" "x_heap c' ?w = x_heap c1 ?w"
    using c'(5,6) by (auto simp: c1_def update_conv)
  have keep: "map_of (x_waiter c') m = map_of (x_waiter c) m" if "sint m \<le> sint (x_msgID c)" for m
  proof -
    have "m \<noteq> ?m" using that m1 by auto
    then show ?thesis using c'(6) that m1 by (auto simp: c1_def update_conv)
  qed
  have list: "map Some [?w..<?w + length (d # ds)] = Some ?w # map Some [?w + 1..<?w + 1 + length ds]"
    by (subst upt_conv_Cons) simp_all
  have low: "\<forall>v < ?w. x_heap c' v = x_heap c v" using c'(5) by (simp add: c1_def)
  show ?case
    unfolding list using send c' head keep low by (intro exI [of _ c']) (simp add: c1_def del: upt_Suc)
qed simp

lemma replies_fill:
  assumes "slots (\<lambda>_. []) c fs w" and "\<forall>f \<in> set fs. 1 < sint (fst f)" and "cb_returns cb"
  shows "runs_ok (client_handler cb) c fs \<and> slots reply_of (run (client_handler cb) c fs) fs w \<and>
    (\<forall>v < w. x_heap (run (client_handler cb) c fs) v = x_heap c v) \<and> x_waiter (run (client_handler cb) c fs) = x_waiter c"
  using assms
proof (induction fs arbitrary: c w)
  case (Cons f fs)
  have pre: "1 < sint (fst f)" "map_of (x_waiter c) (fst f) = Some w" "\<not> w_closed (x_heap c w)" "w_data (x_heap c w) = []"
    using Cons.prems by simp_all
  obtain st where h: "client_handler cb c (fst f) (snd f) =
      (c\<lparr>x_heap := (x_heap c)(w := (x_heap c w)\<lparr>w_data := reply_of f\<rparr>), x_st := st\<rparr>, Ret ())"
    using client_handler_reply [OF pre Cons.prems(3), of "snd f"] by (metis prod.collapse)
  define c1 where "c1 = c\<lparr>x_heap := (x_heap c)(w := (x_heap c w)\<lparr>w_data := reply_of f\<rparr>), x_st := st\<rparr>"
  have "slots (\<lambda>_. []) c1 fs (w + 1) = slots (\<lambda>_. []) c fs (w + 1)" by (rule slots_cong) (simp_all add: c1_def)
  then have "slots (\<lambda>_. []) c1 fs (w + 1)" using Cons.prems(1) by simp
  from Cons.IH [OF this] Cons.prems(2,3)
  have ih: "runs_ok (client_handler cb) c1 fs" "slots reply_of (run (client_handler cb) c1 fs) fs (w + 1)"
    "\<forall>v < w + 1. x_heap (run (client_handler cb) c1 fs) v = x_heap c1 v" "x_waiter (run (client_handler cb) c1 fs) = x_waiter c"
    by (simp_all add: c1_def)
  then show ?case using h pre(2,3) by (simp add: c1_def [symmetric]) (simp add: c1_def)
qed simp

lemma waits_take:
  assumes "slots reply_of c fs w" and "distinct (map fst fs)"
  shows "\<exists>c'. wait_all (map Some [w..<w + length fs]) c = Ret (map (\<lambda>f. Inl (snd f)) fs, c') \<and>
    (\<forall>f \<in> set fs. map_of (x_waiter c') (fst f) = None) \<and>
    (\<forall>m. map_of (x_waiter c) m = None \<longrightarrow> map_of (x_waiter c') m = None)"
  using assms
proof (induction fs arbitrary: c w)
  case (Cons f fs)
  define c1 where "c1 = c\<lparr>x_heap := (x_heap c)(w := (x_heap c w)\<lparr>w_data := [], w_closed := True\<rparr>),
    x_waiter := AList.delete (fst f) (x_waiter c)\<rparr>"
  have "unat (fst f) < 256 ^ 8" using unsigned_less [of "fst f"] by simp
  then have i: "word_of_nat (le_nat (take 8 (le_bytes 8 (unat (fst f)) @ snd f))) = fst f" by simp
  have wait: "Wait False w c = Ret (Inl (snd f), c1)"
    using Cons.prems(1) i by (simp add: Wait_def delWaiter_def close_waiter_def c1_def)
  have "map_of (x_waiter c1) (fst g) = map_of (x_waiter c) (fst g)" if "g \<in> set fs" for g
  proof -
    have "fst f \<noteq> fst g" using Cons.prems(2) that by force
    then show ?thesis by (simp add: c1_def delete_conv')
  qed
  then have "slots reply_of c1 fs (w + 1) = slots reply_of c fs (w + 1)" by (intro slots_cong) (simp_all add: c1_def)
  with Cons.prems obtain c' where c': "wait_all (map Some [w + 1..<w + 1 + length fs]) c1 = Ret (map (\<lambda>f. Inl (snd f)) fs, c')"
    "\<forall>f \<in> set fs. map_of (x_waiter c') (fst f) = None" "\<forall>m. map_of (x_waiter c1) m = None \<longrightarrow> map_of (x_waiter c') m = None"
    using Cons.IH [of c1 "w + 1"] by auto
  have "map_of (x_waiter c') (fst f) = None" "\<forall>m. map_of (x_waiter c) m = None \<longrightarrow> map_of (x_waiter c') m = None"
    using c'(3) by (auto simp: c1_def delete_conv)
  moreover have "map Some [w..<w + length (f # fs)] = Some w # map Some [w + 1..<w + 1 + length fs]"
    by (subst upt_conv_Cons) simp_all
  ultimately show ?case using wait c'(1,2) by (simp del: upt_Suc length_Cons)
qed simp

section \<open>Echo\<close>

text \<open>
  C27. A series of requests and their echoes: requests sent one after the other on a connected
  client come back from the echoing server, and every \<open>Wait\<close>, in the order of the requests,
  returns the content of its own request. The bytes may be cut into reads in any way in both
  directions, as long as no read ends inside a header. (The ids do not run over.)
\<close>

theorem echoes_reach_their_waiters:
  assumes "has_flag (x_status c) statusConnect" and "x_conn c = Some (op, ws)" and "vis (x_buffer c) = []"
    and "1 \<le> sint (x_msgID c)" and "sint (x_msgID c) + int (length ds) < 2 ^ 63" and "\<forall>d \<in> set ds. length d + 8 < 2 ^ 32"
    and "cb_returns cb" and "vis (an_recvBuf (a_heap s a)) = []"
  shows "\<exists>waiters c1 sent. send_all now ds c = Ret (waiters, c1) \<and> x_conn c1 = Some (op, ws @ sent) \<and>
    (\<forall>cs. concat cs = concat sent \<and> header_safe [] cs \<longrightarrow>
      (\<exists>s' back. each (echo_turn grow a) cs s = Ret s' \<and> an_writes (a_heap s' a) = an_writes (a_heap s a) @ back \<and>
        (\<forall>rs. concat rs = concat back \<and> header_safe [] rs \<longrightarrow>
          (\<exists>c2 c3. each (aclient_onMessage grow' cb) rs c1 = Ret c2 \<and> wait_all waiters c2 = Ret (map Inl ds, c3)))))"
proof -
  let ?fs = "frames (x_msgID c) ds" and ?w = "x_fresh c"
  obtain c1 where c1: "send_all now ds c = Ret (map Some [?w..<?w + length ds], c1)"
    "x_conn c1 = Some (op, ws @ map enc ?fs)" "x_buffer c1 = x_buffer c" "slots (\<lambda>_. []) c1 ?fs ?w"
    using send_all_pending [OF assms(1,2,5)] by blast
  have ids: "\<forall>f \<in> set ?fs. length (snd f) + 8 < 2 ^ 32 \<and> 1 < sint (fst f)"
    using frames_ids [OF _ assms(5)] assms(4,6) by force
  then have pos: "\<forall>f \<in> set ?fs. length (snd f) + 8 < 2 ^ 32 \<and> 0 < sint (fst f)" by force
  from replies_fill [OF c1(4) _ assms(7)] ids
  have fill: "runs_ok (client_handler cb) c1 ?fs" "slots reply_of (run (client_handler cb) c1 ?fs) ?fs ?w" by auto
  have read: "\<exists>c2 c3. each (aclient_onMessage grow' cb) rs c1 = Ret c2 \<and>
      wait_all (map Some [?w..<?w + length ds]) c2 = Ret (map Inl ds, c3)"
    if rs: "concat rs = concat (map enc ?fs)" "header_safe [] rs" for rs
  proof -
    have "\<exists>buf. agent_feed grow' (client_handler cb) (x_buffer c1, c1) rs = (buf, run (client_handler cb) c1 ?fs, Ret ()) \<and> vis buf = []"
      using rs assms(3) c1(3) fill(1) pos
      by (intro agent_feed_stream) (simp_all add: codec_ok_def codec_enc_def [abs_def] codec_next_def)
    then obtain buf where c2: "each (aclient_onMessage grow' cb) rs c1 = Ret (set_buffer buf (run (client_handler cb) c1 ?fs))"
      using aclient_feed by blast
    have "slots reply_of (set_buffer buf (run (client_handler cb) c1 ?fs)) ?fs ?w"
      using fill(2) slots_cong [of ?fs "set_buffer buf (run (client_handler cb) c1 ?fs)" "run (client_handler cb) c1 ?fs" ?w reply_of]
      by (simp add: set_buffer_def)
    from waits_take [OF this distinct_frames [OF assms(5)]]
    obtain c3 where "wait_all (map Some [?w..<?w + length ds]) (set_buffer buf (run (client_handler cb) c1 ?fs)) =
        Ret (map (\<lambda>f. Inl (snd f)) ?fs, c3)"
      by auto
    moreover have "map (\<lambda>f. Inl (snd f) :: bytes + g_error) ?fs = map Inl (map snd ?fs)" by (simp only: map_map comp_def)
    ultimately have "wait_all (map Some [?w..<?w + length ds]) (set_buffer buf (run (client_handler cb) c1 ?fs)) = Ret (map Inl ds, c3)"
      by (simp only: map_snd_frames)
    with c2 show ?thesis by blast
  qed
  show ?thesis
  proof (rule exI [of _ "map Some [?w..<?w + length ds]"], rule exI [of _ c1], rule exI [of _ "map enc ?fs"],
      intro conjI allI impI c1(1,2))
    fix cs assume cs: "concat cs = concat (map enc ?fs) \<and> header_safe [] cs"
    with echo_reads [OF assms(8) pos] obtain s' where
      "each (echo_turn grow a) cs s = Ret s'" "an_writes (a_heap s' a) = an_writes (a_heap s a) @ map enc ?fs" by blast
    with read show "\<exists>s' back. each (echo_turn grow a) cs s = Ret s' \<and> an_writes (a_heap s' a) = an_writes (a_heap s a) @ back \<and>
        (\<forall>rs. concat rs = concat back \<and> header_safe [] rs \<longrightarrow> (\<exists>c2 c3. each (aclient_onMessage grow' cb) rs c1 = Ret c2 \<and>
          wait_all (map Some [?w..<?w + length ds]) c2 = Ret (map Inl ds, c3)))"
      by blast
  qed
qed

text \<open>The example's round: what comes back is what was sent, so that its check does not panic.\<close>

theorem echoes_reach_their_waiters_witness:
  "\<exists>waiters c1 s' c2 c3. send_all 0 example_requests demo_aclient = Ret (waiters, c1) \<and>
     echo_turn (\<lambda>_ n. n) 1 (concat (snd (the (x_conn c1)))) demo_agents = Ret s' \<and>
     aclient_onMessage (\<lambda>_ n. n) (\<lambda>st d. (st, Ret ())) (concat (an_writes (a_heap s' 1))) c1 = Ret c2 \<and>
     wait_all waiters c2 = Ret (map Inl example_requests, c3)"
proof -
  let ?fs = "frames (x_msgID demo_aclient) example_requests"
  have pre: "has_flag (x_status demo_aclient) statusConnect" "x_conn demo_aclient = Some (True, [])" "vis (x_buffer demo_aclient) = []"
    "1 \<le> sint (x_msgID demo_aclient)" "sint (x_msgID demo_aclient) + int (length example_requests) < 2 ^ 63"
    "\<forall>d \<in> set example_requests. length d + 8 < 2 ^ 32" "cb_returns (\<lambda>(st :: nat) d. (st, Ret ()))"
    "vis (an_recvBuf (a_heap demo_agents 1)) = []" "an_writes (a_heap demo_agents 1) = []"
    by (simp_all add: demo_aclient_def NewAgentClient_def statusConnect_def flag_simps gs_make_def example_requests_def
        cb_returns_def demo_agents_def agent_newNode_def)
  have safe: "header_safe [] [concat (map enc ?fs)]"
    by (rule one_read_frames) (simp_all add: example_requests_def PackageMaxLength_def)
  from echoes_reach_their_waiters [OF pre(1-8), of 0 "\<lambda>_ n. n" "\<lambda>_ n. n"] obtain waiters c1 sent where
    c1: "send_all 0 example_requests demo_aclient = Ret (waiters, c1)" "x_conn c1 = Some (True, sent)"
    and reads: "\<And>cs. concat cs = concat sent \<Longrightarrow> header_safe [] cs \<Longrightarrow> \<exists>s' bk. each (echo_turn (\<lambda>_ n. n) 1) cs demo_agents = Ret s' \<and>
      an_writes (a_heap s' 1) = bk \<and> (\<forall>rs. concat rs = concat bk \<and> header_safe [] rs \<longrightarrow>
        (\<exists>c2 c3. each (aclient_onMessage (\<lambda>_ n. n) (\<lambda>st d. (st, Ret ()))) rs c1 = Ret c2 \<and>
          wait_all waiters c2 = Ret (map Inl example_requests, c3)))"
    unfolding pre(9) append_Nil by blast
  have sent: "sent = map enc ?fs"
    using send_all_pending [OF pre(1,2,5), of 0] c1 by auto
  have "\<exists>s'. each (echo_turn (\<lambda>_ n. n) 1) [concat sent] demo_agents = Ret s' \<and> an_writes (a_heap s' 1) = map enc ?fs"
    using echo_reads [OF pre(8), of ?fs "[concat sent]" "\<lambda>_ n. n"] safe pre(9)
    unfolding sent by (auto simp: example_requests_def demo_aclient_def NewAgentClient_def)
  then obtain s' where s': "each (echo_turn (\<lambda>_ n. n) 1) [concat sent] demo_agents = Ret s'" "an_writes (a_heap s' 1) = sent"
    unfolding sent by blast
  have one: "concat [concat sent] = concat sent" "header_safe [] [concat sent]" using safe by (simp_all only: sent concat.simps append_Nil2)
  obtain s'' where "each (echo_turn (\<lambda>_ n. n) 1) [concat sent] demo_agents = Ret s''"
    "\<forall>rs. concat rs = concat (an_writes (a_heap s'' 1)) \<and> header_safe [] rs \<longrightarrow>
        (\<exists>c2 c3. each (aclient_onMessage (\<lambda>_ n. n) (\<lambda>st d. (st, Ret ()))) rs c1 = Ret c2 \<and>
          wait_all waiters c2 = Ret (map Inl example_requests, c3))"
    using reads [OF one] by blast
  then obtain c2 c3 where "each (aclient_onMessage (\<lambda>_ n. n) (\<lambda>st d. (st, Ret ()))) [concat sent] c1 = Ret c2"
    "wait_all waiters c2 = Ret (map Inl example_requests, c3)"
    using s' one by (metis go.inject)
  then have "echo_turn (\<lambda>_ n. n) 1 (concat sent) demo_agents = Ret s'"
    "aclient_onMessage (\<lambda>_ n. n) (\<lambda>st d. (st, Ret ())) (concat sent) c1 = Ret c2"
    "wait_all waiters c2 = Ret (map Inl example_requests, c3)"
    using s'(1) by (simp_all add: go_simps)
  with c1 s'(2) show ?thesis by auto
qed

end
