(* ===== verification/Spec2Isabelle.thy ===== *)
theory Spec2Isabelle
  imports Takeover Agent_Echo
begin

text \<open>
  \<^bold>\<open>copycat\<close> replicates the binlog of a MySQL or MariaDB server and pushes row events to
  subscribers over TCP. Several nodes form a cluster: Consul's lock elects a leader, the
  leader runs the replication, and its agent broadcasts events and positions to the agents
  of the other nodes, which serve their own subscribers and can take over at the leader's
  position. This theory joins the components; it holds the properties that span them.

  \<^bold>\<open>The program's parts and the theories that model them\<close> (files are those under
  \<^verbatim>\<open>src/\<close>; a definition has the name of the Go function, with a prefix or suffix where
  two components use the same name):

  \<^item> \<open>Go_Prelude\<close>, \<open>Go_Text\<close>: the parts of Go the sources use. \<open>go\<close> is the outcome of
    a call (returns, panics, blocks for good); \<open>gslice\<close> is a slice with the spare capacity
    behind it, because several functions slice past \<open>len\<close> or shift a backing array while it
    is being read; \<open>gs_append\<close> takes the growth policy of the run-time as an argument; errors
    are \<open>g_error\<close> (\<^verbatim>\<open>g/errors.go\<close>); status flags are natural numbers that are or-ed and
    xor-ed; \<open>ParseInt\<close>, \<open>strings.Split\<close> and decimal printing are written out.
  \<^item> \<open>Framing\<close>: the locale \<open>frame_reader\<close> (what finding the first frame of a buffer must
    promise for a stream reader not to depend on how the stream was cut into reads) and
    \<open>frame_codec\<close> (with the encoder). Interpreted as \<open>wire\<close> in \<open>Wire_Pack\<close> and as
    \<open>codec\<close> in \<open>Agent_Codec\<close>.
  \<^item> \<open>Closing_Range\<close>: the locale of the loops that close every node of a slice while closing
    removes the node from that slice. Interpreted as \<open>grp\<close> in \<open>Tcp_Groups\<close> and as
    \<open>agents\<close> in \<open>Agent_Server\<close>.
  \<^item> \<open>Wire_Pack\<close>: the subscription protocol, \<^verbatim>\<open>services/service_util.go\<close>, and the packers
    of \<^verbatim>\<open>client/tcp.go\<close>.
  \<^item> \<open>Tcp_Groups\<close>, \<open>Tcp_Node_Reader\<close>, \<open>Tcp_Service\<close>: the TCP service,
    \<^verbatim>\<open>services/service_tcpgroups.go\<close>, \<^verbatim>\<open>service_tcpnode.go\<close>, \<^verbatim>\<open>service_tcp.go\<close>.
    Connections are shared between the group, the accept loop and their goroutines, so they
    live in a heap (\<open>heap\<close>) and the group holds addresses. The goroutines are the step
    relations \<open>moves\<close>, \<open>serving\<close> and \<open>tcp_step\<close>.
  \<^item> \<open>Sub_Service\<close>: registration of a TCP service in Consul and its counter of connections,
    \<^verbatim>\<open>services/service.go\<close>.
  \<^item> \<open>Consul_Api\<close>: the calls of the Consul library as a record of functions, and the wrappers
    \<^verbatim>\<open>consul/kv*.go\<close>, \<^verbatim>\<open>session*.go\<close>, \<^verbatim>\<open>lock*.go\<close>. What Consul documents about sessions
    and locks is the locale \<open>consul_lock\<close>, and that it answers \<open>consul_lock_live\<close>; both are
    interpreted (\<open>consul\<close>) on a concrete cluster, and the election is proved in them.
  \<^item> \<open>Consul_Leader\<close>: \<^verbatim>\<open>consul/service.go\<close> and the election of \<^verbatim>\<open>consul/leader.go\<close>,
    one function per turn of the loop of \<open>Select\<close>; a cluster is a sequence of turns of its
    nodes over the shared Consul state.
  \<^item> \<open>Consul_Watch\<close>: \<^verbatim>\<open>consul/watch_service.go\<close>, \<^verbatim>\<open>watch_kv.go\<close>,
    \<^verbatim>\<open>client/watcher.go\<close>.
  \<^item> \<open>Sub_Client\<close>: the subscribers' library \<^verbatim>\<open>client/tcp.go\<close>; \<open>Client_Machine\<close>: its
    goroutine that chooses a server, connects and reads, as the step functions \<open>start_step\<close> and
    \<open>start_run\<close>, and the states a client reaches.
  \<^item> \<open>Delivery\<close>: a subscription server and a client at the two ends of a connection, and
    discovery through Consul. What a registry keeps of an answer is the locale
    \<open>consul_registry\<close>, interpreted as \<open>registry\<close> on the concrete cluster.
  \<^item> \<open>Pos_Cache\<close>, \<open>Field_Decode\<close>, \<open>Binlog_State\<close>: the binlog component,
    \<^verbatim>\<open>binlog/binlog_util.go\<close>, \<^verbatim>\<open>binlog_handler.go\<close>, \<^verbatim>\<open>binlog.go\<close>,
    \<^verbatim>\<open>binlog_config.go\<close>. \<open>Binlog_Replay\<close>: the library's calls as a sequence, and the abstract
    publisher \<open>emits\<close>, which knows a counter and the row events only.
  \<^item> \<open>Agent_Codec\<close>, \<open>Agent_Reader\<close>, \<open>Agent_Server\<close>, \<open>Agent_Client\<close>, \<open>Agent_Service\<close>:
    \<^verbatim>\<open>agent/codec.go\<close>, the two reading loops, \<^verbatim>\<open>agent/node.go\<close> with \<^verbatim>\<open>group.go\<close>
    and \<^verbatim>\<open>server.go\<close>, \<^verbatim>\<open>client.go\<close> with \<^verbatim>\<open>client_sync.go\<close>, and \<^verbatim>\<open>agent.go\<close>.
    \<open>Agent_Echo\<close>: the client and the server of \<^verbatim>\<open>agent/examples\<close> working together.
  \<^item> \<open>Node\<close>: the construction of a node in \<^verbatim>\<open>main.go\<close>, its callbacks, and the handlers of
    the binlog component with these callbacks in place. \<open>Main_Program\<close>: the whole of \<^verbatim>\<open>main.go\<close>
    with \<open>Init\<close> and \<open>Usage\<close> of \<^verbatim>\<open>g/app.go\<close>, \<^verbatim>\<open>g/banner.go\<close> and the handlers of the
    administration. \<open>Start_Up\<close>: what a start achieves. \<open>Takeover\<close>: lemmas for a follower in the
    leader's place.
  \<^item> \<open>Process\<close>: \<^verbatim>\<open>g/context.go\<close> and the end of \<^verbatim>\<open>main.go\<close>: the signal handler, \<open>main\<close>
    after the signal and the two goroutines of the binlog component, as the step relations
    \<open>exit_step\<close> and \<open>proc_step\<close>.
  \<^item> \<open>Config\<close>: \<^verbatim>\<open>g/cfg.go\<close>, and \<open>GetKey\<close> of \<^verbatim>\<open>g/app.go\<close>.

  \<^bold>\<open>What the theorems show.\<close>
  \<^item> Across components (here): what a row event of the leader publishes reaches exactly the
    callbacks of its table's subscribers on every node; positions reach the followers' memory and
    cache; a follower that is elected, after a resignation or a failure, starts at the position the
    old leader published, and no event published since then is lost or renumbered.
  \<^item> Delivery: a client that connects gets exactly the events of its topics, for every cut of
    both directions into reads.
  \<^item> Start-up: from the command line to the running replication, what a start needs, and the
    wiring of the node.
  \<^item> Election: at most one leader while sessions live, the turns refine an abstract election, a
    free lock is taken, and what happens when a session has expired.
  \<^item> Process: the node stays until a signal comes, and then every run ends with the process gone,
    its components closed and its leadership given up.
  \<^item> TCP service: the invariant of the connections in every reachable state, the counter of
    connections, delivery of events to the queues of the matching clients, the sending
    goroutine, and the reading loop as a refinement of serving the frames one by one.
  \<^item> Codecs: both protocols and the position record round trip; the readers deliver the frames
    of a stream for every admissible cut into reads.
  \<^item> Binlog: one event per row with the decoded columns, integer, SET and ENUM columns, resuming
    from the cache; a crash and a restart publish the same events under the same numbers.
  \<^item> Client and agents: the type of the client's state in every state it reaches, choice of the
    least loaded server, the table of servers follows the registry; every reply of a series
    reaches its own waiter; the agent's list of members is exact in every reachable state, and a
    broadcast reaches all of them.
  \<^item> Errors: what the code does on malformed frames, on a header cut between two reads, on a
    connection that breaks inside a frame, on a close that races a send, on closing a group, on
    exit, when a follower has lost the leader, and when a client looks for servers in Consul.

  \<^bold>\<open>Bounds.\<close> Lengths keep their width: 4 bytes on the wire, so contents are bounded by
  \<open>2 ^ 32\<close> (by 16 MiB where the client packs); \<open>PackageMaxLength\<close> bounds an agent package;
  the cache is read into 512 bytes, so a file name may have 494; queues have the capacity of
  their channels (\<open>tcpMaxSendQueue\<close>, \<open>agentMaxSendQueue\<close>, \<open>asyncWriteChanLen\<close>,
  \<open>chan_cap\<close>) and a send to a full one is an outcome of its own. No definition takes fuel: loops
  over data are total functions, and endless loops are functions of one turn.

  \<^bold>\<open>Parameters.\<close> The Consul library (\<open>api\<close>; the locales \<open>consul_lock\<close> and
  \<open>consul_lock_live\<close> state what it documents about sessions and locks, and \<open>consul_api\<close> is an
  instance), the answers of
  the replication library, \<open>json.Marshal\<close> and \<open>json.Unmarshal\<close>, \<open>regexp.MatchString\<close>, the
  file package, the clock, random numbers, dialling, and the results of reads and writes.

  \<^bold>\<open>Abstractions.\<close> A function that holds a lock from its beginning to its end is one step; where
  the code gives the lock back in between, the parts are separate steps (\<open>asyncSend_check\<close> and
  \<open>asyncSend_push\<close>). A send on a full channel is the outcome \<open>Block\<close> of the call: it cannot go on
  in that state. A callback that panics under a \<open>recover\<close> has changed nothing. The TCP service
  and the agent of a node each have their own view of Consul, which they use under different
  keys. The member handed to the callbacks of an election is passed by value. Writing the
  position cache succeeds. Deadlines and logging are left out.

  \<^bold>\<open>Not modelled.\<close> Log output and its format; the time zone that \<open>Init\<close> loads and drops, the
  empty goroutine for profiling and the file names no code uses; of the examples and scripts all
  but the agent's echo server and its client's requests (the rest calls the modelled components
  and prints, and two of these programs do not compile); and all third-party packages.
\<close>

section \<open>Positions across the cluster\<close>

text \<open>A leader with room in its members' queues, and a follower that listens.\<close>

definition leading :: "nat \<Rightarrow> 'c node \<Rightarrow> bool" where
  "leading n nd \<longleftrightarrow> enable nd \<and> binlog_open (fst (world nd)) \<and> room n (ag_server nd)"

definition listening :: "'c node \<Rightarrow> bool" where
  "listening fd \<longleftrightarrow> connected fd \<and> vis (x_buffer (ag_client fd)) = [] \<and> vis (clients (ag_server fd)) = []"

text \<open>The leader's positions at the follower.\<close>

lemma positions_replicated:
  assumes "leading (length ps) nd" and "a \<in> set (vis (clients (ag_server nd)))"
    and "an_queue (a_heap (ag_server nd) a) = []" and "\<forall>p \<in> set ps. length (pos_Name p) \<le> 494"
    and "listening fd" and "binlog_open (fst (world fd))" and "onPos fd = [save_cb]"
  defines "rs \<equiv> map (pos_record (EventIndex (fst (world nd)))) ps"
  shows "\<exists>nd'. each node_OnPosSynced ps nd = Ret nd' \<and> fst (world nd') = fold adopt rs (fst (world nd)) \<and>
    sService nd' = sService nd \<and> enable nd' \<and> agents_wf (ag_server nd') \<and>
    (\<forall>cs. concat cs = concat (an_queue (a_heap (ag_server nd') a)) \<and> header_safe [] cs \<longrightarrow>
      (\<exists>fd'. each (\<lambda>r. node_read grow um (Some r)) cs fd = Ret fd' \<and>
        world fd' = (fold adopt rs (fst (world fd)), snd (world fd)) \<and> onLeader fd' = onLeader fd \<and>
        sService fd' = sService fd))"
proof -
  obtain h t where w: "world nd = (h, t)" by (metis prod.exhaust)
  obtain h2 t2 where w2: "world fd = (h2, t2)" by (metis prod.exhaust)
  let ?ds = "map (\<lambda>r. Pack agent_CMD_POS (pack_record r)) rs"
  obtain nd' where nd': "each node_OnPosSynced ps nd = Ret nd'" "world nd' = (fold adopt rs h, t)"
    "ag_server nd' = fold queued ?ds (ag_server nd)" "sService nd' = sService nd" "enable nd'" "room 0 (ag_server nd')"
    using leader_positions [of nd h t ps] assms(1) w by (auto simp: leading_def rs_def comp_def)
  have wf: "agents_wf (ag_server nd')" using nd'(6) by (simp add: room_def)
  have q: "an_queue (a_heap (ag_server nd') a) = map (Encode 1) ?ds"
    using an_queue_fold_queued [OF assms(2), of ?ds] assms(3) nd'(3) by simp
  have names: "\<forall>r \<in> set rs. length (fst r) \<le> 494"
    using assms(4) by (simp add: rs_def pos_record_def)
  have cb: "cb_run (onClientMessage um (onEvent fd) (onPos fd)) (world fd) ?ds = (fold adopt rs h2, t2)"
    "cb_ok (onClientMessage um (onEvent fd) (onPos fd)) (world fd) ?ds"
    using follower_adopts [OF _ names assms(7), of h2 um "onEvent fd" t2] assms(6) w2 by simp_all
  have len: "\<forall>d \<in> set ?ds. length d + 8 < 2 ^ 32 \<and> d \<noteq> heartbeat"
    using names by (auto simp: length_pack_record)
  have "\<exists>fd'. each (\<lambda>r. node_read grow um (Some r)) cs fd = Ret fd' \<and> world fd' = (fold adopt rs h2, t2) \<and>
      onLeader fd' = onLeader fd \<and> sService fd' = sService fd"
    if "concat cs = concat (map (Encode 1) ?ds)" "header_safe [] cs" for cs
    using follower_reads [OF _ _ _ len cb(2) that, of grow] assms(5) cb(1) by (auto simp: listening_def)
  with nd' wf q w w2 show ?thesis by auto
qed

text \<open>
  C4. The position a leader has reached is the position its followers have: for every sequence
  of positions the leader reports, a follower that reads what the leader's agent has queued
  for it, in whatever reads that do not cut a header, ends with the file, position and event
  counter of the last one, in memory and in its cache file, exactly as the leader does.
\<close>

theorem positions_reach_followers:
  assumes "leading (length ps) nd" and "a \<in> set (vis (clients (ag_server nd)))"
    and "an_queue (a_heap (ag_server nd) a) = []" and "\<forall>p \<in> set ps. length (pos_Name p) \<le> 494" and "ps \<noteq> []"
    and "listening fd" and "binlog_open (fst (world fd))" and "onPos fd = [save_cb]"
  shows "\<exists>nd'. each node_OnPosSynced ps nd = Ret nd' \<and>
    (\<forall>cs. concat cs = concat (an_queue (a_heap (ag_server nd') a)) \<and> header_safe [] cs \<longrightarrow>
      (\<exists>fd'. each (\<lambda>r. node_read grow um (Some r)) cs fd = Ret fd' \<and>
        (\<forall>h \<in> {fst (world nd'), fst (world fd')}.
           lastBinFile h = pos_Name (last ps) \<and> lastPos h = pos_Pos (last ps) \<and>
           EventIndex h = EventIndex (fst (world nd)) \<and>
           getBinlogPositionCache h = Ret (pos_Name (last ps), ucast (pos_Pos (last ps)), EventIndex (fst (world nd))))))"
proof -
  define rs where "rs = map (pos_record (EventIndex (fst (world nd)))) ps"
  have "rs \<noteq> []" and "last rs = (pos_Name (last ps), ucast (pos_Pos (last ps)), EventIndex (fst (world nd)))"
    and "length (pos_Name (last ps)) \<le> 494"
    using assms(4,5) by (simp_all add: rs_def last_map pos_record_def)
  note last = adopt_last [OF this]
  have "lastBinFile (fold adopt rs h) = pos_Name (last ps) \<and> lastPos (fold adopt rs h) = pos_Pos (last ps) \<and>
      EventIndex (fold adopt rs h) = EventIndex (fst (world nd)) \<and> getBinlogPositionCache (fold adopt rs h) =
        Ret (pos_Name (last ps), ucast (pos_Pos (last ps)), EventIndex (fst (world nd)))" if "binlog_open h" for h
    using that last [of h] by (simp add: getBinlogPositionCache_def binlog_open_def)
  note fold_ok = this [of "fst (world nd)"] this [of "fst (world fd)"]
  obtain nd' where "each node_OnPosSynced ps nd = Ret nd'" "fst (world nd') = fold adopt rs (fst (world nd))"
    "\<And>cs. concat cs = concat (an_queue (a_heap (ag_server nd') a)) \<Longrightarrow> header_safe [] cs \<Longrightarrow>
      \<exists>fd'. each (\<lambda>r. node_read grow um (Some r)) cs fd = Ret fd' \<and>
        world fd' = (fold adopt rs (fst (world fd)), snd (world fd)) \<and> onLeader fd' = onLeader fd"
    using positions_replicated [OF assms(1-4,6-8), of grow um] unfolding rs_def by blast
  with fold_ok assms(1,7) show ?thesis by (fastforce simp: leading_def)
qed

text \<open>Concrete nodes: a leader with three members and a follower connected to it.\<close>

definition demo_leader_node :: "consul node" where
  "demo_leader_node =
     \<lparr>Address = ''10.0.0.1:9991'', enable = True, ag_client = NewAgentClient (demo_binlog, demo_one),
      sService = demo_leader 0, onLeader = [leader_cb], ag_leader = True, ag_server = demo_agents,
      onEvent = [sendAll_cb (\<lambda>p s. (p = s, None))], onPos = [save_cb]\<rparr>"

definition demo_follower_node :: "consul node" where
  "demo_follower_node =
     \<lparr>Address = ''10.0.0.2:9991'', enable = True,
      ag_client = (NewAgentClient ((new_binlog [])\<lparr>b_status := cacheHandlerIsOpened, b_handlers := [canal_config demo_db]\<rparr>, demo_one))
        \<lparr>x_status := statusConnect, x_conn := Some (True, [])\<rparr>,
      sService = demo_leader 1, onLeader = [leader_cb], ag_leader = False, ag_server = NewServer,
      onEvent = [sendAll_cb (\<lambda>p s. (p = s, None))], onPos = [save_cb]\<rparr>"

text \<open>The same leader with the lead of the election in its hand.\<close>

definition demo_acting_leader :: "consul node" where
  "demo_acting_leader = demo_leader_node\<lparr>sService := (demo_leader 0)\<lparr>leader := True\<rparr>\<rparr>"

lemma demo_leading: "n \<le> 3 \<Longrightarrow> leading n demo_leader_node"
  using demo_agents_wf demo_agents_online
  by (simp add: leading_def demo_leader_node_def world_def NewAgentClient_def binlog_open_def room_def)
    (simp add: demo_agents_def agent_newNode_def agentMaxSendQueue_def)

lemma demo_listening: "listening demo_follower_node"
  by (simp add: listening_def demo_follower_node_def NewAgentClient_def statusConnect_def flag_simps gs_make_def NewServer_def)

lemma demo_nodes [simp]:
  "2 \<in> set (vis (clients (ag_server demo_leader_node)))" "an_queue (a_heap (ag_server demo_leader_node) 2) = []"
  "world demo_leader_node = (demo_binlog, demo_one)" "onPos demo_follower_node = [save_cb]" "enable demo_leader_node"
  "world demo_follower_node = ((new_binlog [])\<lparr>b_status := cacheHandlerIsOpened, b_handlers := [canal_config demo_db]\<rparr>, demo_one)"
  "onLeader demo_follower_node = [leader_cb]" "onEvent demo_follower_node = [sendAll_cb (\<lambda>p s. (p = s, None))]"
  by (simp_all add: demo_leader_node_def demo_follower_node_def demo_agents_def agent_newNode_def world_def
      NewAgentClient_def)

lemma demo_follower_open: "binlog_open (fst (world demo_follower_node))"
  by (simp add: binlog_open_def new_binlog_def binlog_flags flag_simps)

text \<open>A stream that arrives in one read.\<close>

lemma one_read_safe:
  assumes "\<forall>d \<in> set ds. length d + 8 < 2 ^ 32" and "length (concat (map (Encode 1) ds)) \<le> PackageMaxLength"
  shows "header_safe [] [concat (map (Encode 1) ds)]"
  using one_read_frames [of "map (Pair 1) ds"] assms by (simp add: comp_def)

theorem positions_reach_followers_witness:
  "\<exists>nd' fd'. each node_OnPosSynced [\<lparr>pos_Name = ''bin.1'', pos_Pos = 500\<rparr>] demo_leader_node = Ret nd' \<and>
     node_read (\<lambda>_ n. n) (\<lambda>_. None) (Some (concat (an_queue (a_heap (ag_server nd') 2)))) demo_follower_node = Ret fd' \<and>
     lastBinFile (fst (world fd')) = ''bin.1'' \<and> lastPos (fst (world fd')) = 500"
proof -
  let ?ps = "[\<lparr>pos_Name = ''bin.1'', pos_Pos = 500\<rparr>] :: Position list"
  obtain nd' where nd': "each node_OnPosSynced ?ps demo_leader_node = Ret nd'"
    and reads: "\<forall>cs. concat cs = concat (an_queue (a_heap (ag_server nd') 2)) \<and> header_safe [] cs \<longrightarrow>
      (\<exists>fd'. each (\<lambda>r. node_read (\<lambda>_ n. n) (\<lambda>_. None) (Some r)) cs demo_follower_node = Ret fd' \<and>
        (\<forall>h \<in> {fst (world nd'), fst (world fd')}. lastBinFile h = pos_Name (last ?ps) \<and> lastPos h = pos_Pos (last ?ps) \<and>
           EventIndex h = EventIndex (fst (world demo_leader_node)) \<and> getBinlogPositionCache h =
             Ret (pos_Name (last ?ps), ucast (pos_Pos (last ?ps)), EventIndex (fst (world demo_leader_node)))))"
    using positions_reach_followers [of ?ps demo_leader_node 2 demo_follower_node "\<lambda>_ n. n" "\<lambda>_. None"]
      demo_leading demo_listening demo_follower_open by auto
  let ?ds = "map (\<lambda>p. Pack agent_CMD_POS (pack_record (pos_record (EventIndex demo_binlog) p))) ?ps"
  have "an_queue (a_heap (ag_server nd') 2) = map (Encode 1) ?ds"
    using leader_positions [of demo_leader_node demo_binlog demo_one ?ps] demo_leading [of 1] nd'
    by (auto simp: leading_def an_queue_queued)
  moreover have "header_safe [] [concat (map (Encode 1) ?ds)]"
    by (rule one_read_safe) (simp_all add: length_pack_record pos_record_def PackageMaxLength_def)
  ultimately show ?thesis
    using reads [rule_format, of "[concat (an_queue (a_heap (ag_server nd') 2))]"] nd'
    by (auto simp: go_simps)
qed

section \<open>Failover\<close>

text \<open>A follower's memory after it has read the leader's positions, elected or not.\<close>

lemma adopted_node_runs:
  fixes fd fd1 :: "'c node"
  assumes "rs \<noteq> []" and "last rs = (f, i, k)" and "length f \<le> 494" and "f \<noteq> []"
    and "world fd1 = (fold adopt rs (fst (world fd)), snd (world fd))" and "onLeader fd1 = [leader_cb]"
    and "binlog_open (fst (world fd))" and "startServiceChan (fst (world fd)) < chan_cap"
    and "\<not> has_flag (b_status (fst (world fd))) binlogIsRunning" and "IsLeader m"
  shows "\<exists>fd2 h. on_select m fd1 = (fd2, Ret ()) \<and> start_pass waited (lookStart_turn (fst (world fd2))) = Ret h \<and>
    b_runs h = b_runs (fst (world fd)) @ [\<lparr>pos_Name = f, pos_Pos = ucast i\<rparr>]"
  using elected_node_runs [of fd1 m waited] adopt_last [OF assms(1-3), of "fst (world fd)"] assms(4-10) by auto

text \<open>
  Failover loses no position: when a follower that has read the leader's messages is
  elected, the callback of the election sends the start signal, and the replication this
  starts runs from the last position the old leader had published.
\<close>

theorem failover_resumes_at_leader_position:
  assumes "leading (length ps) nd" and "a \<in> set (vis (clients (ag_server nd)))"
    and "an_queue (a_heap (ag_server nd) a) = []" and "\<forall>p \<in> set ps. length (pos_Name p) \<le> 494" and "ps \<noteq> []"
    and "pos_Name (last ps) \<noteq> []" and "listening fd" and "binlog_open (fst (world fd))" and "onPos fd = [save_cb]"
    and "onLeader fd = [leader_cb]" and "startServiceChan (fst (world fd)) < chan_cap"
    and "\<not> has_flag (b_status (fst (world fd))) binlogIsRunning" and "IsLeader m"
  shows "\<exists>nd'. each node_OnPosSynced ps nd = Ret nd' \<and>
    (\<forall>cs. concat cs = concat (an_queue (a_heap (ag_server nd') a)) \<and> header_safe [] cs \<longrightarrow>
      (\<exists>fd1 fd2 h. each (\<lambda>r. node_read grow um (Some r)) cs fd = Ret fd1 \<and> on_select m fd1 = (fd2, Ret ()) \<and>
         start_pass waited (lookStart_turn (fst (world fd2))) = Ret h \<and> b_runs h = b_runs (fst (world fd)) @ [last ps]))"
proof -
  define rs where "rs = map (pos_record (EventIndex (fst (world nd)))) ps"
  have rs: "rs \<noteq> []" "last rs = (pos_Name (last ps), ucast (pos_Pos (last ps)), EventIndex (fst (world nd)))"
    "length (pos_Name (last ps)) \<le> 494"
    using assms(4,5) by (simp_all add: rs_def last_map pos_record_def)
  obtain nd' where nd': "each node_OnPosSynced ps nd = Ret nd'"
    and reads: "\<And>cs. concat cs = concat (an_queue (a_heap (ag_server nd') a)) \<Longrightarrow> header_safe [] cs \<Longrightarrow>
      \<exists>fd'. each (\<lambda>r. node_read grow um (Some r)) cs fd = Ret fd' \<and>
        world fd' = (fold adopt rs (fst (world fd)), snd (world fd)) \<and> onLeader fd' = onLeader fd"
    using positions_replicated [OF assms(1-4,7-9), of grow um] unfolding rs_def by blast
  have last: "\<lparr>pos_Name = pos_Name (last ps), pos_Pos = ucast (ucast (pos_Pos (last ps)) :: int64)\<rparr> = last ps" by simp
  show ?thesis
    using nd' reads adopted_node_runs [OF rs assms(6) _ _ assms(8,11-13), of _ waited] assms(10)
    unfolding last by (metis (no_types, lifting))
qed

text \<open>
  C5. An orderly change of the lead loses no position: when the leader closes its agent after
  publishing positions, it gives up the lead and the lock; a follower that has read its
  messages, whose session lives and whose loop takes the next turn, is elected, its callback
  sends the start signal, and the replication this starts runs from the last position the old
  leader had published.
\<close>

theorem handover_resumes_at_leader_position:
  assumes "consul_lock_live api valid holder" and "leader (sService nd)" and "\<not> leader (sService fd)"
    and "lock_key (sService fd) = lock_key (sService nd)" and "valid con (sid (sService fd))"
    and "leading (length ps) nd" and "a \<in> set (vis (clients (ag_server nd)))"
    and "an_queue (a_heap (ag_server nd) a) = []" and "\<forall>p \<in> set ps. length (pos_Name p) \<le> 494" and "ps \<noteq> []"
    and "pos_Name (last ps) \<noteq> []" and "listening fd" and "binlog_open (fst (world fd))" and "onPos fd = [save_cb]"
    and "onLeader fd = [leader_cb]" and "startServiceChan (fst (world fd)) < chan_cap"
    and "\<not> has_flag (b_status (fst (world fd))) binlogIsRunning"
  shows "\<exists>nd1 nd2 con1. each node_OnPosSynced ps nd = Ret nd1 \<and> agent_Close api nd1 con = Ret (nd2, con1) \<and>
    \<not> leader (sService nd2) \<and>
    (\<forall>cs. concat cs = concat (an_queue (a_heap (ag_server nd1) a)) \<and> header_safe [] cs \<longrightarrow>
      (\<exists>fd1 m l con2 fd2 h. each (\<lambda>r. node_read grow um (Some r)) cs fd = Ret fd1 \<and>
         select_turn api (sService fd1) con1 = ([m], l, con2) \<and> leader l \<and>
         on_select m (fd1\<lparr>sService := l\<rparr>) = (fd2, Ret ()) \<and>
         start_pass waited (lookStart_turn (fst (world fd2))) = Ret h \<and> b_runs h = b_runs (fst (world fd)) @ [last ps]))"
proof -
  define rs where "rs = map (pos_record (EventIndex (fst (world nd)))) ps"
  have rs: "rs \<noteq> []" "last rs = (pos_Name (last ps), ucast (pos_Pos (last ps)), EventIndex (fst (world nd)))"
    "length (pos_Name (last ps)) \<le> 494"
    using assms(9,10) by (simp_all add: rs_def last_map pos_record_def)
  obtain nd1 where nd1: "each node_OnPosSynced ps nd = Ret nd1" "sService nd1 = sService nd" "enable nd1" "agents_wf (ag_server nd1)"
    and reads: "\<And>cs. concat cs = concat (an_queue (a_heap (ag_server nd1) a)) \<Longrightarrow> header_safe [] cs \<Longrightarrow>
      \<exists>fd'. each (\<lambda>r. node_read grow um (Some r)) cs fd = Ret fd' \<and>
        world fd' = (fold adopt rs (fst (world fd)), snd (world fd)) \<and> onLeader fd' = onLeader fd \<and> sService fd' = sService fd"
    using positions_replicated [OF assms(6-9,12-14), of grow um] unfolding rs_def by blast
  obtain l' con1 where fr: "Leader_Free api (sService nd) con = (l', con1)" by (metis prod.exhaust)
  from consul_lock_live.resigned_turn_wins [OF assms(1) fr assms(2,4,5,3)] obtain l con2 where
    win: "\<not> leader l'" "select_turn api (sService fd) con1 = ([member_of (sService fd) True], l, con2)" "leader l"
    by blast
  obtain s' where "Server_Close (ag_server nd1) = Ret s'" using Server_Close_returns [OF nd1(4)] by blast
  then have close: "agent_Close api nd1 con = Ret (nd1\<lparr>ag_server := s', sService := l'\<rparr>, con1)"
    using nd1(2,3) fr by (simp add: agent_Close_def)
  have last: "\<lparr>pos_Name = pos_Name (last ps), pos_Pos = ucast (ucast (pos_Pos (last ps)) :: int64)\<rparr> = last ps" by simp
  let ?m = "member_of (sService fd) True"
  have run: "\<exists>fd2 h. on_select ?m (fd1\<lparr>sService := l\<rparr>) = (fd2, Ret ()) \<and>
      start_pass waited (lookStart_turn (fst (world fd2))) = Ret h \<and> b_runs h = b_runs (fst (world fd)) @ [last ps]"
    if "world fd1 = (fold adopt rs (fst (world fd)), snd (world fd))" "onLeader fd1 = onLeader fd" for fd1
    using adopted_node_runs [OF rs assms(11) _ _ assms(13,16,17), of "fd1\<lparr>sService := l\<rparr>" ?m waited] that assms(15)
    unfolding last by (simp add: world_def member_of_def)
  have elected: "\<exists>fd1 m l con2 fd2 h. each (\<lambda>r. node_read grow um (Some r)) cs fd = Ret fd1 \<and>
       select_turn api (sService fd1) con1 = ([m], l, con2) \<and> leader l \<and> on_select m (fd1\<lparr>sService := l\<rparr>) = (fd2, Ret ()) \<and>
       start_pass waited (lookStart_turn (fst (world fd2))) = Ret h \<and> b_runs h = b_runs (fst (world fd)) @ [last ps]"
    if cs: "concat cs = concat (an_queue (a_heap (ag_server nd1) a))" "header_safe [] cs" for cs
  proof -
    obtain fd1 where fd1: "each (\<lambda>r. node_read grow um (Some r)) cs fd = Ret fd1" "sService fd1 = sService fd"
      "world fd1 = (fold adopt rs (fst (world fd)), snd (world fd))" "onLeader fd1 = onLeader fd"
      using reads [OF cs] by blast
    from run [OF fd1(3,4)] fd1(1,2) win(2,3) show ?thesis by metis
  qed
  have "\<not> leader (sService (nd1\<lparr>ag_server := s', sService := l'\<rparr>))" using win(1) by simp
  with nd1(1) close elected show ?thesis by blast
qed

section \<open>Events across the cluster\<close>

text \<open>
  What the two nodes hold once a row event has been published and read: the leader its
  component's new state and its subscribers with the events pushed, the follower the same
  events pushed to its own subscribers.
\<close>

lemma events_replicated:
  assumes "OnRow sp now Marshal e (fst (world nd)) = Ret h'" and "b_out h' = b_out (fst (world nd)) @ es"
    and "leading (length es) nd" and "listed (length es) (snd (world nd))"
    and "a \<in> set (vis (clients (ag_server nd)))" and "an_queue (a_heap (ag_server nd) a) = []"
    and "\<forall>x \<in> set es. reads_back um x \<and> length (snd x) + 14 < 2 ^ 32"
    and "listening fd" and "listed (length es) (snd (world fd))" and "onEvent fd = [sendAll_cb m2]"
  obtains nd' where "node_OnRow sp now Marshal m e nd = Ret nd'"
    and "world nd' = (h', fold (push_event m) es (snd (world nd)))"
    and "an_queue (a_heap (ag_server nd') a) = map (\<lambda>x. Encode 1 (Pack agent_CMD_EVENT (snd x))) es"
    and "\<And>cs. concat cs = concat (an_queue (a_heap (ag_server nd') a)) \<Longrightarrow> header_safe [] cs \<Longrightarrow>
      \<exists>fd'. each (\<lambda>r. node_read grow um (Some r)) cs fd = Ret fd' \<and>
        world fd' = (fst (world fd), fold (push_event m2) es (snd (world fd)))"
proof -
  obtain h t where w: "world nd = (h, t)" by (metis prod.exhaust)
  obtain h2 t2 where w2: "world fd = (h2, t2)" by (metis prod.exhaust)
  let ?ds = "map (\<lambda>x. Pack agent_CMD_EVENT (snd x)) es"
  obtain nd' where nd': "each (node_notify m) es (put_world (h', t) nd) = Ret nd'"
    "world nd' = (h', fold (push_event m) es t)" "ag_server nd' = fold queued ?ds (ag_server nd)"
    using leader_events [of "put_world (h', t) nd" h' t es m] assms(3,4) w by (auto simp: leading_def)
  have row: "node_OnRow sp now Marshal m e nd = Ret nd'"
    using assms(1,2) nd'(1) w by (simp add: node_OnRow_def)
  have q: "an_queue (a_heap (ag_server nd') a) = map (Encode 1) ?ds"
    using an_queue_fold_queued [OF assms(5), of ?ds] assms(6) nd'(3) by simp
  have ok: "\<forall>x \<in> set es. reads_back um x \<and> length (snd x) + 2 < 2 ^ 32" using assms(7) by fastforce
  have cb: "cb_run (onClientMessage um (onEvent fd) (onPos fd)) (world fd) ?ds = (h2, fold (push_event m2) es t2)"
    "cb_ok (onClientMessage um (onEvent fd) (onPos fd)) (world fd) ?ds"
    using follower_pushes [OF _ ok assms(10), of t2 "onPos fd" h2] assms(9) w2 by simp_all
  have len: "\<forall>d \<in> set ?ds. length d + 8 < 2 ^ 32 \<and> d \<noteq> heartbeat" using assms(7) by auto
  have reads: "\<exists>fd'. each (\<lambda>r. node_read grow um (Some r)) cs fd = Ret fd' \<and> world fd' = (h2, fold (push_event m2) es t2)"
    if "concat cs = concat (map (Encode 1) ?ds)" "header_safe [] cs" for cs
    using follower_reads [OF _ _ _ len cb(2) that, of grow] assms(8) cb(1) by (auto simp: listening_def)
  show thesis
    by (rule that [OF row]) (use nd'(2) q reads in \<open>simp_all add: w w2 comp_def\<close>)
qed

theorem events_reach_subscribers_of_followers:
  assumes "OnRow sp now Marshal e (fst (world nd)) = Ret h'" and "b_out h' = b_out (fst (world nd)) @ es"
    and "leading (length es) nd" and "listed (length es) (snd (world nd))"
    and "a \<in> set (vis (clients (ag_server nd)))" and "an_queue (a_heap (ag_server nd) a) = []"
    and "\<forall>x \<in> set es. reads_back um x \<and> length (snd x) + 14 < 2 ^ 32"
    and "listening fd" and "listed (length es) (snd (world fd))" and "onEvent fd = [sendAll_cb m2]"
  shows "\<exists>nd'. node_OnRow sp now Marshal m e nd = Ret nd' \<and>
    (\<forall>b. online (heap (snd (world nd)) b) \<longrightarrow> sendQueue (heap (snd (world nd')) b) = sendQueue (heap (snd (world nd)) b) @
       map (\<lambda>x. Pack CMD_EVENT (snd x)) (filter (\<lambda>x. MatchFilters m (topics (heap (snd (world nd)) b)) (fst x)) es)) \<and>
    (\<forall>cs. concat cs = concat (an_queue (a_heap (ag_server nd') a)) \<and> header_safe [] cs \<longrightarrow>
      (\<exists>fd'. each (\<lambda>r. node_read grow um (Some r)) cs fd = Ret fd' \<and>
        (\<forall>b. online (heap (snd (world fd)) b) \<longrightarrow> sendQueue (heap (snd (world fd')) b) = sendQueue (heap (snd (world fd)) b) @
          map (\<lambda>x. Pack CMD_EVENT (snd x)) (filter (\<lambda>x. MatchFilters m2 (topics (heap (snd (world fd)) b)) (fst x)) es))))"
proof -
  obtain nd' where nd': "node_OnRow sp now Marshal m e nd = Ret nd'" "world nd' = (h', fold (push_event m) es (snd (world nd)))"
    and reads: "\<And>cs. concat cs = concat (an_queue (a_heap (ag_server nd') a)) \<Longrightarrow> header_safe [] cs \<Longrightarrow>
      \<exists>fd'. each (\<lambda>r. node_read grow um (Some r)) cs fd = Ret fd' \<and>
        world fd' = (fst (world fd), fold (push_event m2) es (snd (world fd)))"
    by (rule events_replicated [OF assms, where m = m and grow = grow]) (rule that)
  show ?thesis
  proof (intro exI [of _ nd'] conjI allI impI nd'(1))
    fix cs assume "concat cs = concat (an_queue (a_heap (ag_server nd') a)) \<and> header_safe [] cs"
    with reads [of cs] show "\<exists>fd'. each (\<lambda>r. node_read grow um (Some r)) cs fd = Ret fd' \<and>
        (\<forall>b. online (heap (snd (world fd)) b) \<longrightarrow> sendQueue (heap (snd (world fd')) b) = sendQueue (heap (snd (world fd)) b) @
          map (\<lambda>x. Pack CMD_EVENT (snd x)) (filter (\<lambda>x. MatchFilters m2 (topics (heap (snd (world fd)) b)) (fst x)) es))"
      by (auto simp: sendQueue_push_events)
  qed (simp add: nd'(2) sendQueue_push_events)
qed

text \<open>
  C1. A row change reaches the callbacks of the subscribers of every node. What the leader's
  component makes of a row event is queued for the leader's own subscribers; once a follower
  has read what the leader's agent queued for it, the sending goroutine of each of the
  follower's subscribers writes, and the client at the other end hands to each of its
  callbacks, in order and once each, the events of the tables the subscriber has topics for,
  and no others. The bytes may be cut into reads in any way, except that a read from the
  leader's agent must not end inside a package header. The hypothesis on \<open>um\<close> is that JSON text
  read back names the event's database and table.
\<close>

theorem row_changes_reach_callbacks:
  assumes "OnRow sp now Marshal e (fst (world nd)) = Ret h'" and "b_out h' = b_out (fst (world nd)) @ es"
    and "leading (length es) nd" and "listed (length es) (snd (world nd))"
    and "a \<in> set (vis (clients (ag_server nd)))" and "an_queue (a_heap (ag_server nd) a) = []"
    and "\<forall>x \<in> set es. reads_back um x \<and> length (snd x) + 14 < 2 ^ 32"
    and "listening fd" and "listed (length es) (snd (world fd))" and "onEvent fd = [sendAll_cb m2]"
    and "online (heap (snd (world fd)) b)" and "sendQueue (heap (snd (world fd)) b) = []" and "c_buffer c = []"
  shows "\<exists>nd'. node_OnRow sp now Marshal m e nd = Ret nd' \<and>
    (\<forall>d. online (heap (snd (world nd)) d) \<longrightarrow> sendQueue (heap (snd (world nd')) d) = sendQueue (heap (snd (world nd)) d) @
       map (\<lambda>x. Pack CMD_EVENT (snd x)) (filter (\<lambda>x. MatchFilters m (topics (heap (snd (world nd)) d)) (fst x)) es)) \<and>
    (\<forall>cs. concat cs = concat (an_queue (a_heap (ag_server nd') a)) \<and> header_safe [] cs \<longrightarrow>
      (\<exists>fd' t' sent. each (\<lambda>r. node_read grow um (Some r)) cs fd = Ret fd' \<and>
        sends (length (sendQueue (heap (snd (world fd')) b))) b (snd (world fd')) = Ret t' \<and>
        conn_writes (heap t' b) = conn_writes (heap (snd (world fd)) b) @ sent \<and>
        (\<forall>ds. concat ds = concat sent \<longrightarrow> (\<exists>c'. client_feed U ds c = Ret c' \<and> c_events c' = c_events c @
          concat (map (\<lambda>x. map (\<lambda>f. (f, U (snd x))) (c_onevent c))
            (filter (\<lambda>x. MatchFilters m2 (topics (heap (snd (world fd)) b)) (fst x)) es))))))"
proof -
  obtain nd' where nd': "node_OnRow sp now Marshal m e nd = Ret nd'" "world nd' = (h', fold (push_event m) es (snd (world nd)))"
    and reads: "\<And>cs. concat cs = concat (an_queue (a_heap (ag_server nd') a)) \<Longrightarrow> header_safe [] cs \<Longrightarrow>
      \<exists>fd'. each (\<lambda>r. node_read grow um (Some r)) cs fd = Ret fd' \<and>
        world fd' = (fst (world fd), fold (push_event m2) es (snd (world fd)))"
    by (rule events_replicated [OF assms(1-10), where m = m and grow = grow]) (rule that)
  have len: "\<forall>x \<in> set es. length (snd x) + 2 < 2 ^ 32" using assms(7) by fastforce
  show ?thesis
  proof (intro exI [of _ nd'] conjI allI impI nd'(1))
    fix cs assume "concat cs = concat (an_queue (a_heap (ag_server nd') a)) \<and> header_safe [] cs"
    then obtain fd' where fd': "each (\<lambda>r. node_read grow um (Some r)) cs fd = Ret fd'"
      "snd (world fd') = fold (push_event m2) es (snd (world fd))"
      using reads [of cs] by auto
    with pushed_events_reach_callbacks [OF assms(11-13) len, of m2 U]
    show "\<exists>fd' t' sent. each (\<lambda>r. node_read grow um (Some r)) cs fd = Ret fd' \<and>
        sends (length (sendQueue (heap (snd (world fd')) b))) b (snd (world fd')) = Ret t' \<and>
        conn_writes (heap t' b) = conn_writes (heap (snd (world fd)) b) @ sent \<and>
        (\<forall>ds. concat ds = concat sent \<longrightarrow> (\<exists>c'. client_feed U ds c = Ret c' \<and> c_events c' = c_events c @
          concat (map (\<lambda>x. map (\<lambda>f. (f, U (snd x))) (c_onevent c))
            (filter (\<lambda>x. MatchFilters m2 (topics (heap (snd (world fd)) b)) (fst x)) es))))"
      by (intro exI [of _ fd']) simp
  qed (simp add: nd'(2) sendQueue_push_events)
qed


text \<open>Witnesses on the concrete nodes.\<close>

theorem failover_resumes_at_leader_position_witness:
  "\<exists>nd' fd1 fd2 h. each node_OnPosSynced [\<lparr>pos_Name = ''bin.1'', pos_Pos = 500\<rparr>] demo_leader_node = Ret nd' \<and>
     node_read (\<lambda>_ n. n) (\<lambda>_. None) (Some (concat (an_queue (a_heap (ag_server nd') 2)))) demo_follower_node = Ret fd1 \<and>
     on_select (member_of (demo_leader 1) True) fd1 = (fd2, Ret ()) \<and>
     start_pass 0 (lookStart_turn (fst (world fd2))) = Ret h \<and> b_runs h = [\<lparr>pos_Name = ''bin.1'', pos_Pos = 500\<rparr>]"
proof -
  let ?ps = "[\<lparr>pos_Name = ''bin.1'', pos_Pos = 500\<rparr>] :: Position list"
  have run: "\<not> has_flag (b_status (fst (world demo_follower_node))) binlogIsRunning"
    "startServiceChan (fst (world demo_follower_node)) < chan_cap" "b_runs (fst (world demo_follower_node)) = []"
    by (simp_all add: new_binlog_def binlog_flags flag_simps chan_cap_def)
  have ldr: "IsLeader (member_of (demo_leader 1) True)" by (simp add: member_of_def)
  have pre: "leading (length ?ps) demo_leader_node" "\<forall>p \<in> set ?ps. length (pos_Name p) \<le> 494" "?ps \<noteq> []"
    "pos_Name (last ?ps) \<noteq> []"
    using demo_leading [of 1] by simp_all
  obtain nd' where nd': "each node_OnPosSynced ?ps demo_leader_node = Ret nd'"
    and reads: "\<forall>cs. concat cs = concat (an_queue (a_heap (ag_server nd') 2)) \<and> header_safe [] cs \<longrightarrow>
      (\<exists>fd1 fd2 h. each (\<lambda>r. node_read (\<lambda>_ n. n) (\<lambda>_. None) (Some r)) cs demo_follower_node = Ret fd1 \<and>
        on_select (member_of (demo_leader 1) True) fd1 = (fd2, Ret ()) \<and>
        start_pass 0 (lookStart_turn (fst (world fd2))) = Ret h \<and> b_runs h = b_runs (fst (world demo_follower_node)) @ [last ?ps])"
    using failover_resumes_at_leader_position [OF pre(1) demo_nodes(1,2) pre(2,3,4) demo_listening demo_follower_open
        demo_nodes(4) demo_nodes(7) run(2,1) ldr, of "\<lambda>_ n. n" "\<lambda>_. None" 0]
    by blast
  let ?ds = "map (\<lambda>p. Pack agent_CMD_POS (pack_record (pos_record (EventIndex demo_binlog) p))) ?ps"
  have "an_queue (a_heap (ag_server nd') 2) = map (Encode 1) ?ds"
    using leader_positions [of demo_leader_node demo_binlog demo_one ?ps] demo_leading [of 1] nd'
    by (auto simp: leading_def an_queue_queued)
  moreover have "header_safe [] [concat (map (Encode 1) ?ds)]"
    by (rule one_read_safe) (simp_all add: length_pack_record pos_record_def PackageMaxLength_def)
  ultimately show ?thesis
    using reads [rule_format, of "[concat (an_queue (a_heap (ag_server nd') 2))]"] nd' run(3)
    by (auto simp: go_simps)
qed

theorem handover_resumes_at_leader_position_witness:
  "\<exists>nd1 nd2 con1 fd1 m l con2 fd2 h.
     each node_OnPosSynced [\<lparr>pos_Name = ''bin.1'', pos_Pos = 500\<rparr>] demo_acting_leader = Ret nd1 \<and>
     agent_Close consul_api nd1 demo_consul = Ret (nd2, con1) \<and> \<not> leader (sService nd2) \<and>
     node_read (\<lambda>_ n. n) (\<lambda>_. None) (Some (concat (an_queue (a_heap (ag_server nd1) 2)))) demo_follower_node = Ret fd1 \<and>
     select_turn consul_api (sService fd1) con1 = ([m], l, con2) \<and> on_select m (fd1\<lparr>sService := l\<rparr>) = (fd2, Ret ()) \<and>
     start_pass 0 (lookStart_turn (fst (world fd2))) = Ret h \<and> b_runs h = [\<lparr>pos_Name = ''bin.1'', pos_Pos = 500\<rparr>]"
proof -
  let ?ps = "[\<lparr>pos_Name = ''bin.1'', pos_Pos = 500\<rparr>] :: Position list"
  have run: "\<not> has_flag (b_status (fst (world demo_follower_node))) binlogIsRunning"
    "startServiceChan (fst (world demo_follower_node)) < chan_cap" "b_runs (fst (world demo_follower_node)) = []"
    by (simp_all add: new_binlog_def binlog_flags flag_simps chan_cap_def)
  have roles: "leader (sService demo_acting_leader)" "\<not> leader (sService demo_follower_node)"
    "lock_key (sService demo_follower_node) = lock_key (sService demo_acting_leader)"
    "consul_valid demo_consul (sid (sService demo_follower_node))"
    by (simp_all add: demo_acting_leader_def demo_leader_node_def demo_follower_node_def consul_valid_def demo_consul_def)
  have acting: "leading n demo_acting_leader = leading n demo_leader_node" "world demo_acting_leader = world demo_leader_node"
    "ag_server demo_acting_leader = ag_server demo_leader_node" for n
    by (simp_all add: demo_acting_leader_def leading_def world_def)
  have pre: "leading (length ?ps) demo_acting_leader" "2 \<in> set (vis (clients (ag_server demo_acting_leader)))"
    "an_queue (a_heap (ag_server demo_acting_leader) 2) = []"
    "\<forall>p \<in> set ?ps. length (pos_Name p) \<le> 494" "?ps \<noteq> []" "pos_Name (last ?ps) \<noteq> []"
    using demo_leading [of 1] by (simp_all add: acting)
  obtain nd1 nd2 con1 where nd: "each node_OnPosSynced ?ps demo_acting_leader = Ret nd1"
    "agent_Close consul_api nd1 demo_consul = Ret (nd2, con1)" "\<not> leader (sService nd2)"
    and reads: "\<forall>cs. concat cs = concat (an_queue (a_heap (ag_server nd1) 2)) \<and> header_safe [] cs \<longrightarrow>
      (\<exists>fd1 m l con2 fd2 h. each (\<lambda>r. node_read (\<lambda>_ n. n) (\<lambda>_. None) (Some r)) cs demo_follower_node = Ret fd1 \<and>
        select_turn consul_api (sService fd1) con1 = ([m], l, con2) \<and> leader l \<and>
        on_select m (fd1\<lparr>sService := l\<rparr>) = (fd2, Ret ()) \<and>
        start_pass 0 (lookStart_turn (fst (world fd2))) = Ret h \<and> b_runs h = b_runs (fst (world demo_follower_node)) @ [last ?ps])"
    using handover_resumes_at_leader_position [OF consul.consul_lock_live_axioms roles pre demo_listening demo_follower_open
        demo_nodes(4) demo_nodes(7) run(2,1), of "\<lambda>_ n. n" "\<lambda>_. None" 0]
    by blast
  let ?ds = "map (\<lambda>p. Pack agent_CMD_POS (pack_record (pos_record (EventIndex demo_binlog) p))) ?ps"
  have "an_queue (a_heap (ag_server nd1) 2) = map (Encode 1) ?ds"
    using leader_positions [of demo_acting_leader demo_binlog demo_one ?ps] pre(1) nd(1)
    by (auto simp: leading_def acting an_queue_queued)
  moreover have "header_safe [] [concat (map (Encode 1) ?ds)]"
    by (rule one_read_safe) (simp_all add: length_pack_record pos_record_def PackageMaxLength_def)
  ultimately show ?thesis
    using reads [rule_format, of "[concat (an_queue (a_heap (ag_server nd1) 2))]"] nd run(3)
    by (simp add: go_simps) blast
qed

definition demo_um :: unmarshal where
  "demo_um d = Some [''database'' \<mapsto> JString ''db'', ''table'' \<mapsto> JString ''t'']"

lemma demo_insert_out:
  "\<exists>h'. OnRow 0 9 (\<lambda>d. Inl [ucast (rd_event_index d)]) demo_insert demo_binlog = Ret h' \<and>
     b_out h' = b_out demo_binlog @ [(''db.t'', [8]), (''db.t'', [9])]"
proof -
  let ?val = "\<lambda>r :: (unit, unit) edata list. [''c'' \<mapsto> hd r]"
  have "\<forall>r \<in> set (e_Rows demo_insert). fill_row 0 r 0 (e_Columns demo_insert) (\<lambda>_. None) = Ret (?val r)"
    by (simp add: demo_insert_def fieldDecode_def demo_col_def)
  from plain_rows_events [OF this, of "\<lambda>d. Inl [ucast (rd_event_index d)]" "\<lambda>d. [ucast (rd_event_index d)]"
      "\<lambda>_. None" 9 demo_binlog]
  show ?thesis
    by (simp add: OnRow_def demo_insert_def event_table_def row_event_def)
      (simp add: demo_binlog_def new_binlog_def upt_rec binlog_flags flag_simps)
qed

lemma demo_row_event:
  obtains h' nd' where
    "OnRow 0 9 (\<lambda>d. Inl [ucast (rd_event_index d)]) demo_insert (fst (world demo_leader_node)) = Ret h'"
    and "b_out h' = b_out (fst (world demo_leader_node)) @ [(''db.t'', [8]), (''db.t'', [9])]"
    and "node_OnRow 0 9 (\<lambda>d. Inl [ucast (rd_event_index d)]) (\<lambda>p s. (p = s, None)) demo_insert demo_leader_node = Ret nd'"
    and "header_safe [] [concat (an_queue (a_heap (ag_server nd') 2))]"
proof -
  let ?es = "[(''db.t'', [8]), (''db.t'', [9])] :: (string \<times> bytes) list"
  let ?M = "\<lambda>d :: (unit, unit) rowData. Inl [ucast (rd_event_index d)] :: bytes + g_error"
  let ?m = "\<lambda>p s :: string. (p = s, None :: g_error option)"
  obtain h' where h': "OnRow 0 9 ?M demo_insert (fst (world demo_leader_node)) = Ret h'"
    "b_out h' = b_out (fst (world demo_leader_node)) @ ?es"
    using demo_insert_out by auto
  have pre: "leading (length ?es) demo_leader_node" "listed (length ?es) (snd (world demo_leader_node))"
    "listed (length ?es) (snd (world demo_follower_node))"
    "\<forall>x \<in> set ?es. reads_back demo_um x \<and> length (snd x) + 14 < 2 ^ 32"
    by (simp_all add: demo_leading demo_listed reads_back_def demo_um_def)
  obtain nd' where nd': "node_OnRow 0 9 ?M ?m demo_insert demo_leader_node = Ret nd'"
    "an_queue (a_heap (ag_server nd') 2) = map (\<lambda>x. Encode 1 (Pack agent_CMD_EVENT (snd x))) ?es"
    by (rule events_replicated [OF h' pre(1,2) demo_nodes(1,2) pre(4) demo_listening pre(3) demo_nodes(8), where m = ?m])
      (rule that)
  have "header_safe [] [concat (map (Encode 1) (map (\<lambda>x. Pack agent_CMD_EVENT (snd x)) ?es))]"
    by (rule one_read_safe) (simp_all add: PackageMaxLength_def)
  then show thesis using that [OF h' nd'(1)] nd'(2) by (simp add: comp_def)
qed

lemma demo_events_ready:
  "leading (length [(''db.t'', [8]), (''db.t'', [9])]) demo_leader_node" "listed (length [(''db.t'', [8]), (''db.t'', [9])]) (snd (world demo_leader_node))"
  "listed (length [(''db.t'', [8]), (''db.t'', [9])]) (snd (world demo_follower_node))"
  "\<forall>x \<in> set [(''db.t'', [8]), (''db.t'', [9])]. reads_back demo_um x \<and> length (snd x) + 14 < 2 ^ 32"
  "online (heap (snd (world demo_follower_node)) 1)" "sendQueue (heap (snd (world demo_follower_node)) 1) = []"
  "topics (heap (snd (world demo_follower_node)) 1) = []"
  by (simp_all add: demo_leading demo_listed reads_back_def demo_um_def) (simp_all add: newNode_def)

theorem events_reach_subscribers_of_followers_witness:
  "\<exists>nd' fd'. node_OnRow 0 9 (\<lambda>d. Inl [ucast (rd_event_index d)]) (\<lambda>p s. (p = s, None)) demo_insert demo_leader_node = Ret nd' \<and>
     node_read (\<lambda>_ n. n) demo_um (Some (concat (an_queue (a_heap (ag_server nd') 2)))) demo_follower_node = Ret fd' \<and>
     sendQueue (heap (snd (world fd')) 1) = [Pack CMD_EVENT [8], Pack CMD_EVENT [9]]"
proof -
  obtain h' nd' where e: "OnRow 0 9 (\<lambda>d. Inl [ucast (rd_event_index d)]) demo_insert (fst (world demo_leader_node)) = Ret h'"
    "b_out h' = b_out (fst (world demo_leader_node)) @ [(''db.t'', [8]), (''db.t'', [9])]"
    and nd': "node_OnRow 0 9 (\<lambda>d. Inl [ucast (rd_event_index d)]) (\<lambda>p s. (p = s, None)) demo_insert demo_leader_node = Ret nd'"
    "header_safe [] [concat (an_queue (a_heap (ag_server nd') 2))]"
    by (rule demo_row_event)
  note ready = demo_events_ready
  note reach = events_reach_subscribers_of_followers [OF e ready(1,2) demo_nodes(1,2) ready(4) demo_listening ready(3)
        demo_nodes(8), of "\<lambda>p s. (p = s, None)" "\<lambda>_ n. n"]
  from reach nd'(1) have "\<forall>cs. concat cs = concat (an_queue (a_heap (ag_server nd') 2)) \<and> header_safe [] cs \<longrightarrow>
    (\<exists>fd'. each (\<lambda>r. node_read (\<lambda>_ n. n) demo_um (Some r)) cs demo_follower_node = Ret fd' \<and>
      sendQueue (heap (snd (world fd')) 1) = [Pack CMD_EVENT [8], Pack CMD_EVENT [9]])"
    using ready(5-7) by (fastforce simp: MatchFilters_iff simp del: length_Cons demo_nodes)
  from this [rule_format, of "[concat (an_queue (a_heap (ag_server nd') 2))]"] nd' show ?thesis
    by (simp add: go_simps)
qed

theorem row_changes_reach_callbacks_witness:
  "\<exists>nd' fd' t' c'. node_OnRow 0 9 (\<lambda>d. Inl [ucast (rd_event_index d)]) (\<lambda>p s. (p = s, None)) demo_insert demo_leader_node = Ret nd' \<and>
     node_read (\<lambda>_ n. n) demo_um (Some (concat (an_queue (a_heap (ag_server nd') 2)))) demo_follower_node = Ret fd' \<and>
     sends (length (sendQueue (heap (snd (world fd')) 1))) 1 (snd (world fd')) = Ret t' \<and>
     client_feed id (conn_writes (heap t' 1)) (demo_client\<lparr>c_onevent := [7]\<rparr>) = Ret c' \<and> c_events c' = [(7, [8]), (7, [9])]"
proof -
  obtain h' nd' where e: "OnRow 0 9 (\<lambda>d. Inl [ucast (rd_event_index d)]) demo_insert (fst (world demo_leader_node)) = Ret h'"
    "b_out h' = b_out (fst (world demo_leader_node)) @ [(''db.t'', [8]), (''db.t'', [9])]"
    and nd': "node_OnRow 0 9 (\<lambda>d. Inl [ucast (rd_event_index d)]) (\<lambda>p s. (p = s, None)) demo_insert demo_leader_node = Ret nd'"
    "header_safe [] [concat (an_queue (a_heap (ag_server nd') 2))]"
    by (rule demo_row_event)
  note ready = demo_events_ready
  have c: "c_buffer (demo_client\<lparr>c_onevent := [7]\<rparr>) = []" "c_events (demo_client\<lparr>c_onevent := [7]\<rparr>) = []"
    "conn_writes (heap (snd (world demo_follower_node)) 1) = []"
    by (simp_all add: demo_client_def new_server_def newClient_def newNode_def)
  note reach = row_changes_reach_callbacks [OF e ready(1,2) demo_nodes(1,2) ready(4) demo_listening ready(3) demo_nodes(8) ready(5,6) c(1),
        of "\<lambda>p s. (p = s, None)" "\<lambda>_ n. n" id]
  from reach nd'(1) have "\<forall>cs. concat cs = concat (an_queue (a_heap (ag_server nd') 2)) \<and> header_safe [] cs \<longrightarrow>
    (\<exists>fd' t'. each (\<lambda>r. node_read (\<lambda>_ n. n) demo_um (Some r)) cs demo_follower_node = Ret fd' \<and>
      sends (length (sendQueue (heap (snd (world fd')) 1))) 1 (snd (world fd')) = Ret t' \<and>
      (\<exists>c'. client_feed id (conn_writes (heap t' 1)) (demo_client\<lparr>c_onevent := [7]\<rparr>) = Ret c' \<and> c_events c' = [(7, [8]), (7, [9])]))"
    unfolding c(2,3) ready(7) by (fastforce simp: MatchFilters_iff simp del: length_Cons)
  from this [rule_format, of "[concat (an_queue (a_heap (ag_server nd') 2))]"] nd' show ?thesis
    by (simp add: go_simps)
qed


end
